(* ===== verification/Prelude.thy ===== *)
theory Prelude
  imports Main "HOL-Library.Word" "HOL-Library.AList" "HOL-Library.List_Lexorder"
begin

text \<open>
  Shared vocabulary of the development: bytes and machine integers, the error values of the
  package, Go slices (with the run-time panic of an out-of-range slice expression as a value),
  little-endian integers (package \<^verbatim>\<open>encoding/binary\<close>), the CRC-32 of package \<^verbatim>\<open>hash/crc32\<close>, and
  Go maps as association lists with distinct keys.  Go's \<^verbatim>\<open>int\<close> is 64 bits wide on the supported
  platforms; lengths and offsets are natural numbers here, and the conversions to \<^verbatim>\<open>uint32\<close> and
  \<^verbatim>\<open>uint64\<close> are written out where the source makes them.
\<close>

unbundle bit_operations_syntax

named_theorems slice_simps \<open>reads and writes of byte ranges\<close>

section \<open>Types\<close>

type_synonym byte = "8 word"
type_synonym bytes = "byte list"
type_synonym u32 = "32 word"
type_synonym u64 = "64 word"

datatype goerr =
    Panic
  | ErrUnexpectedEOF
  | ErrVarintOverflow
  | ErrMetaTooShort nat
  | ErrUnsupportedVersion u32
  | ErrCRCMismatch
  | ErrActualSize u32 nat
  | ErrShortIV
  | ErrClosed
  | ErrReadOnly
  | ErrOpen
  | ErrStat
  | ErrEmptyFile
  | ErrTruncate
  | ErrMunmap
  | ErrMmap
  | ErrMsync
  | ErrRand
  | ErrFlock
  | EWOULDBLOCK
  | ErrUnlockShared
  | ErrUnlockExclusive
  | ErrMkdir
  | ErrRead
  | ErrWrite
  | ErrNotExist
  | ErrClose
  | ErrCrcTooSmall

section \<open>Slices\<close>

text \<open>
  \<open>go_slice lo hi s\<close> is the slice expression \<^verbatim>\<open>s[lo:hi]\<close>, which panics out of range.
  \<open>overwrite off bs s\<close> is the content of \<open>s\<close> after \<^verbatim>\<open>copy(s[off:off+len(bs)], bs)\<close>;
  \<open>go_copy_at\<close> is that statement with its panic.
\<close>

definition go_slice :: "nat \<Rightarrow> nat \<Rightarrow> 'a list \<Rightarrow> goerr + 'a list" where
  "go_slice lo hi s =
     (if lo \<le> hi \<and> hi \<le> length s then Inr (take (hi - lo) (drop lo s)) else Inl Panic)"

definition overwrite :: "nat \<Rightarrow> 'a list \<Rightarrow> 'a list \<Rightarrow> 'a list" where
  "overwrite off bs s = take off s @ bs @ drop (off + length bs) s"

definition go_copy_at :: "nat \<Rightarrow> 'a list \<Rightarrow> 'a list \<Rightarrow> goerr + 'a list" where
  "go_copy_at off bs s =
     (if off + length bs \<le> length s then Inr (overwrite off bs s) else Inl Panic)"

lemma go_slice_ok [slice_simps]:
  "lo \<le> hi \<Longrightarrow> hi \<le> length s \<Longrightarrow> go_slice lo hi s = Inr (take (hi - lo) (drop lo s))"
  by (simp add: go_slice_def)

lemma go_copy_at_ok [slice_simps]:
  "off + length bs \<le> length s \<Longrightarrow> go_copy_at off bs s = Inr (overwrite off bs s)"
  by (simp add: go_copy_at_def)

lemma length_overwrite [simp]:
  "off + length bs \<le> length s \<Longrightarrow> length (overwrite off bs s) = length s"
  by (simp add: overwrite_def)

lemma take_overwrite [slice_simps]:
  "n \<le> off \<Longrightarrow> off \<le> length s \<Longrightarrow> take n (overwrite off bs s) = take n s"
  by (simp add: overwrite_def min_def)

lemma drop_overwrite [slice_simps]:
  "off + length bs \<le> n \<Longrightarrow> off + length bs \<le> length s \<Longrightarrow>
   drop n (overwrite off bs s) = drop n s"
  by (simp add: overwrite_def)

lemma take_drop_overwrite_same [slice_simps]:
  "off + length bs \<le> length s \<Longrightarrow> take (length bs) (drop off (overwrite off bs s)) = bs"
  by (simp add: overwrite_def)

lemma take_drop_overwrite_before [slice_simps]:
  "lo + n \<le> off \<Longrightarrow> off \<le> length s \<Longrightarrow>
   take n (drop lo (overwrite off bs s)) = take n (drop lo s)"
  by (auto simp: overwrite_def drop_take min_def)

lemma take_drop_overwrite_extend:
  "lo + n = off \<Longrightarrow> off + length bs \<le> length s \<Longrightarrow>
   take (n + length bs) (drop lo (overwrite off bs s)) = take n (drop lo s) @ bs"
  by (auto simp: overwrite_def drop_take min_def)

lemma drop_shift: "drop p xs = a @ ys \<Longrightarrow> drop (p + length a) xs = ys"
  by (metis add.commute append_eq_conv_conj drop_drop)

section \<open>Little-endian integers\<close>

primrec put_le :: "nat \<Rightarrow> 'a::len word \<Rightarrow> bytes" where
  "put_le 0 v = []"
| "put_le (Suc n) v = ucast v # put_le n (drop_bit 8 v)"

primrec get_le :: "bytes \<Rightarrow> 'a::len word" where
  "get_le [] = 0"
| "get_le (b # bs) = ucast b OR push_bit 8 (get_le bs)"

definition putUint32 :: "u32 \<Rightarrow> bytes" where
  "putUint32 v = put_le 4 v"

definition putUint64 :: "u64 \<Rightarrow> bytes" where
  "putUint64 v = put_le 8 v"

definition getUint32 :: "bytes \<Rightarrow> u32" where
  "getUint32 bs = get_le (take 4 bs)"

definition getUint64 :: "bytes \<Rightarrow> u64" where
  "getUint64 bs = get_le (take 8 bs)"

lemma length_put_le [simp]: "length (put_le n v) = n"
  by (induction n arbitrary: v) auto

lemma length_putUint [simp]: "length (putUint32 v) = 4" "length (putUint64 w) = 8"
  by (simp_all add: putUint32_def putUint64_def)

lemma bit_byte_bound: "bit (b :: byte) n \<Longrightarrow> n < 8"
  by (drule bit_imp_le_length) simp

lemma bit_get_le_bound: "bit (get_le bs :: 'a::len word) n \<Longrightarrow> n < 8 * length bs"
proof (induction bs arbitrary: n)
  case (Cons b bs)
  then have "bit b n \<or> 8 \<le> n \<and> bit (get_le bs :: 'a word) (n - 8)"
    by (auto simp: bit_simps)
  then show ?case using Cons.IH [of "n - 8"] bit_byte_bound [of b n] by auto
qed simp

lemma get_put_le: "get_le (put_le n v) = take_bit (8 * n) v"
proof (induction n arbitrary: v)
  case (Suc n)
  show ?case
    by (rule bit_word_eqI) (auto simp: Suc bit_simps)
qed simp

lemma put_get_le:
  "8 * length bs \<le> LENGTH('a) \<Longrightarrow> put_le (length bs) (get_le bs :: 'a::len word) = bs"
proof (induction bs)
  case (Cons b bs)
  have d: "drop_bit 8 (ucast b OR push_bit 8 (get_le bs :: 'a word)) = (get_le bs :: 'a word)"
    using Cons.prems
    by (intro bit_word_eqI) (auto simp: bit_simps dest: bit_byte_bound bit_get_le_bound)
  have u: "ucast (ucast b OR push_bit 8 (get_le bs :: 'a word)) = b"
    using Cons.prems by (intro bit_word_eqI) (auto simp: bit_simps)
  show ?case using Cons by (simp add: d u del: drop_bit_or)
qed simp

lemma take_bit_word_full: "LENGTH('a) \<le> n \<Longrightarrow> take_bit n (v :: 'a::len word) = v"
  by (rule bit_word_eqI) (simp add: bit_simps)

lemma get_putUint32 [simp]: "getUint32 (putUint32 v @ bs) = v" "getUint32 (putUint32 v) = v"
  by (simp_all add: getUint32_def putUint32_def get_put_le take_bit_word_full)

lemma get_putUint64 [simp]: "getUint64 (putUint64 v @ bs) = v" "getUint64 (putUint64 v) = v"
  by (simp_all add: getUint64_def putUint64_def get_put_le take_bit_word_full)

lemma put_getUint32: "length bs = 4 \<Longrightarrow> putUint32 (getUint32 bs) = bs"
  using put_get_le [of bs, where 'a = 32] by (simp add: putUint32_def getUint32_def)

lemma put_getUint64: "length bs = 8 \<Longrightarrow> putUint64 (getUint64 bs) = bs"
  using put_get_le [of bs, where 'a = 64] by (simp add: putUint64_def getUint64_def)

lemma unat_of_nat_small: "n < 2 ^ LENGTH('a) \<Longrightarrow> unat (of_nat n :: 'a::len word) = n"
  by (simp add: unat_of_nat)

lemma bit_imp_unat_ge: "bit w n \<Longrightarrow> 2 ^ n \<le> unat w"
proof -
  assume "bit w n"
  then have "bit (unat w) n" by (simp add: bit_simps)
  then have "unat w div 2 ^ n \<noteq> 0" by (auto simp: bit_iff_odd intro!: Nat.gr0I)
  then show ?thesis by (meson div_less not_le)
qed

section \<open>CRC-32 (IEEE)\<close>

text \<open>
  \<^verbatim>\<open>crc32.Update\<close> over the IEEE table: the table entry of a byte is eight steps of the reflected
  polynomial, and each input byte folds into the complemented running value.
\<close>

definition crc_poly :: u32 where
  "crc_poly = 0xEDB88320"

primrec crc_bits :: "nat \<Rightarrow> u32 \<Rightarrow> u32" where
  "crc_bits 0 c = c"
| "crc_bits (Suc n) c =
     crc_bits n (if c AND 1 = 1 then drop_bit 1 c XOR crc_poly else drop_bit 1 c)"

definition crc_table :: "byte \<Rightarrow> u32" where
  "crc_table i = crc_bits 8 (ucast i)"

definition crc_byte :: "byte \<Rightarrow> u32 \<Rightarrow> u32" where
  "crc_byte v crc = crc_table (ucast crc XOR v) XOR drop_bit 8 crc"

definition crc32_Update :: "u32 \<Rightarrow> bytes \<Rightarrow> u32" where
  "crc32_Update crc p = NOT (fold crc_byte p (NOT crc))"

definition crc32_ChecksumIEEE :: "bytes \<Rightarrow> u32" where
  "crc32_ChecksumIEEE p = crc32_Update 0 p"

lemma crc32_empty [simp]: "crc32_ChecksumIEEE [] = 0"
  by (simp add: crc32_ChecksumIEEE_def crc32_Update_def)

lemma crc32_Update_append: "crc32_Update (crc32_Update c a) b = crc32_Update c (a @ b)"
  by (simp add: crc32_Update_def)

lemma crc32_incremental:
  "crc32_Update (crc32_ChecksumIEEE a) b = crc32_ChecksumIEEE (a @ b)"
  by (simp add: crc32_ChecksumIEEE_def crc32_Update_append)


section \<open>Transition systems\<close>

inductive reach :: "('s \<Rightarrow> bool) \<Rightarrow> ('s \<Rightarrow> 's \<Rightarrow> bool) \<Rightarrow> 's \<Rightarrow> bool"
  for init step where
  reach_init: "init s \<Longrightarrow> reach init step s"
| reach_step: "reach init step s \<Longrightarrow> step s t \<Longrightarrow> reach init step t"

text \<open>An inductive invariant: it holds initially and every step keeps it.\<close>

locale invariant_system =
  fixes init :: "'s \<Rightarrow> bool"
    and step :: "'s \<Rightarrow> 's \<Rightarrow> bool"
    and inv :: "'s \<Rightarrow> bool"
  assumes inv_init: "init s \<Longrightarrow> inv s"
    and inv_step: "inv s \<Longrightarrow> step s t \<Longrightarrow> inv t"
begin

lemma reach_inv: "reach init step s \<Longrightarrow> inv s"
  by (induction rule: reach.induct) (auto intro: inv_init inv_step)

lemma step_star_inv: "step\<^sup>*\<^sup>* s t \<Longrightarrow> inv s \<Longrightarrow> inv t"
  by (induction rule: rtranclp_induct) (auto intro: inv_step)

end

end
