(* ===== verification/GoMap.thy ===== *)
theory GoMap
  imports Prelude
begin

text \<open>
  Go maps keyed by strings.  A \<^verbatim>\<open>map[string]T\<close> is an association list with distinct keys: lookup,
  assignment, \<^verbatim>\<open>delete\<close>, \<^verbatim>\<open>len\<close> and \<^verbatim>\<open>range\<close> compute on it.  The source ranges over a map only to
  collect keys that it sorts, to count, or to visit every entry once, so the order of the list is
  never observable.  What the components rely on is the contract \<open>go_map\<close>, interpreted on the list.
\<close>

type_synonym 'v gomap = "(bytes \<times> 'v) list"

definition gm_get :: "'v gomap \<Rightarrow> bytes \<Rightarrow> 'v option" where
  "gm_get m = map_of m"

definition gm_put :: "bytes \<Rightarrow> 'v \<Rightarrow> 'v gomap \<Rightarrow> 'v gomap" where
  "gm_put k v m = AList.update k v m"

definition gm_del :: "bytes \<Rightarrow> 'v gomap \<Rightarrow> 'v gomap" where
  "gm_del k m = AList.delete k m"

definition gm_keys :: "'v gomap \<Rightarrow> bytes list" where
  "gm_keys m = map fst m"

definition gm_inv :: "'v gomap \<Rightarrow> bool" where
  "gm_inv m = distinct (map fst m)"

text \<open>\<^verbatim>\<open>sort.Strings\<close>: ascending in the byte-wise lexicographic order of Go strings.\<close>

definition sort_Strings :: "bytes list \<Rightarrow> bytes list" where
  "sort_Strings ks = sort ks"

lemma set_sort_Strings [simp]: "set (sort_Strings ks) = set ks"
  by (simp add: sort_Strings_def)

lemma distinct_sort_Strings [simp]: "distinct (sort_Strings ks) = distinct ks"
  by (simp add: sort_Strings_def)

lemma sorted_sort_Strings [simp]: "sorted (sort_Strings ks)"
  by (simp add: sort_Strings_def)

lemma length_sort_Strings [simp]: "length (sort_Strings ks) = length ks"
  by (simp add: sort_Strings_def)

section \<open>The contract of a map\<close>

locale go_map =
  fixes empty :: "'m"
    and get :: "'m \<Rightarrow> bytes \<Rightarrow> 'v option"
    and put :: "bytes \<Rightarrow> 'v \<Rightarrow> 'm \<Rightarrow> 'm"
    and del :: "bytes \<Rightarrow> 'm \<Rightarrow> 'm"
    and keys :: "'m \<Rightarrow> bytes list"
    and len :: "'m \<Rightarrow> nat"
    and inv :: "'m \<Rightarrow> bool"
  assumes get_empty: "get empty = Map.empty"
    and get_put: "get (put k v m) = (get m)(k \<mapsto> v)"
    and get_del: "get (del k m) = (get m)(k := None)"
    and set_keys: "set (keys m) = dom (get m)"
    and distinct_keys: "inv m \<Longrightarrow> distinct (keys m)"
    and len_keys: "len m = length (keys m)"
    and inv_empty: "inv empty"
    and inv_put: "inv m \<Longrightarrow> inv (put k v m)"
    and inv_del: "inv m \<Longrightarrow> inv (del k m)"
begin

text \<open>A log entry assigns a key, or deletes it when it carries no value.\<close>

lemma get_log:
  "get (fold (\<lambda>(k, x) m. case x of None \<Rightarrow> del k m | Some v \<Rightarrow> put k v m) log m) =
   fold (\<lambda>(k, x) f. f(k := x)) log (get m)"
  by (induction log arbitrary: m) (auto simp: get_put get_del split: option.split)

lemma inv_log:
  "inv m \<Longrightarrow>
   inv (fold (\<lambda>(k, x) m. case x of None \<Rightarrow> del k m | Some v \<Rightarrow> put k v m) log m)"
  by (induction log arbitrary: m) (auto simp: inv_put inv_del split: option.split)

lemma len_zero_iff: "len m = 0 \<longleftrightarrow> get m = Map.empty"
  using set_keys [of m] by (simp add: len_keys) (metis dom_eq_empty_conv set_empty)

lemma len_one_iff:
  assumes "inv m" "get m k \<noteq> None"
  shows "len m = 1 \<longleftrightarrow> dom (get m) = {k}"
proof -
  have k: "k \<in> set (keys m)" using assms(2) by (auto simp: set_keys)
  have "length (keys m) = card (dom (get m))"
    using distinct_card [OF distinct_keys [OF assms(1)]] by (simp add: set_keys)
  then have "len m = 1 \<longleftrightarrow> (\<exists>j. dom (get m) = {j})"
    by (simp add: len_keys card_1_singleton_iff)
  then show ?thesis using k unfolding set_keys by (metis singletonD)
qed

lemma keys_card: "inv m \<Longrightarrow> len m = card (dom (get m))"
  using distinct_card [OF distinct_keys] by (simp add: len_keys set_keys)

end

interpretation gm: go_map "[]" gm_get gm_put gm_del gm_keys length gm_inv
proof
  show "gm_get [] = Map.empty"
    by (simp add: gm_get_def fun_eq_iff)
  show "gm_get (gm_put k v m) = (gm_get m)(k \<mapsto> v)" for k v and m :: "'v gomap"
    by (simp add: gm_get_def gm_put_def fun_eq_iff update_conv')
  show "gm_get (gm_del k m) = (gm_get m)(k := None)" for k and m :: "'v gomap"
    by (simp add: gm_get_def gm_del_def fun_eq_iff delete_conv')
  show "set (gm_keys m) = dom (gm_get m)" for m :: "'v gomap"
    by (simp add: gm_keys_def gm_get_def dom_map_of_conv_image_fst)
qed (auto simp: gm_keys_def gm_inv_def gm_put_def gm_del_def distinct_update distinct_delete)

lemma gm_get_Nil [simp]: "gm_get [] k = None"
  by (simp add: gm_get_def)

text \<open>Changing every value of a map, as a \<^verbatim>\<open>range\<close> loop that reassigns each key does.\<close>

lemma gm_get_map: "gm_get (map (\<lambda>(k, v). (k, f v)) m) = (\<lambda>k. map_option f (gm_get m k))"
  by (simp add: gm_get_def map_of_map comp_def)

lemma gm_inv_map: "gm_inv (map (\<lambda>(k, v). (k, f v)) m) = gm_inv m"
  by (simp add: gm_inv_def comp_def case_prod_beta')

end
