(* ===== verification/Wire.thy ===== *)
theory Wire
  imports GoMap
begin

text \<open>
  The wire-format reader of \<^verbatim>\<open>wire.go\<close>.  A \<open>codedInput\<close> is a buffer and a position; every reader
  returns its result (an error or a value) together with the advanced input, as the methods with a
  pointer receiver do, also when they fail.  \<open>readView\<close> is \<^verbatim>\<open>readBytes\<close> with the returned slice given
  as a view (offset and length) into the buffer; \<open>readBytes\<close> reads that view.  Signed integers and
  floats are kept as their machine words: \<^verbatim>\<open>int32\<close> and \<^verbatim>\<open>float32\<close> as 32 bits, \<^verbatim>\<open>int64\<close> and
  \<^verbatim>\<open>float64\<close> as 64 bits.  The contract \<open>codec\<close> pairs a reader with the writer it inverts.
\<close>

record codedInput =
  ci_buf :: bytes
  ci_pos :: nat

type_synonym view = "nat \<times> nat"

definition view_bytes :: "bytes \<Rightarrow> view \<Rightarrow> bytes" where
  "view_bytes b v = take (snd v) (drop (fst v) b)"

definition newCodedInput :: "bytes \<Rightarrow> codedInput" where
  "newCodedInput b = \<lparr>ci_buf = b, ci_pos = 0\<rparr>"

definition atEnd :: "codedInput \<Rightarrow> bool" where
  "atEnd c \<longleftrightarrow> ci_pos c \<ge> length (ci_buf c)"

fun readVarint64_loop :: "nat \<Rightarrow> u64 \<Rightarrow> nat \<Rightarrow> codedInput \<Rightarrow> (goerr + u64) \<times> codedInput" where
  "readVarint64_loop 0 x s c = (Inl ErrVarintOverflow, c)"
| "readVarint64_loop (Suc i) x s c =
     (if ci_pos c \<ge> length (ci_buf c) then (Inl ErrUnexpectedEOF, c)
      else let b = ci_buf c ! ci_pos c; c' = c\<lparr>ci_pos := ci_pos c + 1\<rparr>
           in if b < 0x80 then (Inr (x OR push_bit s (ucast b)), c')
              else readVarint64_loop i (x OR push_bit s (ucast (b AND 0x7f))) (s + 7) c')"

definition readVarint64 :: "codedInput \<Rightarrow> (goerr + u64) \<times> codedInput" where
  "readVarint64 c = readVarint64_loop 10 0 0 c"

definition readView :: "codedInput \<Rightarrow> (goerr + view) \<times> codedInput" where
  "readView c =
     (case readVarint64 c of
        (Inl e, c1) \<Rightarrow> (Inl e, c1)
      | (Inr n, c1) \<Rightarrow>
          if unat n > length (ci_buf c1) - ci_pos c1 then (Inl ErrUnexpectedEOF, c1)
          else (Inr (ci_pos c1, unat n), c1\<lparr>ci_pos := ci_pos c1 + unat n\<rparr>))"

definition readBytes :: "codedInput \<Rightarrow> (goerr + bytes) \<times> codedInput" where
  "readBytes c =
     (case readView c of
        (Inl e, c1) \<Rightarrow> (Inl e, c1)
      | (Inr v, c1) \<Rightarrow> (Inr (view_bytes (ci_buf c) v), c1))"

definition readFixed32 :: "codedInput \<Rightarrow> (goerr + u32) \<times> codedInput" where
  "readFixed32 c =
     (if ci_pos c + 4 > length (ci_buf c) then (Inl ErrUnexpectedEOF, c)
      else (Inr (getUint32 (drop (ci_pos c) (ci_buf c))), c\<lparr>ci_pos := ci_pos c + 4\<rparr>))"

definition readFixed64 :: "codedInput \<Rightarrow> (goerr + u64) \<times> codedInput" where
  "readFixed64 c =
     (if ci_pos c + 8 > length (ci_buf c) then (Inl ErrUnexpectedEOF, c)
      else (Inr (getUint64 (drop (ci_pos c) (ci_buf c))), c\<lparr>ci_pos := ci_pos c + 8\<rparr>))"

definition readInt32 :: "codedInput \<Rightarrow> (goerr + u32) \<times> codedInput" where
  "readInt32 c = (case readVarint64 c of (r, c1) \<Rightarrow> (map_sum id ucast r, c1))"

definition readUInt32 :: "codedInput \<Rightarrow> (goerr + u32) \<times> codedInput" where
  "readUInt32 c = (case readVarint64 c of (r, c1) \<Rightarrow> (map_sum id ucast r, c1))"

definition readBool :: "codedInput \<Rightarrow> (goerr + bool) \<times> codedInput" where
  "readBool c = (case readVarint64 c of (r, c1) \<Rightarrow> (map_sum id (\<lambda>v. v \<noteq> 0) r, c1))"

section \<open>Where a reader leaves its input\<close>

lemma readVarint64_loop_frame:
  "readVarint64_loop i x s c = (r, c') \<Longrightarrow>
   ci_buf c' = ci_buf c \<and> ci_pos c \<le> ci_pos c' \<and> ci_pos c' \<le> max (ci_pos c) (length (ci_buf c)) \<and>
   (\<forall>v. r = Inr v \<longrightarrow> ci_pos c < ci_pos c')"
proof (induction i arbitrary: x s c)
  case (Suc i)
  from Suc.prems show ?case
    by (auto simp: Let_def not_le split: if_splits dest!: Suc.IH)
qed auto

lemma readVarint64_frame:
  assumes "readVarint64 c = (r, c')"
  shows "ci_buf c' = ci_buf c" "ci_pos c \<le> ci_pos c'"
    "ci_pos c' \<le> max (ci_pos c) (length (ci_buf c))"
    "r = Inr v \<Longrightarrow> ci_pos c < ci_pos c'"
  using readVarint64_loop_frame [OF assms [unfolded readVarint64_def]] by auto

text \<open>A successful field read is inside the buffer and consumes at least its length byte.\<close>

lemma readView_frame:
  assumes "readView c = (Inr (off, n), c')"
  shows "ci_buf c' = ci_buf c" "ci_pos c < off" "ci_pos c' = off + n" "off + n \<le> length (ci_buf c)"
proof -
  from assms obtain k c1 where k: "readVarint64 c = (Inr k, c1)"
    by (auto simp: readView_def split: prod.splits sum.splits)
  note f = readVarint64_frame [OF k]
  from f(3) f(4) [OF refl] have b: "ci_pos c1 \<le> length (ci_buf c)" by (auto simp: max_def split: if_splits)
  show "ci_buf c' = ci_buf c" "ci_pos c < off" "ci_pos c' = off + n" "off + n \<le> length (ci_buf c)"
    using assms k f(1) f(4) [OF refl] b by (auto simp: readView_def split: if_splits)
qed

text \<open>The measure of the loops that read fields until the end of the buffer.\<close>

definition remaining :: "codedInput \<Rightarrow> nat" where
  "remaining c = length (ci_buf c) - ci_pos c"

lemma readView_remaining: "readView c = (Inr v, c') \<Longrightarrow> remaining c' < remaining c"
  using readView_frame [of c "fst v" "snd v" c'] by (simp add: remaining_def)

section \<open>The contract between a writer and its reader\<close>

text \<open>
  \<open>ok\<close> marks the values the writer represents exactly.  The reader, placed at an encoding anywhere in
  a buffer, returns the value and stops right behind it.
\<close>

locale codec =
  fixes enc :: "'a \<Rightarrow> bytes"
    and dec :: "codedInput \<Rightarrow> (goerr + 'a) \<times> codedInput"
    and ok :: "'a \<Rightarrow> bool"
  assumes dec_enc: "ok x \<Longrightarrow>
      dec \<lparr>ci_buf = pre @ enc x @ post, ci_pos = length pre\<rparr> =
      (Inr x, \<lparr>ci_buf = pre @ enc x @ post, ci_pos = length pre + length (enc x)\<rparr>)"
begin

lemma dec_at:
  assumes "ok x" "drop p b = enc x @ post" "p \<le> length b"
  shows "dec \<lparr>ci_buf = b, ci_pos = p\<rparr> = (Inr x, \<lparr>ci_buf = b, ci_pos = p + length (enc x)\<rparr>)"
proof -
  have "b = take p b @ enc x @ post"
    using assms(2) by (metis append_take_drop_id)
  then show ?thesis
    using dec_enc [OF assms(1), of "take p b" post] assms(3) by (simp add: min_absorb2)
qed

lemma dec_whole: "ok x \<Longrightarrow> fst (dec (newCodedInput (enc x))) = Inr x"
  using dec_enc [of x "[]" "[]"] by (simp add: newCodedInput_def)

text \<open>Encodings are self-delimiting: no encoding is a proper prefix of another.\<close>

lemma enc_prefix_free:
  assumes "ok x" "ok y" "enc x @ a = enc y @ b"
  shows "x = y \<and> a = b"
proof -
  have "dec \<lparr>ci_buf = enc x @ a, ci_pos = 0\<rparr> = (Inr x, \<lparr>ci_buf = enc x @ a, ci_pos = length (enc x)\<rparr>)"
    using dec_enc [OF assms(1), of "[]" a] by simp
  moreover have "dec \<lparr>ci_buf = enc x @ a, ci_pos = 0\<rparr> =
      (Inr y, \<lparr>ci_buf = enc x @ a, ci_pos = length (enc y)\<rparr>)"
    using dec_enc [OF assms(2), of "[]" b] assms(3) by simp
  ultimately have "x = y" by simp
  with assms(3) show ?thesis by simp
qed

end

end
