(* ===== verification/Encode.thy ===== *)
theory Encode
  imports Wire
begin

text \<open>
  The wire-format writer of \<^verbatim>\<open>encode.go\<close>: a \<open>codedOutput\<close> is the buffer written so far and every
  writer appends to it.  The value blobs, the placeholder at the start of the key-value region and
  the region itself follow.  Each writer is paired with its reader as an interpretation of \<open>codec\<close>.
\<close>

type_synonym codedOutput = bytes

definition writeRawByte :: "byte \<Rightarrow> codedOutput \<Rightarrow> codedOutput" where
  "writeRawByte b o1 = o1 @ [b]"

definition writeRawData :: "bytes \<Rightarrow> codedOutput \<Rightarrow> codedOutput" where
  "writeRawData b o1 = o1 @ b"

lemma unat_drop_bit_div: "unat (drop_bit n v) = unat v div 2 ^ n"
  by (simp add: unat_drop_bit_eq flip: drop_bit_eq_div)

lemma unat_drop_bit7_less: "v \<noteq> 0 \<Longrightarrow> unat (drop_bit 7 v) < unat v"
  by (simp add: unat_drop_bit_div unat_gt_0)

function writeRawVarint32 :: "u32 \<Rightarrow> codedOutput \<Rightarrow> codedOutput" where
  "writeRawVarint32 v o1 =
     (if v \<ge> 0x80 then writeRawVarint32 (drop_bit 7 v) (o1 @ [ucast v OR 0x80])
      else o1 @ [ucast v])"
  by pat_completeness auto
termination
  by (relation "measure (\<lambda>(v, o1). unat v)") (auto intro!: unat_drop_bit7_less)

function writeRawVarint64 :: "u64 \<Rightarrow> codedOutput \<Rightarrow> codedOutput" where
  "writeRawVarint64 v o1 =
     (if v \<ge> 0x80 then writeRawVarint64 (drop_bit 7 v) (o1 @ [ucast v OR 0x80])
      else o1 @ [ucast v])"
  by pat_completeness auto
termination
  by (relation "measure (\<lambda>(v, o1). unat v)") (auto intro!: unat_drop_bit7_less)

declare writeRawVarint32.simps [simp del] writeRawVarint64.simps [simp del]

definition writeRawLittleEndian32 :: "u32 \<Rightarrow> codedOutput \<Rightarrow> codedOutput" where
  "writeRawLittleEndian32 v o1 = o1 @ putUint32 v"

definition writeRawLittleEndian64 :: "u64 \<Rightarrow> codedOutput \<Rightarrow> codedOutput" where
  "writeRawLittleEndian64 v o1 = o1 @ putUint64 v"

definition writeData :: "bytes \<Rightarrow> codedOutput \<Rightarrow> codedOutput" where
  "writeData b o1 = writeRawData b (writeRawVarint32 (of_nat (length b)) o1)"

definition writeBool :: "bool \<Rightarrow> codedOutput \<Rightarrow> codedOutput" where
  "writeBool v o1 = (if v then writeRawByte 1 o1 else writeRawByte 0 o1)"

definition writeInt32 :: "u32 \<Rightarrow> codedOutput \<Rightarrow> codedOutput" where
  "writeInt32 v o1 =
     (if 0 \<le> sint v then writeRawVarint32 v o1 else writeRawVarint64 (scast v) o1)"

definition writeUInt32 :: "u32 \<Rightarrow> codedOutput \<Rightarrow> codedOutput" where
  "writeUInt32 v o1 = writeRawVarint32 v o1"

definition writeInt64 :: "u64 \<Rightarrow> codedOutput \<Rightarrow> codedOutput" where
  "writeInt64 v o1 = writeRawVarint64 v o1"

definition writeUInt64 :: "u64 \<Rightarrow> codedOutput \<Rightarrow> codedOutput" where
  "writeUInt64 v o1 = writeRawVarint64 v o1"

definition writeFloat32 :: "u32 \<Rightarrow> codedOutput \<Rightarrow> codedOutput" where
  "writeFloat32 v o1 = writeRawLittleEndian32 v o1"

definition writeFloat64 :: "u64 \<Rightarrow> codedOutput \<Rightarrow> codedOutput" where
  "writeFloat64 v o1 = writeRawLittleEndian64 v o1"

section \<open>Value blobs\<close>

definition boolBlob :: "bool \<Rightarrow> bytes" where
  "boolBlob v = writeBool v []"

definition int32Blob :: "u32 \<Rightarrow> bytes" where
  "int32Blob v = writeInt32 v []"

definition int64Blob :: "u64 \<Rightarrow> bytes" where
  "int64Blob v = writeInt64 v []"

definition uint32Blob :: "u32 \<Rightarrow> bytes" where
  "uint32Blob v = writeUInt32 v []"

definition uint64Blob :: "u64 \<Rightarrow> bytes" where
  "uint64Blob v = writeUInt64 v []"

definition float32Blob :: "u32 \<Rightarrow> bytes" where
  "float32Blob v = writeFloat32 v []"

definition float64Blob :: "u64 \<Rightarrow> bytes" where
  "float64Blob v = writeFloat64 v []"

definition bytesBlob :: "bytes \<Rightarrow> bytes" where
  "bytesBlob b = writeData b []"

definition stringBlob :: "bytes \<Rightarrow> bytes" where
  "stringBlob s = bytesBlob s"

definition itemSizeHolder :: u32 where
  "itemSizeHolder = 0x200000"

definition itemSizeHolderBytes :: bytes where
  "itemSizeHolderBytes = writeUInt32 itemSizeHolder []"

fun stringSlice_items :: "bytes list \<Rightarrow> codedOutput \<Rightarrow> codedOutput" where
  "stringSlice_items [] items = items"
| "stringSlice_items (s # v) items = stringSlice_items v (writeData s items)"

definition stringSliceBlob :: "bytes list \<Rightarrow> bytes" where
  "stringSliceBlob v = bytesBlob (stringSlice_items v [])"

function decodeStringSlice_loop :: "codedInput \<Rightarrow> bytes list \<Rightarrow> bytes list" where
  "decodeStringSlice_loop ci out =
     (if atEnd ci then out
      else (case readView ci of
              (Inl e, _) \<Rightarrow> out
            | (Inr s, ci1) \<Rightarrow> decodeStringSlice_loop ci1 (out @ [view_bytes (ci_buf ci) s])))"
  by pat_completeness auto
termination
  by (relation "measure (\<lambda>(ci, out). remaining ci)") (auto dest: readView_remaining [OF sym])

declare decodeStringSlice_loop.simps [simp del]

definition decodeStringSlice :: "bytes \<Rightarrow> bytes list" where
  "decodeStringSlice items = decodeStringSlice_loop (newCodedInput items) []"

fun encodeRegion_loop :: "bytes list \<Rightarrow> (bytes \<Rightarrow> bytes) \<Rightarrow> codedOutput \<Rightarrow> codedOutput" where
  "encodeRegion_loop [] blob o1 = o1"
| "encodeRegion_loop (k # order) blob o1 =
     encodeRegion_loop order blob (writeData (blob k) (writeData k o1))"

text \<open>
  \<open>blob k\<close> is the map read \<^verbatim>\<open>blob[k]\<close>, which is the nil slice for an absent key.
\<close>

definition encodeRegion :: "bytes list \<Rightarrow> (bytes \<Rightarrow> bytes) \<Rightarrow> bytes" where
  "encodeRegion order blob = encodeRegion_loop order blob (writeUInt32 itemSizeHolder [])"

section \<open>Varints\<close>

text \<open>
  The bytes both varint writers produce, as a function of the number alone: seven bits per byte,
  least significant group first, the top bit set on every byte but the last.
\<close>

fun varint :: "nat \<Rightarrow> bytes" where
  "varint n = (if n \<ge> 128 then (of_nat (n mod 128) OR 0x80) # varint (n div 128) else [of_nat n])"

declare varint.simps [simp del]

lemma ucast_low7: "(ucast v :: byte) OR 0x80 = of_nat (unat v mod 128) OR 0x80"
proof (rule bit_word_eqI)
  fix n assume "n < LENGTH(8)"
  then have n: "n < 8" by simp
  have "bit (0x80 :: byte) 7" by simp
  moreover have "unat v mod 128 = take_bit 7 (unat v)" by (simp add: take_bit_eq_mod)
  ultimately show "bit ((ucast v :: byte) OR 0x80) n = bit ((of_nat (unat v mod 128) :: byte) OR 0x80) n"
    using n by (cases "n = 7") (auto simp: bit_simps)
qed

lemma writeRawVarint32_eq: "writeRawVarint32 v o1 = o1 @ varint (unat v)"
proof (induction v o1 rule: writeRawVarint32.induct)
  case (1 v o1)
  have "0x80 \<le> v \<longleftrightarrow> 128 \<le> unat v" by (simp add: word_le_nat_alt)
  then show ?case
    using "1" by (subst writeRawVarint32.simps, subst varint.simps)
      (auto simp: ucast_low7 unat_drop_bit_div)
qed

lemma writeRawVarint64_eq: "writeRawVarint64 v o1 = o1 @ varint (unat v)"
proof (induction v o1 rule: writeRawVarint64.induct)
  case (1 v o1)
  have "0x80 \<le> v \<longleftrightarrow> 128 \<le> unat v" by (simp add: word_le_nat_alt)
  then show ?case
    using "1" by (subst writeRawVarint64.simps, subst varint.simps)
      (auto simp: ucast_low7 unat_drop_bit_div)
qed

lemma varint_nonempty [simp]: "varint n \<noteq> []"
  by (subst varint.simps) simp

lemma length_varint_pos [simp]: "0 < length (varint n)"
  by simp

lemma length_varint: "n < 2 ^ (7 * k) \<Longrightarrow> 0 < k \<Longrightarrow> length (varint n) \<le> k"
proof (induction k arbitrary: n)
  case (Suc k)
  show ?case
  proof (cases "n \<ge> 128")
    case True
    have "n div 128 < 2 ^ (7 * k)"
      using Suc.prems by (simp add: less_mult_imp_div_less power_add mult.commute)
    moreover from this True have "0 < k"
      by (cases k) (auto simp: div_eq_0_iff)
    ultimately show ?thesis using Suc.IH True by (subst varint.simps) simp
  qed (subst varint.simps, simp)
qed simp

lemma or_groups:
  "(x OR push_bit s (of_nat (n mod 128))) OR push_bit (s + 7) (of_nat (n div 128)) =
   x OR push_bit s (of_nat n :: u64)"
proof -
  have m: "n mod 128 = take_bit 7 n" "n div 128 = drop_bit 7 n"
    by (simp_all add: take_bit_eq_mod drop_bit_eq_div)
  show ?thesis unfolding m
  proof (rule bit_word_eqI)
    fix i
    have "7 + (i - (s + 7)) = i - s" if "s + 7 \<le> i" using that by simp
    then show "bit ((x OR push_bit s (of_nat (take_bit 7 n))) OR push_bit (s + 7) (of_nat (drop_bit 7 n))) i =
        bit (x OR push_bit s (of_nat n :: u64)) i"
      by (cases "s + 7 \<le> i") (auto simp: bit_simps)
  qed
qed

lemma group_byte:
  "\<not> (of_nat (n mod 128) OR 0x80 :: byte) < 0x80"
  "(of_nat (n mod 128) OR 0x80 :: byte) AND 0x7f = of_nat (n mod 128)"
  "(ucast (of_nat (n mod 128) :: byte) :: u64) = of_nat (n mod 128)"
proof -
  have m: "n mod 128 = take_bit 7 n" by (simp add: take_bit_eq_mod)
  have b7: "bit (0x7f :: byte) i \<longleftrightarrow> i < 7" for i
    using bit_mask_iff [of 7 i, where 'a = byte] by (auto simp: mask_eq_exp_minus_1)
  have b8: "bit (0x80 :: byte) i \<longleftrightarrow> i = 7" for i
    using bit_exp_iff [of 7 i, where 'a = byte] by auto
  show "\<not> (of_nat (n mod 128) OR 0x80 :: byte) < 0x80"
    using le_word_or1 [of "0x80 :: byte" "of_nat (n mod 128)"] by (simp add: not_less)
  show "(of_nat (n mod 128) OR 0x80 :: byte) AND 0x7f = of_nat (n mod 128)"
    unfolding m
    by (rule bit_word_eqI) (simp only: bit_and_iff bit_or_iff b7 b8, auto simp: bit_simps)
  show "(ucast (of_nat (n mod 128) :: byte) :: u64) = of_nat (n mod 128)"
    unfolding m by (rule bit_word_eqI) (auto simp: bit_simps)
qed

text \<open>The reader's loop on the bytes of a varint.\<close>

lemma readVarint64_loop_varint:
  assumes "length (varint n) \<le> i" "ci_pos c \<le> length (ci_buf c)"
    and "drop (ci_pos c) (ci_buf c) = varint n @ post"
  shows "readVarint64_loop i x s c =
    (Inr (x OR push_bit s (of_nat n)), c\<lparr>ci_pos := ci_pos c + length (varint n)\<rparr>)"
  using assms
proof (induction n arbitrary: i x s c rule: varint.induct)
  case (1 n)
  obtain j where i: "i = Suc j"
    using "1.prems"(1) length_varint_pos [of n] by (cases i) auto
  let ?b = "hd (varint n)"
  have ne: "drop (ci_pos c) (ci_buf c) \<noteq> []"
    using "1.prems"(3) by simp
  then have lt: "ci_pos c < length (ci_buf c)"
    by simp
  have b: "ci_buf c ! ci_pos c = ?b"
    using "1.prems"(3) hd_drop_conv_nth [OF lt] by simp
  show ?case
  proof (cases "n \<ge> 128")
    case True
    then have v: "varint n = (of_nat (n mod 128) OR 0x80) # varint (n div 128)"
      by (subst varint.simps) simp
    let ?c = "c\<lparr>ci_pos := ci_pos c + 1\<rparr>"
    have d: "drop (ci_pos ?c) (ci_buf ?c) = varint (n div 128) @ post"
      using "1.prems"(3) Cons_nth_drop_Suc [OF lt] by (simp add: v)
    show ?thesis
      using "1.IH" [OF True, of j ?c "x OR push_bit s (of_nat (n mod 128))" "s + 7"] "1.prems"(1) lt d
      by (simp add: i b v group_byte or_groups not_le)
  next
    case False
    then have v: "varint n = [of_nat n]"
      by (subst varint.simps) simp
    have lo: "(of_nat n :: byte) < 0x80"
      using False by (simp add: word_less_nat_alt unat_of_nat)
    have uc: "(ucast (of_nat n :: byte) :: u64) = of_nat n"
      using group_byte(3) [of n] False by simp
    show ?thesis using lt by (simp add: i b v lo uc not_le)
  qed
qed


lemma readVarint64_varint:
  assumes "n < 2 ^ 64" "ci_pos c \<le> length (ci_buf c)"
    and "drop (ci_pos c) (ci_buf c) = varint n @ post"
  shows "readVarint64 c = (Inr (of_nat n), c\<lparr>ci_pos := ci_pos c + length (varint n)\<rparr>)"
proof -
  have "length (varint n) \<le> 10"
    using assms(1) by (intro length_varint) auto
  then show ?thesis
    using readVarint64_loop_varint [OF _ assms(2,3), of 10 0 0] by (simp add: readVarint64_def)
qed

lemma length_varint_lower: "2 ^ (7 * k) \<le> n \<Longrightarrow> k < length (varint n)"
proof (induction k arbitrary: n)
  case (Suc k)
  have n: "2 ^ (7 * k) * 128 \<le> n" using Suc.prems by (simp add: power_add)
  then have "2 ^ (7 * k) \<le> n div 128" by (simp add: less_eq_div_iff_mult_less_eq)
  moreover have "1 * 128 \<le> 2 ^ (7 * k) * (128 :: nat)" by (rule mult_right_mono) auto
  ultimately have "128 \<le> n" "k < length (varint (n div 128))"
    using n Suc.IH [of "n div 128"] by linarith+
  then show ?case by (subst varint.simps) simp
qed simp

section \<open>The writers and readers are inverse\<close>

interpretation vi64: codec "\<lambda>v. writeRawVarint64 v []" readVarint64 "\<lambda>_. True"
proof
  fix x :: u64 and pre post
  show "readVarint64 \<lparr>ci_buf = pre @ writeRawVarint64 x [] @ post, ci_pos = length pre\<rparr> =
     (Inr x, \<lparr>ci_buf = pre @ writeRawVarint64 x [] @ post,
        ci_pos = length pre + length (writeRawVarint64 x [])\<rparr>)"
    using unsigned_less [of x, where ?'a = nat]
    by (subst readVarint64_varint [where n = "unat x" and post = post])
      (auto simp: writeRawVarint64_eq)
qed

lemma ucast_ucast_up: "(ucast (ucast (x :: u32) :: u64) :: u32) = x"
  by (rule bit_word_eqI) (auto simp: bit_simps)

interpretation vi32: codec "\<lambda>v. writeRawVarint32 v []" readUInt32 "\<lambda>_. True"
proof
  fix x :: u32 and pre post
  show "readUInt32 \<lparr>ci_buf = pre @ writeRawVarint32 x [] @ post, ci_pos = length pre\<rparr> =
     (Inr x, \<lparr>ci_buf = pre @ writeRawVarint32 x [] @ post,
        ci_pos = length pre + length (writeRawVarint32 x [])\<rparr>)"
    using unsigned_less [of x, where ?'a = nat] unfolding readUInt32_def
    by (subst readVarint64_varint [where n = "unat x" and post = post])
      (auto simp: writeRawVarint32_eq ucast_ucast_up)
qed


interpretation i32: codec int32Blob readInt32 "\<lambda>_. True"
proof
  fix x :: u32 and pre post
  have down: "ucast (scast x :: u64) = x"
    by (rule bit_word_eqI) (auto simp: bit_simps)
  have pos: "readInt32 c = readUInt32 c" for c
    by (simp add: readInt32_def readUInt32_def)
  show "readInt32 \<lparr>ci_buf = pre @ int32Blob x @ post, ci_pos = length pre\<rparr> =
     (Inr x, \<lparr>ci_buf = pre @ int32Blob x @ post, ci_pos = length pre + length (int32Blob x)\<rparr>)"
  proof (cases "0 \<le> sint x")
    case True
    then show ?thesis
      by (simp add: int32Blob_def writeInt32_def pos vi32.dec_enc)
  next
    case False
    then show ?thesis
      by (simp add: int32Blob_def writeInt32_def readInt32_def vi64.dec_enc down)
  qed
qed

interpretation boolc: codec boolBlob readBool "\<lambda>_. True"
proof
  fix x :: bool and pre post
  have "boolBlob x = writeRawVarint64 (of_bool x) []"
    by (simp add: boolBlob_def writeBool_def writeRawByte_def writeRawVarint64.simps word_le_nat_alt)
  then show "readBool \<lparr>ci_buf = pre @ boolBlob x @ post, ci_pos = length pre\<rparr> =
     (Inr x, \<lparr>ci_buf = pre @ boolBlob x @ post, ci_pos = length pre + length (boolBlob x)\<rparr>)"
    by (simp add: readBool_def vi64.dec_enc)
qed

interpretation f32: codec float32Blob readFixed32 "\<lambda>_. True"
  by standard (simp add: float32Blob_def writeFloat32_def writeRawLittleEndian32_def readFixed32_def)

interpretation f64: codec float64Blob readFixed64 "\<lambda>_. True"
  by standard (simp add: float64Blob_def writeFloat64_def writeRawLittleEndian64_def readFixed64_def)

text \<open>A length-delimited field, for payloads the 32-bit length prefix can express.\<close>

lemma writeData_eq: "length b < 2 ^ 32 \<Longrightarrow> writeData b o1 = o1 @ varint (length b) @ b"
  by (simp add: writeData_def writeRawData_def writeRawVarint32_eq unat_of_nat_small)

lemma writeData_append: "writeData b o1 = o1 @ writeData b []"
  by (simp add: writeData_def writeRawData_def writeRawVarint32_eq)

lemma writeData_nonempty [simp]: "writeData b o1 \<noteq> []"
  by (simp add: writeData_def writeRawData_def writeRawVarint32_eq)

lemma view_bytes_field:
  assumes "length b < 2 ^ 32" "drop p buf = writeData b [] @ post"
  shows "view_bytes buf (p + length (varint (length b)), length b) = b"
proof -
  have "drop p buf = varint (length b) @ b @ post"
    using assms by (simp add: writeData_eq)
  then show ?thesis by (simp add: view_bytes_def drop_shift)
qed

lemma readView_writeData:
  assumes "length b < 2 ^ 32" "p \<le> length buf" "drop p buf = writeData b [] @ post"
  shows "readView \<lparr>ci_buf = buf, ci_pos = p\<rparr> =
     (Inr (p + length (varint (length b)), length b),
      \<lparr>ci_buf = buf, ci_pos = p + length (writeData b [])\<rparr>)"
proof -
  have d: "drop p buf = varint (length b) @ b @ post"
    using assms by (simp add: writeData_eq)
  have l: "length buf = p + length (drop p buf)"
    using assms(2) by simp
  have r: "readVarint64 \<lparr>ci_buf = buf, ci_pos = p\<rparr> =
      (Inr (of_nat (length b)), \<lparr>ci_buf = buf, ci_pos = p + length (varint (length b))\<rparr>)"
    using assms(1,2) d by (subst readVarint64_varint [where n = "length b" and post = "b @ post"]) auto
  have u: "unat (of_nat (length b) :: u64) = length b"
    using assms(1) by (simp add: unat_of_nat_small)
  show ?thesis
    using assms(1) l d by (simp add: readView_def r u writeData_eq)
qed

interpretation dat: codec bytesBlob readBytes "\<lambda>b. length b < 2 ^ 32"
proof
  fix x :: bytes and pre post
  assume x: "length x < 2 ^ 32"
  show "readBytes \<lparr>ci_buf = pre @ bytesBlob x @ post, ci_pos = length pre\<rparr> =
     (Inr x, \<lparr>ci_buf = pre @ bytesBlob x @ post, ci_pos = length pre + length (bytesBlob x)\<rparr>)"
    using readView_writeData [OF x, of "length pre" "pre @ bytesBlob x @ post" post] x
    by (simp add: readBytes_def bytesBlob_def view_bytes_def writeData_eq)
qed


section \<open>String slices\<close>

lemma stringSlice_items_eq:
  "stringSlice_items v items = items @ concat (map (\<lambda>s. writeData s []) v)"
proof (induction v arbitrary: items)
  case (Cons s v)
  then show ?case using writeData_append [of s items] by simp
qed simp

lemma decodeStringSlice_loop_items:
  assumes "\<forall>s\<in>set v. length s < 2 ^ 32" "p \<le> length buf"
    and "drop p buf = concat (map (\<lambda>s. writeData s []) v)"
  shows "decodeStringSlice_loop \<lparr>ci_buf = buf, ci_pos = p\<rparr> out = out @ v"
  using assms
proof (induction v arbitrary: p out)
  case Nil
  then show ?case by (subst decodeStringSlice_loop.simps) (simp add: atEnd_def)
next
  case (Cons s v)
  have s: "length s < 2 ^ 32" using Cons.prems(1) by simp
  have d: "drop p buf = writeData s [] @ concat (map (\<lambda>s. writeData s []) v)"
    using Cons.prems(3) by simp
  have ne: "p < length buf"
    using d by (metis append_is_Nil_conv drop_all leI writeData_nonempty)
  have d': "drop (p + length (writeData s [])) buf = concat (map (\<lambda>s. writeData s []) v)"
    using d by (rule drop_shift)
  have l: "p + length (writeData s []) \<le> length buf"
    using arg_cong [OF d, of length] Cons.prems(2) by simp
  have vb: "view_bytes buf (p + length (varint (length s)), length s) = s"
    using view_bytes_field [OF s d] .
  show ?case
    using ne Cons.IH [OF _ l d'] Cons.prems(1)
    by (subst decodeStringSlice_loop.simps)
      (simp add: atEnd_def readView_writeData [OF s Cons.prems(2) d] vb)
qed


lemma stringSlice_decode:
  assumes "length (stringSlice_items v []) < 2 ^ 32"
  shows "\<exists>items. fst (readBytes (newCodedInput (stringSliceBlob v))) = Inr items \<and>
    decodeStringSlice items = v"
proof -
  have le: "length s \<le> length (writeData s [])" for s
    by (simp add: writeData_def writeRawData_def writeRawVarint32_eq)
  have "\<forall>s\<in>set v. length s \<le> length (stringSlice_items v [])"
  proof
    fix s assume "s \<in> set v"
    then have "length (writeData s []) \<le> sum_list (map length (map (\<lambda>s. writeData s []) v))"
      by (intro member_le_sum_list) auto
    then show "length s \<le> length (stringSlice_items v [])"
      using le [of s] by (simp add: stringSlice_items_eq length_concat comp_def)
  qed
  then have small: "\<forall>s\<in>set v. length s < 2 ^ 32"
    using assms by (meson le_less_trans)
  have "decodeStringSlice (stringSlice_items v []) = v"
    using decodeStringSlice_loop_items [OF small, of 0 "stringSlice_items v []" "[]"]
    by (simp add: decodeStringSlice_def newCodedInput_def stringSlice_items_eq)
  then show ?thesis
    using dat.dec_whole [OF assms] by (simp add: stringSliceBlob_def)
qed

section \<open>Properties\<close>

text \<open>
  Every scalar written by the typed setters is read back by the matching getter.
\<close>

theorem scalar_blobs_roundtrip:
  "fst (readBool (newCodedInput (boolBlob b))) = Inr b \<and>
   fst (readInt32 (newCodedInput (int32Blob i))) = Inr i \<and>
   fst (readVarint64 (newCodedInput (int64Blob l))) = Inr l \<and>
   fst (readUInt32 (newCodedInput (uint32Blob u))) = Inr u \<and>
   fst (readVarint64 (newCodedInput (uint64Blob w))) = Inr w \<and>
   fst (readFixed32 (newCodedInput (float32Blob f))) = Inr f \<and>
   fst (readFixed64 (newCodedInput (float64Blob d))) = Inr d"
  using vi64.dec_whole [of l] vi64.dec_whole [of w] vi32.dec_whole [of u]
  by (simp add: boolc.dec_whole i32.dec_whole f32.dec_whole f64.dec_whole
      int64Blob_def uint64Blob_def uint32Blob_def writeInt64_def writeUInt64_def writeUInt32_def)

text \<open>
  C28: every value written by a typed setter is read back by the matching getter.  The reader of each
  scalar type inverts its writer on all bit patterns, negative numbers and the extreme values included;
  byte strings, strings and lists of strings survive as long as their encoding fits the 32-bit length
  prefix.
\<close>

theorem value_blobs_roundtrip:
  assumes "length s < 2 ^ 32" "length (stringSlice_items v []) < 2 ^ 32"
  shows "fst (readBool (newCodedInput (boolBlob b))) = Inr b \<and>
   fst (readInt32 (newCodedInput (int32Blob i))) = Inr i \<and>
   fst (readVarint64 (newCodedInput (int64Blob l))) = Inr l \<and>
   fst (readUInt32 (newCodedInput (uint32Blob u))) = Inr u \<and>
   fst (readVarint64 (newCodedInput (uint64Blob w))) = Inr w \<and>
   fst (readFixed32 (newCodedInput (float32Blob f))) = Inr f \<and>
   fst (readFixed64 (newCodedInput (float64Blob d))) = Inr d \<and>
   fst (readBytes (newCodedInput (bytesBlob s))) = Inr s \<and>
   fst (readBytes (newCodedInput (stringBlob s))) = Inr s \<and>
   (\<exists>items. fst (readBytes (newCodedInput (stringSliceBlob v))) = Inr items \<and> decodeStringSlice items = v)"
  using scalar_blobs_roundtrip [of b i l u w f d] dat.dec_whole [OF assms(1)] stringSlice_decode [OF assms(2)]
  by (simp add: stringBlob_def)

theorem value_blobs_roundtrip_witness:
  "length (stringSlice_items [[1, 2], [], [3]] []) < 2 ^ 32 \<and>
   (\<exists>items. fst (readBytes (newCodedInput (stringSliceBlob [[1, 2], [], [3]]))) = Inr items \<and>
      decodeStringSlice items = [[1, 2], [], [3]]) \<and>
   fst (readInt32 (newCodedInput (int32Blob 4294967291))) = Inr 4294967291"
proof -
  have "stringSlice_items [[1, 2], [], [3]] [] = [2, 1, 2, 0, 1, 3]" by code_simp
  then have h: "length ([1, 2] :: bytes) < 2 ^ 32" "length (stringSlice_items [[1, 2], [], [3]] []) < 2 ^ 32" by simp_all
  show ?thesis using h(2) value_blobs_roundtrip [OF h, of _ 4294967291] by blast
qed

text \<open>
  A list of strings survives \<^verbatim>\<open>stringSliceBlob\<close>, the field reader and \<^verbatim>\<open>decodeStringSlice\<close>, as long as
  its encoding fits the 32-bit length prefix.
\<close>

theorem stringSlice_roundtrip:
  assumes "length (stringSlice_items v []) < 2 ^ 32"
  shows "\<exists>items. fst (readBytes (newCodedInput (stringSliceBlob v))) = Inr items \<and>
    decodeStringSlice items = v"
  using assms by (rule stringSlice_decode)

text \<open>
  A negative \<^verbatim>\<open>int32\<close> takes exactly ten bytes (it is sign-extended to 64 bits first), and a
  non-negative one takes the at most five bytes of its unsigned varint.
\<close>

lemma int32Blob_width:
  "if sint v < 0 then length (int32Blob v) = 10
   else int32Blob v = uint32Blob v \<and> length (int32Blob v) \<le> 5"
proof (cases "sint v < 0")
  case True
  then have "bit v 31"
    using bit_last_iff [of v] by simp
  then have "bit (scast v :: u64) 63"
    by (simp add: bit_simps)
  then have big: "2 ^ (7 * 9) \<le> unat (scast v :: u64)"
    using bit_imp_unat_ge [of "scast v :: u64" 63] by simp
  have "unat (scast v :: u64) < 2 ^ (7 * 10)"
    using unsigned_less [of "scast v :: u64", where ?'a = nat] by simp
  then have "length (varint (unat (scast v :: u64))) \<le> 10" by (rule length_varint) simp
  moreover have "9 < length (varint (unat (scast v :: u64)))"
    using big by (rule length_varint_lower)
  ultimately show ?thesis
    using True by (simp add: int32Blob_def writeInt32_def writeRawVarint64_eq)
next
  case False
  have "unat v < 2 ^ (7 * 5)"
    using unsigned_less [of v, where ?'a = nat] by simp
  then have "length (varint (unat v)) \<le> 5" by (rule length_varint) simp
  then show ?thesis
    using False
    by (simp add: int32Blob_def uint32Blob_def writeInt32_def writeUInt32_def writeRawVarint32_eq)
qed

end
