(* ===== verification/Dict.thy ===== *)
theory Dict
  imports Encode
begin

text \<open>
  The key-value log: \<^verbatim>\<open>parseDict\<close> and \<^verbatim>\<open>parseDictGreedy\<close> of \<^verbatim>\<open>reader.go\<close>, which replay the region into
  a map from keys to views of their latest value.  The abstract log is a list of pairs, replayed by
  \<open>log_map\<close>; an empty value deletes its key.  The lemmas relate the parsers to it: the exact result
  on every well-formed log, in-range views on every input, and what is salvaged from a torn tail.
\<close>

function parseDict_loop :: "codedInput \<Rightarrow> view gomap \<Rightarrow> goerr + view gomap" where
  "parseDict_loop ci m =
     (if atEnd ci then Inr m
      else (case readView ci of
              (Inl e, _) \<Rightarrow> Inl e
            | (Inr key, ci1) \<Rightarrow>
                if snd key = 0 then parseDict_loop ci1 m
                else (case readView ci1 of
                        (Inl e, _) \<Rightarrow> Inl e
                      | (Inr val, ci2) \<Rightarrow>
                          parseDict_loop ci2
                            (if snd val > 0 then gm_put (view_bytes (ci_buf ci) key) val m
                             else gm_del (view_bytes (ci_buf ci) key) m))))"
  by pat_completeness auto
termination
  by (relation "measure (\<lambda>(ci, m). remaining ci)")
    (auto dest!: readView_remaining [OF sym])

definition parseDict :: "bytes \<Rightarrow> goerr + view gomap" where
  "parseDict plain =
     (let ci = newCodedInput plain
      in if atEnd ci then Inr []
         else (case readVarint64 ci of
                 (Inl e, _) \<Rightarrow> Inl e
               | (Inr _, ci1) \<Rightarrow> parseDict_loop ci1 []))"

function parseDictGreedy_loop :: "codedInput \<Rightarrow> view gomap \<Rightarrow> view gomap" where
  "parseDictGreedy_loop ci m =
     (if atEnd ci then m
      else (case readView ci of
              (Inl e, _) \<Rightarrow> m
            | (Inr key, ci1) \<Rightarrow>
                if snd key = 0 then parseDictGreedy_loop ci1 m
                else (case readView ci1 of
                        (Inl e, _) \<Rightarrow> m
                      | (Inr val, ci2) \<Rightarrow>
                          parseDictGreedy_loop ci2
                            (if snd val > 0 then gm_put (view_bytes (ci_buf ci) key) val m
                             else gm_del (view_bytes (ci_buf ci) key) m))))"
  by pat_completeness auto
termination
  by (relation "measure (\<lambda>(ci, m). remaining ci)")
    (auto dest!: readView_remaining [OF sym])

definition parseDictGreedy :: "bytes \<Rightarrow> view gomap" where
  "parseDictGreedy plain =
     (let ci = newCodedInput plain
      in if atEnd ci then []
         else (case readVarint64 ci of
                 (Inl e, _) \<Rightarrow> []
               | (Inr _, ci1) \<Rightarrow> parseDictGreedy_loop ci1 []))"

declare parseDict_loop.simps [simp del] parseDictGreedy_loop.simps [simp del]

section \<open>The abstract log\<close>

type_synonym kvlog = "(bytes \<times> bytes) list"

definition encode_pair :: "bytes \<times> bytes \<Rightarrow> bytes" where
  "encode_pair p = writeData (snd p) (writeData (fst p) [])"

definition encode_log :: "kvlog \<Rightarrow> bytes" where
  "encode_log ps = concat (map encode_pair ps)"

definition pair_ok :: "bytes \<times> bytes \<Rightarrow> bool" where
  "pair_ok p \<longleftrightarrow> fst p \<noteq> [] \<and> length (fst p) < 2 ^ 32 \<and> length (snd p) < 2 ^ 32"

definition log_ok :: "kvlog \<Rightarrow> bool" where
  "log_ok ps \<longleftrightarrow> list_all pair_ok ps"

definition entry_value :: "bytes \<Rightarrow> bytes option" where
  "entry_value v = (if v = [] then None else Some v)"

definition log_map :: "kvlog \<Rightarrow> (bytes \<rightharpoonup> bytes)" where
  "log_map ps = fold (\<lambda>(k, v) f. f(k := entry_value v)) ps Map.empty"

text \<open>The values a map of views denotes in a buffer.\<close>

definition view_map :: "bytes \<Rightarrow> view gomap \<Rightarrow> (bytes \<rightharpoonup> bytes)" where
  "view_map b m = (\<lambda>k. map_option (view_bytes b) (gm_get m k))"

definition views_ok :: "bytes \<Rightarrow> view gomap \<Rightarrow> bool" where
  "views_ok b m \<longleftrightarrow> gm_inv m \<and>
     (\<forall>k v. gm_get m k = Some v \<longrightarrow> k \<noteq> [] \<and> 0 < snd v \<and> fst v + snd v \<le> length b)"

lemma log_map_Nil [simp]: "log_map [] = Map.empty"
  by (simp add: log_map_def)

lemma log_map_snoc [simp]: "log_map (ps @ [(k, v)]) = (log_map ps)(k := entry_value v)"
  by (simp add: log_map_def)

lemma log_ok_append [simp]: "log_ok (ps @ qs) \<longleftrightarrow> log_ok ps \<and> log_ok qs"
  by (simp add: log_ok_def)

lemma log_ok_Nil [simp]: "log_ok []"
  by (simp add: log_ok_def)

lemma log_ok_single [simp]: "log_ok [p] = pair_ok p"
  by (simp add: log_ok_def)

lemma encode_log_append [simp]: "encode_log (ps @ qs) = encode_log ps @ encode_log qs"
  by (simp add: encode_log_def)

lemma encode_log_single [simp]: "encode_log [p] = encode_pair p"
  by (simp add: encode_log_def)

lemma encode_log_Nil [simp]: "encode_log [] = []"
  by (simp add: encode_log_def)

lemma encode_pair_eq: "encode_pair (k, v) = writeData k [] @ writeData v []"
  by (simp add: encode_pair_def writeData_append [of v "writeData k []"])

lemma encodeRegion_eq:
  "encodeRegion order blob = itemSizeHolderBytes @ encode_log (map (\<lambda>k. (k, blob k)) order)"
proof -
  have "encodeRegion_loop order blob o1 = o1 @ encode_log (map (\<lambda>k. (k, blob k)) order)" for o1
  proof (induction order arbitrary: o1)
    case (Cons k order)
    have "writeData (blob k) (writeData k o1) = o1 @ encode_pair (k, blob k)"
      using writeData_append [of "blob k" "writeData k o1"] writeData_append [of k o1]
      by (simp add: encode_pair_eq)
    then show ?case by (simp add: Cons encode_log_def)
  qed simp
  then show ?thesis by (simp add: encodeRegion_def itemSizeHolderBytes_def)
qed


section \<open>The parsers on a well-formed log\<close>

text \<open>The views the parsers record for the pairs of a log placed at offset \<open>p\<close>.\<close>

fun log_views :: "nat \<Rightarrow> kvlog \<Rightarrow> view gomap \<Rightarrow> view gomap" where
  "log_views p [] m = m"
| "log_views p ((k, v) # ps) m =
     log_views (p + length (encode_pair (k, v))) ps
       (if v \<noteq> []
        then gm_put k (p + length (writeData k []) + length (varint (length v)), length v) m
        else gm_del k m)"

lemma view_map_put: "view_map b (gm_put k w m) = (view_map b m)(k \<mapsto> view_bytes b w)"
  by (auto simp: view_map_def gm.get_put fun_eq_iff)

lemma view_map_del: "view_map b (gm_del k m) = (view_map b m)(k := None)"
  by (auto simp: view_map_def gm.get_del fun_eq_iff)

lemma view_map_Nil [simp]: "view_map b [] = Map.empty"
  by (simp add: view_map_def fun_eq_iff)

lemma views_ok_Nil [simp]: "views_ok b []"
  by (simp add: views_ok_def gm.inv_empty)

lemma views_ok_put:
  "views_ok b m \<Longrightarrow> k \<noteq> [] \<Longrightarrow> 0 < snd w \<Longrightarrow> fst w + snd w \<le> length b \<Longrightarrow>
   views_ok b (gm_put k w m)"
  by (auto simp: views_ok_def gm.get_put gm.inv_put split: if_splits)

lemma views_ok_del: "views_ok b m \<Longrightarrow> views_ok b (gm_del k m)"
  by (auto simp: views_ok_def gm.get_del gm.inv_del split: if_splits)

lemma not_atEnd_field:
  "drop p buf = writeData b [] @ post \<Longrightarrow> \<not> atEnd \<lparr>ci_buf = buf, ci_pos = p\<rparr>"
  by (auto simp: atEnd_def)

lemma pair_reads:
  assumes ok: "pair_ok (k, v)" and p: "p \<le> length buf"
    and d: "drop p buf = encode_pair (k, v) @ post"
  shows pair_not_atEnd: "\<not> atEnd \<lparr>ci_buf = buf, ci_pos = p\<rparr>"
    and pair_read_key: "readView \<lparr>ci_buf = buf, ci_pos = p\<rparr> =
       (Inr (p + length (varint (length k)), length k),
        \<lparr>ci_buf = buf, ci_pos = p + length (writeData k [])\<rparr>)"
    and pair_read_value: "readView \<lparr>ci_buf = buf, ci_pos = p + length (writeData k [])\<rparr> =
       (Inr (p + length (writeData k []) + length (varint (length v)), length v),
        \<lparr>ci_buf = buf, ci_pos = p + length (encode_pair (k, v))\<rparr>)"
    and pair_key_bytes: "view_bytes buf (p + length (varint (length k)), length k) = k"
    and pair_value_bytes:
      "view_bytes buf (p + length (writeData k []) + length (varint (length v)), length v) = v"
    and pair_value_range:
      "p + length (writeData k []) + length (varint (length v)) + length v \<le> length buf"
    and pair_end: "p + length (encode_pair (k, v)) \<le> length buf"
proof -
  have at_key: "drop p buf = writeData k [] @ writeData v [] @ post"
    using d by (simp add: encode_pair_eq)
  have at_value: "drop (p + length (writeData k [])) buf = writeData v [] @ post"
    using at_key by (rule drop_shift)
  have len: "length buf = p + (length (writeData k []) + (length (writeData v []) + length post))"
    using arg_cong [OF at_key, of length] p by simp
  show "\<not> atEnd \<lparr>ci_buf = buf, ci_pos = p\<rparr>"
    using at_key by (rule not_atEnd_field)
  show "readView \<lparr>ci_buf = buf, ci_pos = p\<rparr> =
       (Inr (p + length (varint (length k)), length k),
        \<lparr>ci_buf = buf, ci_pos = p + length (writeData k [])\<rparr>)"
    using ok p at_key by (intro readView_writeData) (auto simp: pair_ok_def)
  show "readView \<lparr>ci_buf = buf, ci_pos = p + length (writeData k [])\<rparr> =
       (Inr (p + length (writeData k []) + length (varint (length v)), length v),
        \<lparr>ci_buf = buf, ci_pos = p + length (encode_pair (k, v))\<rparr>)"
    using ok len at_value by (subst readView_writeData) (auto simp: pair_ok_def encode_pair_eq)
  show "view_bytes buf (p + length (varint (length k)), length k) = k"
    using ok at_key by (intro view_bytes_field) (auto simp: pair_ok_def)
  show "view_bytes buf (p + length (writeData k []) + length (varint (length v)), length v) = v"
    using ok at_value by (intro view_bytes_field) (auto simp: pair_ok_def)
  show "p + length (writeData k []) + length (varint (length v)) + length v \<le> length buf"
    using len ok by (simp add: pair_ok_def writeData_eq)
  show "p + length (encode_pair (k, v)) \<le> length buf"
    using len by (simp add: encode_pair_eq)
qed

lemma parse_pair:
  assumes "pair_ok (k, v)" "p \<le> length buf" "drop p buf = encode_pair (k, v) @ post"
  shows "parseDict_loop \<lparr>ci_buf = buf, ci_pos = p\<rparr> m =
      parseDict_loop \<lparr>ci_buf = buf, ci_pos = p + length (encode_pair (k, v))\<rparr> (log_views p [(k, v)] m)"
    and "parseDictGreedy_loop \<lparr>ci_buf = buf, ci_pos = p\<rparr> m =
      parseDictGreedy_loop \<lparr>ci_buf = buf, ci_pos = p + length (encode_pair (k, v))\<rparr>
        (log_views p [(k, v)] m)"
proof -
  have "k \<noteq> []" using assms(1) by (simp add: pair_ok_def)
  note r = pair_reads [OF assms] this
  show "parseDict_loop \<lparr>ci_buf = buf, ci_pos = p\<rparr> m =
      parseDict_loop \<lparr>ci_buf = buf, ci_pos = p + length (encode_pair (k, v))\<rparr> (log_views p [(k, v)] m)"
    by (subst parseDict_loop.simps) (simp add: r)
  show "parseDictGreedy_loop \<lparr>ci_buf = buf, ci_pos = p\<rparr> m =
      parseDictGreedy_loop \<lparr>ci_buf = buf, ci_pos = p + length (encode_pair (k, v))\<rparr>
        (log_views p [(k, v)] m)"
    by (subst parseDictGreedy_loop.simps) (simp add: r)
qed

lemma parse_log:
  assumes "log_ok ps" "p \<le> length buf" "drop p buf = encode_log ps @ post"
  shows "parseDict_loop \<lparr>ci_buf = buf, ci_pos = p\<rparr> m =
      parseDict_loop \<lparr>ci_buf = buf, ci_pos = p + length (encode_log ps)\<rparr> (log_views p ps m) \<and>
    parseDictGreedy_loop \<lparr>ci_buf = buf, ci_pos = p\<rparr> m =
      parseDictGreedy_loop \<lparr>ci_buf = buf, ci_pos = p + length (encode_log ps)\<rparr> (log_views p ps m)"
  using assms
proof (induction ps arbitrary: p m)
  case (Cons kv ps)
  obtain k v where kv: "kv = (k, v)" by (cases kv)
  have d: "drop p buf = encode_pair (k, v) @ encode_log ps @ post"
    using Cons.prems(3) by (simp add: kv encode_log_def)
  have ok: "pair_ok (k, v)" "log_ok ps"
    using Cons.prems(1) by (simp_all add: kv log_ok_def)
  note step = parse_pair [OF ok(1) Cons.prems(2) d, of m]
  note rest = Cons.IH [OF ok(2) pair_end [OF ok(1) Cons.prems(2) d] drop_shift [OF d],
      of "log_views p [(k, v)] m"]
  show ?case using step rest by (simp add: kv encode_log_def add.assoc)
qed simp

text \<open>What the recorded views denote.\<close>

lemma log_views_sound:
  assumes "log_ok ps" "p \<le> length buf" "drop p buf = encode_log ps @ post" "views_ok buf m"
  shows "view_map buf (log_views p ps m) =
      fold (\<lambda>(k, v) f. f(k := entry_value v)) ps (view_map buf m) \<and>
    views_ok buf (log_views p ps m)"
  using assms
proof (induction ps arbitrary: p m)
  case (Cons kv ps)
  obtain k v where kv: "kv = (k, v)" by (cases kv)
  have d: "drop p buf = encode_pair (k, v) @ encode_log ps @ post"
    using Cons.prems(3) by (simp add: kv encode_log_def)
  have ok: "pair_ok (k, v)" "log_ok ps"
    using Cons.prems(1) by (simp_all add: kv log_ok_def)
  note r = pair_reads [OF ok(1) Cons.prems(2) d]
  let ?m = "log_views p [(k, v)] m"
  have "views_ok buf ?m"
    using Cons.prems(4) ok(1) r(6) by (auto simp: pair_ok_def intro!: views_ok_put views_ok_del)
  moreover have "view_map buf ?m = (view_map buf m)(k := entry_value v)"
    using r(5) by (simp add: view_map_put view_map_del entry_value_def)
  ultimately show ?case
    using Cons.IH [OF ok(2) r(7) drop_shift [OF d], of ?m] by (simp add: kv)
qed simp


section \<open>The region\<close>

lemma itemSizeHolderBytes_eq: "itemSizeHolderBytes = [0x80, 0x80, 0x80, 0x01]"
  by code_simp

lemma length_itemSizeHolderBytes [simp]: "length itemSizeHolderBytes = 4"
  by (simp add: itemSizeHolderBytes_eq)

lemma itemSizeHolderBytes_nonempty [simp]: "itemSizeHolderBytes \<noteq> []"
  by (simp add: itemSizeHolderBytes_eq)

lemma read_holder:
  "readVarint64 (newCodedInput (itemSizeHolderBytes @ rest)) =
   (Inr 0x200000, \<lparr>ci_buf = itemSizeHolderBytes @ rest, ci_pos = 4\<rparr>)"
proof -
  have h: "itemSizeHolderBytes = writeRawVarint64 0x200000 []"
    by (simp add: itemSizeHolderBytes_def writeUInt32_def itemSizeHolder_def
        writeRawVarint32_eq writeRawVarint64_eq)
  then have l: "length (writeRawVarint64 0x200000 []) = 4"
    using length_itemSizeHolderBytes by simp
  show ?thesis
    using vi64.dec_enc [where x = "0x200000" and pre = "[]" and post = rest]
    by (simp add: newCodedInput_def h l)
qed

definition log_region :: "kvlog \<Rightarrow> bytes" where
  "log_region ps = itemSizeHolderBytes @ encode_log ps"

lemma log_region_snoc: "log_region (ps @ [p]) = log_region ps @ encode_pair p"
  by (simp add: log_region_def)

lemma log_region_nonempty [simp]: "log_region ps \<noteq> []"
  by (simp add: log_region_def itemSizeHolderBytes_eq)

lemma parseDict_log_region:
  assumes "log_ok ps"
  shows "parseDict (log_region ps) = Inr (log_views 4 ps [])"
    and "parseDictGreedy (log_region ps @ torn) =
      parseDictGreedy_loop \<lparr>ci_buf = log_region ps @ torn, ci_pos = length (log_region ps)\<rparr>
        (log_views 4 ps [])"
proof -
  let ?r = "log_region ps"
  have "parseDict_loop \<lparr>ci_buf = ?r, ci_pos = 4\<rparr> [] =
      parseDict_loop \<lparr>ci_buf = ?r, ci_pos = length ?r\<rparr> (log_views 4 ps [])"
    using parse_log [OF assms, of 4 ?r "[]" "[]"] by (simp add: log_region_def)
  also have "\<dots> = Inr (log_views 4 ps [])"
    by (subst parseDict_loop.simps) (simp add: atEnd_def)
  finally show "parseDict ?r = Inr (log_views 4 ps [])"
    using read_holder [of "encode_log ps"]
    by (simp add: parseDict_def log_region_def atEnd_def newCodedInput_def)
  show "parseDictGreedy (?r @ torn) =
      parseDictGreedy_loop \<lparr>ci_buf = ?r @ torn, ci_pos = length ?r\<rparr> (log_views 4 ps [])"
    using parse_log [OF assms, of 4 "?r @ torn" torn "[]"] read_holder [of "encode_log ps @ torn"]
    by (simp add: parseDictGreedy_def log_region_def atEnd_def newCodedInput_def)
qed

lemma log_region_views:
  assumes "log_ok ps"
  shows "view_map (log_region ps @ post) (log_views 4 ps []) = log_map ps"
    and "views_ok (log_region ps @ post) (log_views 4 ps [])"
  using log_views_sound [OF assms, of 4 "log_region ps @ post" post "[]"]
  by (simp_all add: log_map_def log_region_def)

lemma log_map_keys: "log_ok ps \<Longrightarrow> log_map ps k = Some v \<Longrightarrow> k \<noteq> [] \<and> v \<noteq> [] \<and> pair_ok (k, v)"
proof (induction ps rule: rev_induct)
  case (snoc p ps)
  then show ?case by (cases p) (auto simp: pair_ok_def entry_value_def split: if_splits)
qed simp


section \<open>Arbitrary input\<close>

lemma parseDict_loop_views:
  "parseDict_loop ci m = Inr m' \<Longrightarrow> views_ok (ci_buf ci) m \<Longrightarrow> views_ok (ci_buf ci) m'"
proof (induction ci m rule: parseDict_loop.induct)
  case (1 ci m)
  from "1.prems"(1) show ?case
  proof (subst (asm) parseDict_loop.simps, goal_cases)
    case 1
    show ?case
    proof (cases "atEnd ci")
      case True
      then show ?thesis using 1 "1.prems"(2) by simp
    next
      case False
      with 1 obtain key ci1 where k: "readView ci = (Inr key, ci1)"
        by (auto split: prod.splits sum.splits)
      note fk = readView_frame [of ci "fst key" "snd key" ci1, simplified, OF k]
      show ?thesis
      proof (cases "snd key = 0")
        case True
        then show ?thesis
          using 1 False k fk "1.IH"(1) [OF False _ _ True] "1.prems"(2) by (simp add: k)
      next
        case kne: False
        with 1 False k obtain val ci2 where v: "readView ci1 = (Inr val, ci2)"
          by (auto split: prod.splits sum.splits)
        note fv = readView_frame [of ci1 "fst val" "snd val" ci2, simplified, OF v]
        let ?m = "if snd val > 0 then gm_put (view_bytes (ci_buf ci) key) val m
                  else gm_del (view_bytes (ci_buf ci) key) m"
        have "view_bytes (ci_buf ci) key \<noteq> []"
          using kne fk by (auto simp: view_bytes_def)
        then have "views_ok (ci_buf ci) ?m"
          using "1.prems"(2) fk fv by (auto intro!: views_ok_put views_ok_del)
        then show ?thesis
          using 1 False k kne v fk fv "1.IH"(2) [OF False _ _ kne] by (simp add: k v)
      qed
    qed
  qed
qed

lemma parseDict_loop_greedy:
  "parseDict_loop ci m = Inr m' \<Longrightarrow> parseDictGreedy_loop ci m = m'"
proof (induction ci m rule: parseDict_loop.induct)
  case (1 ci m)
  show ?case
    using "1.prems" "1.IH"
    by (subst parseDictGreedy_loop.simps, subst (asm) parseDict_loop.simps)
      (auto split: prod.splits sum.splits if_splits)
qed


section \<open>Torn tails\<close>

lemma readVarint64_loop_torn:
  assumes "j < length (varint n)" "j < i" "drop (ci_pos c) (ci_buf c) = take j (varint n)"
  shows "fst (readVarint64_loop i x s c) = Inl ErrUnexpectedEOF"
  using assms
proof (induction n arbitrary: i j x s c rule: varint.induct)
  case (1 n)
  obtain i' where i: "i = Suc i'" using "1.prems"(2) by (cases i) auto
  show ?case
  proof (cases j)
    case 0
    then show ?thesis using "1.prems"(3) by (simp add: i)
  next
    case (Suc j')
    with "1.prems"(1) have big: "128 \<le> n" by (subst (asm) varint.simps) (auto split: if_splits)
    then have v: "varint n = (of_nat (n mod 128) OR 0x80) # varint (n div 128)"
      by (subst varint.simps) simp
    have lt: "ci_pos c < length (ci_buf c)"
      using "1.prems"(3) Suc v by (metis drop_all leI list.distinct(1) take_Suc_Cons)
    have "(ci_buf c ! ci_pos c) # drop (Suc (ci_pos c)) (ci_buf c) =
        (of_nat (n mod 128) OR 0x80) # take j' (varint (n div 128))"
      using "1.prems"(3) Cons_nth_drop_Suc [OF lt] by (simp add: v Suc)
    then have b: "ci_buf c ! ci_pos c = of_nat (n mod 128) OR 0x80"
      and d: "drop (Suc (ci_pos c)) (ci_buf c) = take j' (varint (n div 128))" by simp_all
    show ?thesis
      using "1.IH" [OF big, of j' i' "c\<lparr>ci_pos := ci_pos c + 1\<rparr>"] "1.prems"(1,2) lt d
      by (simp add: i Suc v b group_byte not_le)
  qed
qed

lemma readView_torn:
  assumes "length b < 2 ^ 32" "p \<le> length buf" "j < length (writeData b [])"
    and "drop p buf = take j (writeData b [])"
  shows "fst (readView \<lparr>ci_buf = buf, ci_pos = p\<rparr>) = Inl ErrUnexpectedEOF"
proof -
  have w: "writeData b [] = varint (length b) @ b" using assms(1) by (simp add: writeData_eq)
  have l10: "length (varint (length b)) \<le> 10"
    using assms(1) by (intro length_varint) auto
  show ?thesis
  proof (cases "j < length (varint (length b))")
    case True
    then have "fst (readVarint64 \<lparr>ci_buf = buf, ci_pos = p\<rparr>) = Inl ErrUnexpectedEOF"
      unfolding readVarint64_def
      using assms(4) l10 w by (intro readVarint64_loop_torn [of j "length b"]) auto
    then show ?thesis by (cases "readVarint64 \<lparr>ci_buf = buf, ci_pos = p\<rparr>") (simp add: readView_def)
  next
    case False
    let ?r = "take (j - length (varint (length b))) b"
    have d: "drop p buf = varint (length b) @ ?r" using False assms(4) w by simp
    have r: "readVarint64 \<lparr>ci_buf = buf, ci_pos = p\<rparr> =
        (Inr (of_nat (length b)), \<lparr>ci_buf = buf, ci_pos = p + length (varint (length b))\<rparr>)"
      using assms(1,2) d by (subst readVarint64_varint [where n = "length b" and post = ?r]) auto
    have "length buf - (p + length (varint (length b))) < length b"
      using arg_cong [OF d, of length] assms(2,3) w False by simp
    then show ?thesis using assms(1) by (simp add: readView_def r unat_of_nat_small)
  qed
qed

lemma torn_pair:
  assumes "pair_ok (k, v)" "j < length (encode_pair (k, v))" "p \<le> length buf"
    and "drop p buf = take j (encode_pair (k, v))"
  shows "parseDictGreedy_loop \<lparr>ci_buf = buf, ci_pos = p\<rparr> m = m \<and>
    (0 < j \<longrightarrow> parseDict_loop \<lparr>ci_buf = buf, ci_pos = p\<rparr> m = Inl ErrUnexpectedEOF)"
proof (cases "j < length (writeData k [])")
  case True
  have "fst (readView \<lparr>ci_buf = buf, ci_pos = p\<rparr>) = Inl ErrUnexpectedEOF"
    using assms(1,4) True
    by (intro readView_torn [OF _ assms(3) True]) (auto simp: pair_ok_def encode_pair_eq)
  moreover have "atEnd \<lparr>ci_buf = buf, ci_pos = p\<rparr> \<longleftrightarrow> j = 0"
    using assms(2-4) arg_cong [OF assms(4), of length] by (auto simp: atEnd_def)
  ultimately show ?thesis
    by (subst parseDictGreedy_loop.simps, subst parseDict_loop.simps)
      (auto split: prod.splits sum.splits)
next
  case False
  let ?j = "j - length (writeData k [])"
  have d: "drop p buf = writeData k [] @ take ?j (writeData v [])"
    using False assms(4) by (simp add: encode_pair_eq)
  have k: "length k < 2 ^ 32" "k \<noteq> []" and v: "length v < 2 ^ 32"
    using assms(1) by (auto simp: pair_ok_def)
  note rk = readView_writeData [OF k(1) assms(3) d]
  have "fst (readView \<lparr>ci_buf = buf, ci_pos = p + length (writeData k [])\<rparr>) = Inl ErrUnexpectedEOF"
    using v assms(2,3) False drop_shift [OF d] arg_cong [OF d, of length]
    by (intro readView_torn [where j = ?j]) (auto simp: encode_pair_eq)
  then show ?thesis
    using not_atEnd_field [OF d] k(2)
    by (subst parseDictGreedy_loop.simps, subst parseDict_loop.simps)
      (auto simp: rk split: prod.splits sum.splits)
qed


lemma torn_region:
  assumes "log_ok ps" "pair_ok (k, v)" "j < length (encode_pair (k, v))"
  defines "region \<equiv> log_region ps @ take j (encode_pair (k, v))"
  shows "view_map region (parseDictGreedy region) = log_map ps \<and>
    (0 < j \<longrightarrow> parseDict region = Inl ErrUnexpectedEOF)"
proof -
  have t: "parseDictGreedy_loop \<lparr>ci_buf = region, ci_pos = length (log_region ps)\<rparr> m = m \<and>
      (0 < j \<longrightarrow> parseDict_loop \<lparr>ci_buf = region, ci_pos = length (log_region ps)\<rparr> m =
        Inl ErrUnexpectedEOF)" for m
    by (rule torn_pair [OF assms(2,3)]) (simp_all add: region_def)
  have "parseDict region = parseDict_loop \<lparr>ci_buf = region, ci_pos = 4\<rparr> []"
    using read_holder [of "encode_log ps @ take j (encode_pair (k, v))"]
    by (simp add: parseDict_def region_def log_region_def atEnd_def newCodedInput_def)
  also have "\<dots> = parseDict_loop \<lparr>ci_buf = region, ci_pos = length (log_region ps)\<rparr> (log_views 4 ps [])"
    using parse_log [OF assms(1), of 4 region "take j (encode_pair (k, v))" "[]"]
    by (simp add: region_def log_region_def)
  finally have s: "parseDict region =
      parseDict_loop \<lparr>ci_buf = region, ci_pos = length (log_region ps)\<rparr> (log_views 4 ps [])" .
  show ?thesis
    using t parseDict_log_region(2) [OF assms(1), of "take j (encode_pair (k, v))"]
      log_region_views(1) [OF assms(1), of "take j (encode_pair (k, v))"] s
    by (simp add: region_def)
qed

section \<open>Arbitrary input\<close>

lemma parseDict_views_ok:
  assumes "parseDict plain = Inr m"
  shows "views_ok plain m"
proof (cases "atEnd (newCodedInput plain)")
  case True
  then show ?thesis using assms by (simp add: parseDict_def)
next
  case False
  with assms obtain x ci1 where r: "readVarint64 (newCodedInput plain) = (Inr x, ci1)"
    and l: "parseDict_loop ci1 [] = Inr m"
    by (auto simp: parseDict_def split: prod.splits sum.splits)
  show ?thesis
    using parseDict_loop_views [OF l] readVarint64_frame(1) [OF r] by (simp add: newCodedInput_def)
qed

lemma parseDictGreedy_loop_views: "views_ok (ci_buf ci) m \<Longrightarrow> views_ok (ci_buf ci) (parseDictGreedy_loop ci m)"
proof (induction ci m rule: parseDictGreedy_loop.induct)
  case (1 ci m)
  show ?case
  proof (cases "atEnd ci \<or> isl (fst (readView ci))")
    case True
    then show ?thesis
      using "1.prems" by (subst parseDictGreedy_loop.simps) (auto split: prod.splits sum.splits)
  next
    case False
    then obtain key ci1 where k: "readView ci = (Inr key, ci1)" and na: "\<not> atEnd ci"
      by (cases "readView ci"; cases "fst (readView ci)") auto
    note fk = readView_frame [of ci "fst key" "snd key" ci1, simplified, OF k]
    show ?thesis
    proof (cases "snd key = 0")
      case True
      then show ?thesis
        using "1.IH"(1) [OF na k [symmetric] refl True] "1.prems" fk(1) na
        by (subst parseDictGreedy_loop.simps) (simp add: k)
    next
      case kne: False
      obtain r ci2 where p: "readView ci1 = (r, ci2)" by (cases "readView ci1")
      show ?thesis
      proof (cases r)
        case (Inl e)
        then show ?thesis
          using "1.prems" na kne p by (subst parseDictGreedy_loop.simps) (simp add: k)
      next
        case (Inr val)
        then have v: "readView ci1 = (Inr val, ci2)" using p by simp
        note fv = readView_frame [of ci1 "fst val" "snd val" ci2, simplified, OF v]
        let ?m = "if snd val > 0 then gm_put (view_bytes (ci_buf ci) key) val m
                  else gm_del (view_bytes (ci_buf ci) key) m"
        have "view_bytes (ci_buf ci) key \<noteq> []" using kne fk by (auto simp: view_bytes_def)
        then have "views_ok (ci_buf ci) ?m"
          using "1.prems" fk fv by (auto intro!: views_ok_put views_ok_del)
        then show ?thesis
          using "1.IH"(2) [OF na k [symmetric] refl kne v [symmetric] refl] fk(1) fv(1) na kne
          by (subst parseDictGreedy_loop.simps) (simp add: k v)
      qed
    qed
  qed
qed

lemma parseDictGreedy_views_ok: "views_ok plain (parseDictGreedy plain)"
proof -
  obtain r ci where rd: "readVarint64 (newCodedInput plain) = (r, ci)"
    by (cases "readVarint64 (newCodedInput plain)")
  have "ci_buf ci = plain" using readVarint64_frame(1) [OF rd] by (simp add: newCodedInput_def)
  then show ?thesis
    using parseDictGreedy_loop_views [of ci "[]"] rd
    by (auto simp: parseDictGreedy_def Let_def split: sum.splits)
qed

text \<open>The parsers report malformed input as an error.\<close>

definition parse_error :: "goerr \<Rightarrow> bool" where
  "parse_error e \<longleftrightarrow> e = ErrUnexpectedEOF \<or> e = ErrVarintOverflow"

lemma readVarint64_error: "fst (readVarint64 c) = Inl e \<Longrightarrow> parse_error e"
proof -
  have "fst (readVarint64_loop i x s c) = Inl e \<Longrightarrow> parse_error e" for i x s c
    by (induction i arbitrary: x s c) (auto simp: Let_def parse_error_def split: if_splits)
  then show "fst (readVarint64 c) = Inl e \<Longrightarrow> parse_error e" by (simp add: readVarint64_def)
qed

lemma readView_error: "fst (readView c) = Inl e \<Longrightarrow> parse_error e"
  using readVarint64_error [of c e]
  by (auto simp: readView_def parse_error_def split: prod.splits sum.splits if_splits)

lemma parseDict_loop_error: "parseDict_loop ci m = Inl e \<Longrightarrow> parse_error e"
proof (induction ci m rule: parseDict_loop.induct)
  case (1 ci m)
  have err: "readView c = (Inl e, c') \<Longrightarrow> parse_error e" for c c' using readView_error [of c e] by simp
  show ?case
    using "1.prems" "1.IH" err
    by (subst (asm) parseDict_loop.simps) (auto split: prod.splits sum.splits if_splits)
qed

lemma parseDict_error: "parseDict plain = Inl e \<Longrightarrow> parse_error e"
  using readVarint64_error [of "newCodedInput plain" e] parseDict_loop_error
  by (auto simp: parseDict_def Let_def split: if_splits prod.splits sum.splits)

section \<open>Properties\<close>

text \<open>
  C26: replaying a well-formed region yields exactly the last-write-wins map of its log: the parser
  succeeds, every key is bound to a view whose bytes are the key's latest value, and a key whose
  latest value is empty is absent.
\<close>

theorem parseDict_replays_log:
  assumes "log_ok ps"
  shows "\<exists>m. parseDict (log_region ps) = Inr m \<and> gm_inv m \<and>
    view_map (log_region ps) m = log_map ps"
  using parseDict_log_region(1) [OF assms] log_region_views [OF assms, of "[]"]
  by (simp add: views_ok_def)

theorem parseDict_replays_log_witness:
  "log_ok [([1], [7]), ([2], [8, 8]), ([1], [])] \<and>
   (\<exists>m. parseDict (log_region [([1], [7]), ([2], [8, 8]), ([1], [])]) = Inr m \<and> gm_inv m \<and>
      view_map (log_region [([1], [7]), ([2], [8, 8]), ([1], [])]) m =
      log_map [([1], [7]), ([2], [8, 8]), ([1], [])])"
proof -
  have h: "log_ok [([1], [7]), ([2], [8, 8]), ([1], [])]"
    by (simp add: log_ok_def pair_ok_def)
  show ?thesis using h parseDict_replays_log [OF h] by blast
qed

text \<open>
  C34: on any input whatsoever the parser stays inside its buffer: when it succeeds, every value it
  hands out is a non-empty range of the buffer and no key is empty.
\<close>

theorem parseDict_views_in_range:
  assumes "parseDict plain = Inr m" "gm_get m k = Some (off, n)"
  shows "k \<noteq> [] \<and> 0 < n \<and> off + n \<le> length plain"
  using parseDict_views_ok [OF assms(1)] assms(2) by (auto simp: views_ok_def)

theorem parseDict_views_in_range_witness:
  "parseDict [0, 1, 97, 2, 5, 6] = Inr [([97], (4, 2))] \<and>
   gm_get [([97 :: byte], (4 :: nat, 2 :: nat))] [97] = Some (4, 2) \<and>
   (0 < (2 :: nat) \<and> 4 + (2 :: nat) \<le> length [0 :: byte, 1, 97, 2, 5, 6])"
proof -
  have a: "parseDict [0, 1, 97, 2, 5, 6] = Inr [([97], (4, 2))]" by code_simp
  have b: "gm_get [([97 :: byte], (4 :: nat, 2 :: nat))] [97] = Some (4, 2)" by (simp add: gm_get_def)
  show ?thesis using a b parseDict_views_in_range [OF a b] by simp
qed

text \<open>
  The tolerant parser used for recovery is a conservative extension of the strict one: wherever
  the strict parser succeeds, both build the same map.
\<close>

lemma parseDictGreedy_extends_parseDict:
  assumes "parseDict plain = Inr m"
  shows "parseDictGreedy plain = m"
  using assms
  by (auto simp: parseDict_def parseDictGreedy_def Let_def parseDict_loop_greedy
      split: if_splits prod.splits sum.splits)

text \<open>
  When an append is torn, salvage loses only the torn pair: after any proper prefix of one more
  encoded pair, the tolerant parser returns the map of the complete pairs, while the strict parser
  rejects the region as soon as a byte of the torn pair is there.
\<close>

theorem parseDictGreedy_salvages_torn_append:
  assumes "log_ok ps" "pair_ok (k, v)" "j < length (encode_pair (k, v))"
  defines "region \<equiv> log_region ps @ take j (encode_pair (k, v))"
  shows "view_map region (parseDictGreedy region) = log_map ps \<and>
    (0 < j \<longrightarrow> parseDict region = Inl ErrUnexpectedEOF)"
  unfolding region_def using assms(1-3) by (rule torn_region)

theorem parseDictGreedy_salvages_torn_append_witness:
  "log_ok [([1], [7])] \<and> pair_ok ([2], [8, 9]) \<and> 4 < length (encode_pair ([2], [8, 9])) \<and>
   view_map (log_region [([1], [7])] @ take 4 (encode_pair ([2], [8, 9])))
     (parseDictGreedy (log_region [([1], [7])] @ take 4 (encode_pair ([2], [8, 9])))) =
   log_map [([1], [7])]"
proof -
  have a: "log_ok [([1], [7])]" "pair_ok ([2], [8, 9])" by (simp_all add: log_ok_def pair_ok_def)
  have b: "encode_pair ([2], [8, 9]) = [1, 2, 2, 8, 9]" by code_simp
  have c: "4 < length (encode_pair ([2], [8, 9]))" by (simp add: b)
  show ?thesis using a c parseDictGreedy_salvages_torn_append [OF a c] by blast
qed

text \<open>
  C36: a pair with an empty key cannot be read back.  The writers encode it, but the parser skips an
  empty key without its value, so a region that holds only such a pair is rejected.
\<close>

theorem empty_key_region_unreadable:
  assumes "blob \<noteq> []" "length blob < 2 ^ 32"
  shows "parseDict (encodeRegion [[]] (\<lambda>_. blob)) = Inl ErrUnexpectedEOF"
proof -
  let ?r = "itemSizeHolderBytes @ writeData [] [] @ writeData blob []"
  have r: "encodeRegion [[]] (\<lambda>_. blob) = ?r"
    by (simp add: encodeRegion_eq encode_pair_eq)
  have l0: "length (writeData ([] :: bytes) []) = 1"
    by (simp add: writeData_eq varint.simps)
  have k0: "readView \<lparr>ci_buf = ?r, ci_pos = 4\<rparr> = (Inr (5, 0), \<lparr>ci_buf = ?r, ci_pos = 5\<rparr>)"
    using readView_writeData [of "[]" 4 ?r "writeData blob []"] l0 by (simp add: varint.simps)
  have d: "drop 5 ?r = writeData blob [] @ []"
    using l0 drop_shift [of 4 ?r "writeData [] []"] by simp
  have k1: "readView \<lparr>ci_buf = ?r, ci_pos = 5\<rparr> =
      (Inr (5 + length (varint (length blob)), length blob), \<lparr>ci_buf = ?r, ci_pos = length ?r\<rparr>)"
    using readView_writeData [OF assms(2) _ d] l0 by simp
  have e: "fst (readView \<lparr>ci_buf = ?r, ci_pos = length ?r\<rparr>) = Inl ErrUnexpectedEOF"
    by (rule readView_torn [where b = "[]" and j = 0]) auto
  have "parseDict ?r = parseDict_loop \<lparr>ci_buf = ?r, ci_pos = 4\<rparr> []"
    using read_holder [of "writeData [] [] @ writeData blob []"]
    by (simp add: parseDict_def atEnd_def newCodedInput_def)
  also have "\<dots> = parseDict_loop \<lparr>ci_buf = ?r, ci_pos = 5\<rparr> []"
    by (subst parseDict_loop.simps) (simp add: k0 atEnd_def)
  also have "\<dots> = Inl ErrUnexpectedEOF"
    using e assms(1) not_atEnd_field [OF d]
    by (subst parseDict_loop.simps) (auto simp: k1 split: prod.splits sum.splits)
  finally show ?thesis by (simp add: r)
qed

theorem empty_key_region_unreadable_witness:
  "int32Blob 5 \<noteq> [] \<and> length (int32Blob 5) < 2 ^ 32 \<and>
   parseDict (encodeRegion [[]] (\<lambda>_. int32Blob 5)) = Inl ErrUnexpectedEOF"
proof -
  have i: "int32Blob 5 = [5]" by code_simp
  have h: "int32Blob 5 \<noteq> []" "length (int32Blob 5) < 2 ^ 32" by (simp_all add: i)
  show ?thesis using h empty_key_region_unreadable [OF h] by blast
qed

end
