(* ===== verification/Meta.thy ===== *)
theory Meta
  imports Prelude
begin

text \<open>
  The 112-byte meta record of the \<^verbatim>\<open>.crc\<close> file (\<^verbatim>\<open>meta.go\<close>): its fields and offsets, \<^verbatim>\<open>parseMeta\<close>,
  \<^verbatim>\<open>marshal\<close> and \<^verbatim>\<open>expireEnabled\<close>, that the two are inverse, and what the in-place field updates of
  the append path do to the parsed record.
\<close>

record metaInfo =
  mi_crcDigest :: u32
  mi_version :: u32
  mi_sequence :: u32
  mi_iv :: bytes
  mi_actualSize :: u32
  mi_lastActualSize :: u32
  mi_lastCRCDigest :: u32
  mi_flags :: u64

definition offCRC :: nat where "offCRC = 0"

definition offVersion :: nat where "offVersion = 4"

definition offSequence :: nat where "offSequence = 8"

definition offIV :: nat where "offIV = 12"

definition offActualSize :: nat where "offActualSize = 28"

definition offLastActualSize :: nat where "offLastActualSize = 32"

definition offLastCRCDigest :: nat where "offLastCRCDigest = 36"

definition offFlags :: nat where "offFlags = 104"

definition metaSize :: nat where "metaSize = 112"

lemmas meta_offsets = offCRC_def offVersion_def offSequence_def offIV_def offActualSize_def
  offLastActualSize_def offLastCRCDigest_def offFlags_def metaSize_def

definition versionActualSize :: u32 where "versionActualSize = 3"

definition versionFlag :: u32 where "versionFlag = 4"

definition maxSupportedVersion :: u32 where "maxSupportedVersion = versionFlag"

definition flagEnableExpire :: u64 where "flagEnableExpire = push_bit 0 1"

lemmas meta_versions = versionActualSize_def versionFlag_def maxSupportedVersion_def

definition parseMeta :: "bytes \<Rightarrow> goerr + metaInfo" where
  "parseMeta buf =
     (if length buf < metaSize then Inl (ErrMetaTooShort (length buf))
      else Inr \<lparr>mi_crcDigest = getUint32 (drop offCRC buf),
                mi_version = getUint32 (drop offVersion buf),
                mi_sequence = getUint32 (drop offSequence buf),
                mi_iv = take 16 (drop offIV buf),
                mi_actualSize = getUint32 (drop offActualSize buf),
                mi_lastActualSize = getUint32 (drop offLastActualSize buf),
                mi_lastCRCDigest = getUint32 (drop offLastCRCDigest buf),
                mi_flags = getUint64 (drop offFlags buf)\<rparr>)"

definition marshal :: "metaInfo \<Rightarrow> bytes" where
  "marshal m =
     overwrite offFlags (putUint64 (mi_flags m))
     (overwrite offLastCRCDigest (putUint32 (mi_lastCRCDigest m))
     (overwrite offLastActualSize (putUint32 (mi_lastActualSize m))
     (overwrite offActualSize (putUint32 (mi_actualSize m))
     (overwrite offIV (take 16 (mi_iv m))
     (overwrite offSequence (putUint32 (mi_sequence m))
     (overwrite offVersion (putUint32 (mi_version m))
     (overwrite offCRC (putUint32 (mi_crcDigest m))
     (replicate metaSize 0))))))))"

definition expireEnabled :: "metaInfo \<Rightarrow> bool" where
  "expireEnabled m \<longleftrightarrow> mi_flags m AND flagEnableExpire \<noteq> 0"

text \<open>\<^verbatim>\<open>iv\<close> is a \<^verbatim>\<open>[16]byte\<close> array.\<close>

definition meta_wf :: "metaInfo \<Rightarrow> bool" where
  "meta_wf m \<longleftrightarrow> length (mi_iv m) = 16"

section \<open>Reading fields of an updated buffer\<close>

lemma getUint32_overwrite_same [slice_simps]:
  "off + 4 \<le> length s \<Longrightarrow> getUint32 (drop off (overwrite off (putUint32 v) s)) = v"
  using take_drop_overwrite_same [of off "putUint32 v" s] get_putUint32(2) [of v]
  by (simp add: getUint32_def putUint32_def)

lemma getUint64_overwrite_same [slice_simps]:
  "off + 8 \<le> length s \<Longrightarrow> getUint64 (drop off (overwrite off (putUint64 v) s)) = v"
  using take_drop_overwrite_same [of off "putUint64 v" s] get_putUint64(2) [of v]
  by (simp add: getUint64_def putUint64_def)

lemma getUint_overwrite_before [slice_simps]:
  "n + 4 \<le> off \<Longrightarrow> off \<le> length s \<Longrightarrow> getUint32 (drop n (overwrite off bs s)) = getUint32 (drop n s)"
  "n + 8 \<le> off \<Longrightarrow> off \<le> length s \<Longrightarrow> getUint64 (drop n (overwrite off bs s)) = getUint64 (drop n s)"
  by (simp_all add: getUint32_def getUint64_def take_drop_overwrite_before)

lemma getUint_overwrite_head [slice_simps]:
  "4 \<le> length s \<Longrightarrow> getUint32 (overwrite 0 (putUint32 v) s) = v"
  "4 \<le> off \<Longrightarrow> off \<le> length s \<Longrightarrow> getUint32 (overwrite off bs s) = getUint32 s"
  using getUint32_overwrite_same [of 0 s v] getUint_overwrite_before(1) [of 0 off s bs] by simp_all

lemma take_drop_overwrite_all [slice_simps]:
  "n = length bs \<Longrightarrow> off + n \<le> length s \<Longrightarrow> take n (drop off (overwrite off bs s)) = bs"
  using take_drop_overwrite_same by simp

lemma length_marshal [simp]: "meta_wf m \<Longrightarrow> length (marshal m) = metaSize"
  by (simp add: marshal_def meta_wf_def meta_offsets)

lemma parse_marshal: "meta_wf m \<Longrightarrow> parseMeta (marshal m) = Inr m"
  by (simp add: parseMeta_def length_marshal)
    (simp add: marshal_def meta_wf_def meta_offsets slice_simps)

lemma parseMeta_wf: "parseMeta buf = Inr m \<Longrightarrow> meta_wf m"
  by (auto simp: parseMeta_def meta_wf_def meta_offsets split: if_splits)

text \<open>Only the first 112 bytes matter; the file is page-sized.\<close>

lemma getUint_append:
  "n + 4 \<le> length a \<Longrightarrow> getUint32 (drop n a @ b) = getUint32 (drop n a)"
  "n + 8 \<le> length a \<Longrightarrow> getUint64 (drop n a @ b) = getUint64 (drop n a)"
  by (simp_all add: getUint32_def getUint64_def)

lemma parseMeta_append: "metaSize \<le> length a \<Longrightarrow> parseMeta (a @ b) = parseMeta a"
  using getUint_append(1) [of 0 a b] by (simp add: parseMeta_def meta_offsets getUint_append)

lemma parse_marshal_copy:
  "meta_wf m \<Longrightarrow> metaSize \<le> length buf \<Longrightarrow> parseMeta (overwrite 0 (marshal m) buf) = Inr m"
  by (simp add: overwrite_def parseMeta_append parse_marshal)

text \<open>The append path stores only the CRC and the actual size.\<close>

lemma parseMeta_put_crc_actual:
  assumes "parseMeta buf = Inr m"
  shows "parseMeta (overwrite offActualSize (putUint32 a) (overwrite offCRC (putUint32 c) buf)) =
    Inr (m\<lparr>mi_crcDigest := c, mi_actualSize := a\<rparr>)"
  using assms
  by (auto simp: parseMeta_def meta_offsets slice_simps split: if_splits)

section \<open>Properties\<close>

text \<open>
  C29: the meta record survives the trip through the file: what \<^verbatim>\<open>marshal\<close> stores at the start of a
  meta file of any (page-rounded) size, \<^verbatim>\<open>parseMeta\<close> reads back field by field.
\<close>

theorem meta_roundtrip:
  assumes "meta_wf m" "metaSize \<le> length buf"
  shows "parseMeta (overwrite 0 (marshal m) buf) = Inr m \<and> length (marshal m) = metaSize"
  using assms parse_marshal_copy by simp

theorem meta_roundtrip_witness:
  "meta_wf \<lparr>mi_crcDigest = 1, mi_version = 4, mi_sequence = 7, mi_iv = replicate 16 9,
     mi_actualSize = 300, mi_lastActualSize = 5, mi_lastCRCDigest = 6, mi_flags = 1\<rparr> \<and>
   metaSize \<le> length (replicate 128 (255 :: byte)) \<and>
   parseMeta (overwrite 0 (marshal \<lparr>mi_crcDigest = 1, mi_version = 4, mi_sequence = 7,
     mi_iv = replicate 16 9, mi_actualSize = 300, mi_lastActualSize = 5, mi_lastCRCDigest = 6,
     mi_flags = 1\<rparr>) (replicate 128 255)) =
   Inr \<lparr>mi_crcDigest = 1, mi_version = 4, mi_sequence = 7, mi_iv = replicate 16 9,
     mi_actualSize = 300, mi_lastActualSize = 5, mi_lastCRCDigest = 6, mi_flags = 1\<rparr>"
proof -
  have a: "meta_wf \<lparr>mi_crcDigest = 1, mi_version = 4, mi_sequence = 7, mi_iv = replicate 16 9,
     mi_actualSize = 300, mi_lastActualSize = 5, mi_lastCRCDigest = 6, mi_flags = 1\<rparr>"
    by (simp add: meta_wf_def)
  have b: "metaSize \<le> length (replicate 128 (255 :: byte))" by (simp add: metaSize_def)
  show ?thesis using a b meta_roundtrip [OF a b] by blast
qed

end
