(* ===== verification/Crypt.thy ===== *)
theory Crypt
  imports Digest
begin

text \<open>
  The region cipher of \<^verbatim>\<open>crypt.go\<close>: AES in CFB-128 mode over the whole region.  \<open>block\<close> is the
  \<^verbatim>\<open>Encrypt\<close> method of a \<^verbatim>\<open>cipher.Block\<close>, a function on 16-byte blocks; the definitions and lemmas hold
  for every block function, so for every key.  \<open>aes_key\<close> is the key schedule input \<^verbatim>\<open>newAESCFB\<close>
  builds from the user's key.  The contract the store relies on is \<open>region_cipher\<close>.
\<close>

type_synonym block = "bytes \<Rightarrow> bytes"

definition aes_key :: "bytes \<Rightarrow> bytes" where
  "aes_key userKey =
     (let n = (if length userKey > 16 then 32 else 16)
      in overwrite 0 (take n userKey) (replicate n 0))"

definition newAESCFB :: "bytes \<Rightarrow> block" where
  "newAESCFB userKey = aes_NewCipher (aes_key userKey)"

fun Decrypt_loop :: "block \<Rightarrow> bytes \<Rightarrow> bytes \<Rightarrow> bytes \<Rightarrow> nat \<Rightarrow> bytes" where
  "Decrypt_loop a [] reg ks n = []"
| "Decrypt_loop a (c # ct) reg ks n =
     (let ks1 = (if n = 0 then a reg else ks)
      in (c XOR ks1 ! n) # Decrypt_loop a ct (reg[n := c]) ks1 ((n + 1) mod 16))"

definition Decrypt :: "block \<Rightarrow> bytes \<Rightarrow> bytes \<Rightarrow> goerr + bytes" where
  "Decrypt a ct iv =
     (if length iv < 16 then Inl ErrShortIV
      else Inr (Decrypt_loop a ct (take 16 iv) (replicate 16 0) 0))"

fun Encrypt_loop :: "block \<Rightarrow> bytes \<Rightarrow> bytes \<Rightarrow> bytes \<Rightarrow> nat \<Rightarrow> bytes" where
  "Encrypt_loop a [] reg ks n = []"
| "Encrypt_loop a (p # pt) reg ks n =
     (let ks1 = (if n = 0 then a reg else ks);
          c = p XOR ks1 ! n
      in c # Encrypt_loop a pt (reg[n := c]) ks1 ((n + 1) mod 16))"

definition Encrypt :: "block \<Rightarrow> bytes \<Rightarrow> bytes \<Rightarrow> goerr + bytes" where
  "Encrypt a pt iv =
     (if length iv < 16 then Inl ErrShortIV
      else Inr (Encrypt_loop a pt (take 16 iv) (replicate 16 0) 0))"

text \<open>The user's key is truncated or zero-padded to 16 bytes, or to 32 when it is longer than 16.\<close>

lemma aes_key_eq: "aes_key k = take (if length k > 16 then 32 else 16) (k @ replicate 32 0)"
  by (auto simp: aes_key_def overwrite_def Let_def)

section \<open>The contract of a region cipher\<close>

locale region_cipher =
  fixes encrypt decrypt :: "bytes \<Rightarrow> bytes \<Rightarrow> goerr + bytes"
  assumes encrypt_total: "length iv = 16 \<Longrightarrow> \<exists>ct. encrypt pt iv = Inr ct"
    and decrypt_total: "length iv = 16 \<Longrightarrow> \<exists>pt. decrypt ct iv = Inr pt"
    and decrypt_encrypt: "encrypt pt iv = Inr ct \<Longrightarrow> decrypt ct iv = Inr pt"
    and encrypt_decrypt: "decrypt ct iv = Inr pt \<Longrightarrow> encrypt pt iv = Inr ct"
    and encrypt_length: "encrypt pt iv = Inr ct \<Longrightarrow> length ct = length pt"
    and decrypt_causal: "decrypt (a @ b) iv = Inr pt \<Longrightarrow> decrypt a iv = Inr (take (length a) pt)"
begin

lemma encrypt_obtain:
  assumes "length iv = 16"
  obtains ct where "encrypt pt iv = Inr ct" "decrypt ct iv = Inr pt" "length ct = length pt"
  using encrypt_total [OF assms, of pt] decrypt_encrypt encrypt_length by blast

text \<open>Two regions with the same ciphertext under one IV are the same region.\<close>

lemma encrypt_inj: "encrypt p1 iv = Inr ct \<Longrightarrow> encrypt p2 iv = Inr ct \<Longrightarrow> p1 = p2"
  by (metis decrypt_encrypt sum.inject(2))

text \<open>
  Bytes appended to a ciphertext decrypt to a plaintext suffix that depends on the key stream; it is
  the appended plaintext only if the appended bytes are its encryption.
\<close>

lemma decrypt_extend:
  assumes "encrypt pt iv = Inr ct" "decrypt (ct @ tail) iv = Inr pt'"
  shows "take (length pt) pt' = pt" "length pt' = length pt + length tail"
    "pt' = pt @ s \<Longrightarrow> encrypt (pt @ s) iv = Inr (ct @ tail)"
proof -
  have "decrypt ct iv = Inr (take (length ct) pt')"
    using assms(2) by (rule decrypt_causal)
  then show "take (length pt) pt' = pt"
    using decrypt_encrypt [OF assms(1)] encrypt_length [OF assms(1)] by simp
  show "length pt' = length pt + length tail"
    using encrypt_length [OF encrypt_decrypt [OF assms(2)]] encrypt_length [OF assms(1)] by simp
  show "encrypt (pt @ s) iv = Inr (ct @ tail)" if "pt' = pt @ s"
    using encrypt_decrypt [OF assms(2)] that by simp
qed

end

section \<open>CFB satisfies it\<close>

lemma length_Encrypt_loop [simp]: "length (Encrypt_loop a pt reg ks n) = length pt"
  by (induction pt arbitrary: reg ks n) (auto simp: Let_def)

lemma length_Decrypt_loop [simp]: "length (Decrypt_loop a ct reg ks n) = length ct"
  by (induction ct arbitrary: reg ks n) (auto simp: Let_def)

lemma Decrypt_Encrypt_loop: "Decrypt_loop a (Encrypt_loop a pt reg ks n) reg ks n = pt"
  by (induction pt arbitrary: reg ks n) (auto simp: Let_def xor.assoc)

lemma Encrypt_Decrypt_loop: "Encrypt_loop a (Decrypt_loop a ct reg ks n) reg ks n = ct"
  by (induction ct arbitrary: reg ks n) (auto simp: Let_def xor.assoc)

lemma Decrypt_loop_causal:
  "take (length ct) (Decrypt_loop a (ct @ rest) reg ks n) = Decrypt_loop a ct reg ks n"
  by (induction ct arbitrary: reg ks n) (auto simp: Let_def)

interpretation cfb: region_cipher "Encrypt a" "Decrypt a" for a
  by standard
    (auto simp: Encrypt_def Decrypt_def Decrypt_Encrypt_loop Encrypt_Decrypt_loop Decrypt_loop_causal
      split: if_splits)

section \<open>Properties\<close>

text \<open>
  C27: for every block function (so for AES-128 and AES-256 under any key) and every 16-byte IV,
  \<^verbatim>\<open>Decrypt\<close> inverts \<^verbatim>\<open>Encrypt\<close>, \<^verbatim>\<open>Encrypt\<close> inverts \<^verbatim>\<open>Decrypt\<close>, and lengths are preserved.
\<close>

theorem cfb_roundtrip:
  assumes "length iv = 16"
  shows "(\<exists>ct. Encrypt a pt iv = Inr ct \<and> Decrypt a ct iv = Inr pt \<and> length ct = length pt) \<and>
    (\<exists>pl. Decrypt a ct iv = Inr pl \<and> Encrypt a pl iv = Inr ct)"
proof
  show "\<exists>ct. Encrypt a pt iv = Inr ct \<and> Decrypt a ct iv = Inr pt \<and> length ct = length pt"
    by (rule cfb.encrypt_obtain [OF assms, of a pt]) blast
  show "\<exists>pl. Decrypt a ct iv = Inr pl \<and> Encrypt a pl iv = Inr ct"
    using cfb.decrypt_total [OF assms, of a ct] cfb.encrypt_decrypt by blast
qed

theorem cfb_roundtrip_witness:
  "length (replicate 16 (3 :: byte)) = 16 \<and>
   (\<exists>ct. Encrypt (\<lambda>b. map (\<lambda>x. 5 * x + 1) b) [1, 2, 3] (replicate 16 3) = Inr ct \<and>
      Decrypt (\<lambda>b. map (\<lambda>x. 5 * x + 1) b) ct (replicate 16 3) = Inr [1, 2, 3] \<and>
      length ct = length [1 :: byte, 2, 3])"
proof -
  have h: "length (replicate 16 (3 :: byte)) = 16" by simp
  show ?thesis using h cfb_roundtrip [OF h] by blast
qed

end
