(* ===== verification/Path.thy ===== *)
theory Path
  imports Digest
begin

text \<open>
  File naming (\<^verbatim>\<open>path.go\<close>) on top of package \<^verbatim>\<open>path/filepath\<close>: lexical cleaning and joining of paths,
  the encoding of an \<^verbatim>\<open>mmapID\<close> as a file name (special characters select an MD5 name), and the data
  and meta paths.  The lemmas show that distinct identifiers get distinct files.
\<close>

section \<open>Package filepath\<close>

fun split_path :: "string \<Rightarrow> string list" where
  "split_path [] = [[]]"
| "split_path (c # cs) =
     (if c = CHR ''/'' then [] # split_path cs
      else (case split_path cs of [] \<Rightarrow> [[c]] | p # ps \<Rightarrow> (c # p) # ps))"

fun join_path :: "string list \<Rightarrow> string" where
  "join_path [] = []"
| "join_path [p] = p"
| "join_path (p # q # ps) = p @ CHR ''/'' # join_path (q # ps)"

text \<open>\<open>out\<close> is the cleaned prefix, last component first.\<close>

fun clean_parts :: "bool \<Rightarrow> string list \<Rightarrow> string list \<Rightarrow> string list" where
  "clean_parts rooted [] out = rev out"
| "clean_parts rooted (p # ps) out =
     clean_parts rooted ps
       (if p = [] \<or> p = ''.'' then out
        else if p = ''..'' then
          (if out \<noteq> [] \<and> hd out \<noteq> ''..'' then tl out
           else if rooted then out else p # out)
        else p # out)"

definition is_abs :: "string \<Rightarrow> bool" where
  "is_abs p \<longleftrightarrow> p \<noteq> [] \<and> hd p = CHR ''/''"

definition filepath_Clean :: "string \<Rightarrow> string" where
  "filepath_Clean p =
     (let body = join_path (clean_parts (is_abs p) (split_path p) [])
      in if is_abs p then CHR ''/'' # body else if body = [] then ''.'' else body)"

definition filepath_Join :: "string list \<Rightarrow> string" where
  "filepath_Join elems =
     (let ss = filter (\<lambda>e. e \<noteq> []) elems
      in if ss = [] then [] else filepath_Clean (join_path ss))"

definition filepath_Dir :: "string \<Rightarrow> string" where
  "filepath_Dir p = filepath_Clean (rev (dropWhile (\<lambda>c. c \<noteq> CHR ''/'') (rev p)))"

text \<open>\<^verbatim>\<open>filepath.Abs\<close> in the working directory \<open>cwd\<close>; it is also how the kernel resolves a path.\<close>

definition filepath_Abs :: "string \<Rightarrow> string \<Rightarrow> string" where
  "filepath_Abs cwd p = (if is_abs p then filepath_Clean p else filepath_Join [cwd, p])"

section \<open>Names of the store's files\<close>

definition specialCharDir :: string where
  "specialCharDir = ''specialCharacter''"

definition specialChars :: "char list" where
  "specialChars = [CHR 0x5C, CHR ''/'', CHR '':'', CHR ''*'', CHR ''?'', CHR 0x22, CHR ''<'', CHR ''>'', CHR ''|'']"

definition crcSuffix :: string where
  "crcSuffix = ''.crc''"

definition strings_ContainsAny :: "string \<Rightarrow> char list \<Rightarrow> bool" where
  "strings_ContainsAny s cs \<longleftrightarrow> list_ex (\<lambda>c. c \<in> set cs) s"

definition hexdigit :: "nat \<Rightarrow> char" where
  "hexdigit n = ''0123456789abcdef'' ! n"

definition hex_EncodeToString :: "bytes \<Rightarrow> string" where
  "hex_EncodeToString bs = concat (map (\<lambda>b. [hexdigit (unat b div 16), hexdigit (unat b mod 16)]) bs)"

definition string_bytes :: "string \<Rightarrow> bytes" where
  "string_bytes s = map of_char s"

definition encodeFilePath :: "string \<Rightarrow> string" where
  "encodeFilePath mmapID =
     (if strings_ContainsAny mmapID specialChars
      then filepath_Join [specialCharDir, hex_EncodeToString (md5_Sum (string_bytes mmapID))]
      else mmapID)"

definition dataPathFor :: "string \<Rightarrow> string \<Rightarrow> string" where
  "dataPathFor rootDir mmapID = filepath_Join [rootDir, encodeFilePath mmapID]"

definition metaPathFor :: "string \<Rightarrow> string \<Rightarrow> string" where
  "metaPathFor rootDir mmapID = dataPathFor rootDir mmapID @ crcSuffix"

section \<open>Hexadecimal names\<close>

lemma hexdigit_inj: "i < 16 \<Longrightarrow> j < 16 \<Longrightarrow> hexdigit i = hexdigit j \<Longrightarrow> i = j"
proof -
  have d: "distinct ''0123456789abcdef''" by simp
  assume "i < 16" "j < 16" "hexdigit i = hexdigit j"
  then show ?thesis using nth_eq_iff_index_eq [OF d, of i j] by (simp add: hexdigit_def)
qed

lemma hex_inj: "hex_EncodeToString a = hex_EncodeToString b \<Longrightarrow> a = b"
proof (induction a arbitrary: b)
  case Nil
  then show ?case by (cases b) (auto simp: hex_EncodeToString_def)
next
  case (Cons x a)
  then obtain y b' where b: "b = y # b'" by (cases b) (auto simp: hex_EncodeToString_def)
  have lt: "unat z < 256" for z :: byte using unsigned_less [of z, where ?'a = nat] by simp
  have e: "hexdigit (unat x div 16) = hexdigit (unat y div 16)"
      "hexdigit (unat x mod 16) = hexdigit (unat y mod 16)" "hex_EncodeToString a = hex_EncodeToString b'"
    using Cons.prems by (simp_all add: b hex_EncodeToString_def)
  have "unat x div 16 = unat y div 16"
    using lt [of x] lt [of y] by (intro hexdigit_inj e) auto
  moreover have "unat x mod 16 = unat y mod 16" by (intro hexdigit_inj e) auto
  ultimately have "unat x = unat y" by (metis div_mult_mod_eq)
  then have "x = y" by (simp add: word_unat_eq_iff)
  then show ?case using Cons.IH [OF e(3)] b by simp
qed

lemma hexdigit_plain: "i < 16 \<Longrightarrow> hexdigit i \<noteq> CHR ''/'' \<and> hexdigit i \<noteq> CHR ''.''"
proof -
  assume "i < 16"
  then have "hexdigit i \<in> set ''0123456789abcdef''"
    unfolding hexdigit_def by (intro nth_mem) simp
  then show ?thesis by auto
qed

lemma hex_plain: "c \<in> set (hex_EncodeToString bs) \<Longrightarrow> c \<noteq> CHR ''/'' \<and> c \<noteq> CHR ''.''"
proof -
  have lt: "unat z < 256" for z :: byte using unsigned_less [of z, where ?'a = nat] by simp
  have "unat z div 16 < 16" for z :: byte using lt [of z] by linarith
  moreover have "unat z mod 16 < 16" for z :: byte by simp
  moreover assume "c \<in> set (hex_EncodeToString bs)"
  ultimately show ?thesis using hexdigit_plain by (auto simp: hex_EncodeToString_def)
qed

section \<open>Splitting and joining\<close>

lemma split_path_nonempty [simp]: "split_path s \<noteq> []"
  by (induction s) (auto split: list.splits)

lemma split_path_plain: "CHR ''/'' \<notin> set s \<Longrightarrow> split_path s = [s]"
  by (induction s) auto

lemma split_path_slash: "split_path (a @ CHR ''/'' # b) = split_path a @ split_path b"
proof (induction a)
  case (Cons c a)
  then show ?case by (cases "split_path a") auto
qed simp

lemma join_split: "join_path (split_path s) = s"
proof (induction s)
  case (Cons c s)
  then show ?case by (cases "split_path s" rule: join_path.cases) auto
qed simp

lemma split_path_noslash: "p \<in> set (split_path s) \<Longrightarrow> CHR ''/'' \<notin> set p"
proof (induction s arbitrary: p)
  case (Cons c s)
  then show ?case by (cases "split_path s") (auto split: if_splits)
qed simp

lemma split_join:
  "ps \<noteq> [] \<Longrightarrow> (\<And>p. p \<in> set ps \<Longrightarrow> CHR ''/'' \<notin> set p) \<Longrightarrow> split_path (join_path ps) = ps"
proof (induction ps rule: join_path.induct)
  case (3 p q ps)
  then show ?case by (simp add: split_path_slash split_path_plain)
qed (auto simp: split_path_plain)

definition normal_part :: "string \<Rightarrow> bool" where
  "normal_part p \<longleftrightarrow> p \<noteq> [] \<and> p \<noteq> ''.'' \<and> p \<noteq> ''..''"

lemma clean_parts_normal:
  "list_all normal_part qs \<Longrightarrow> clean_parts r (ps @ qs) out = clean_parts r ps out @ qs"
proof (induction ps arbitrary: out)
  case Nil
  then have "clean_parts r qs out = rev out @ qs"
    by (induction qs arbitrary: out) (auto simp: normal_part_def)
  then show ?case by simp
qed simp

lemma clean_parts_noslash:
  "(\<And>p. p \<in> set ps \<union> set out \<Longrightarrow> CHR ''/'' \<notin> set p) \<Longrightarrow> q \<in> set (clean_parts r ps out) \<Longrightarrow>
   CHR ''/'' \<notin> set q"
proof (induction r ps out arbitrary: q rule: clean_parts.induct)
  case (2 r p ps out)
  let ?out = "if p = [] \<or> p = ''.'' then out
        else if p = ''..'' then
          (if out \<noteq> [] \<and> hd out \<noteq> ''..'' then tl out
           else if r then out else p # out)
        else p # out"
  have "set ?out \<subseteq> insert p (set out)" by (auto dest: list.set_sel(2))
  then have "CHR ''/'' \<notin> set x" if "x \<in> set ps \<union> set ?out" for x
    using "2.prems"(1) [of x] that by auto
  then show ?case using "2.IH" [of q] "2.prems"(2) by simp
qed auto

text \<open>The components of a root directory as \<^verbatim>\<open>filepath.Join\<close> sees them.\<close>

definition root_parts :: "string \<Rightarrow> string list" where
  "root_parts root = (if root = [] then [] else clean_parts (is_abs root) (split_path root) [])"

lemma root_parts_noslash: "p \<in> set (root_parts root) \<Longrightarrow> CHR ''/'' \<notin> set p"
  using clean_parts_noslash [of "split_path root" "[]" p] split_path_noslash
  by (auto simp: root_parts_def split: if_splits)

lemma join_path_eq_Nil: "list_all normal_part qs \<Longrightarrow> qs \<noteq> [] \<Longrightarrow> join_path (ps @ qs) \<noteq> []"
proof -
  have "join_path xs = [] \<Longrightarrow> xs = [] \<or> xs = [[]]" for xs by (cases xs rule: join_path.cases) auto
  moreover assume "list_all normal_part qs" "qs \<noteq> []"
  ultimately show ?thesis by (cases qs rule: rev_cases) (fastforce simp: normal_part_def append_eq_Cons_conv)+
qed

lemma filepath_Join_name:
  assumes "list_all normal_part (split_path n)"
  shows "filepath_Join [root, n] =
    (if is_abs root then [CHR ''/''] else []) @ join_path (root_parts root @ split_path n)"
proof -
  have n: "n \<noteq> []" using assms by (auto simp: normal_part_def)
  have abs: "\<not> is_abs n"
    using assms by (cases n) (auto simp: is_abs_def normal_part_def split: list.splits)
  have ne: "join_path (ps @ split_path n) \<noteq> []" for ps
    using assms by (intro join_path_eq_Nil) auto
  show ?thesis
  proof (cases "root = []")
    case True
    have "clean_parts False (split_path n) [] = split_path n"
      using clean_parts_normal [OF assms, of False "[]" "[]"] by simp
    then show ?thesis
      using True n abs ne [of "[]"] by (simp add: filepath_Join_def filepath_Clean_def root_parts_def is_abs_def)
  next
    case False
    then have "is_abs (root @ CHR ''/'' # n) = is_abs root" by (cases root) (auto simp: is_abs_def)
    then show ?thesis
      using False n ne [of "clean_parts False (split_path root) []"] clean_parts_normal [OF assms]
      by (simp add: filepath_Join_def filepath_Clean_def root_parts_def split_path_slash)
  qed
qed

lemma filepath_Join_inj:
  assumes "list_all normal_part (split_path m)" "list_all normal_part (split_path n)"
    and "filepath_Join [root, m] = filepath_Join [root, n]"
  shows "m = n"
proof -
  let ?p = "\<lambda>n. root_parts root @ split_path n"
  have "join_path (?p m) = join_path (?p n)"
    using assms(3) by (simp add: filepath_Join_name [OF assms(1)] filepath_Join_name [OF assms(2)])
  moreover have "split_path (join_path (?p x)) = ?p x" for x
    by (rule split_join) (auto dest: root_parts_noslash split_path_noslash)
  ultimately have "split_path m = split_path n" by (metis same_append_eq)
  then show ?thesis by (metis join_split)
qed

section \<open>Encoded names\<close>

definition plain_id :: "string \<Rightarrow> bool" where
  "plain_id s \<longleftrightarrow> \<not> strings_ContainsAny s specialChars"

lemma plain_id_noslash: "plain_id s \<Longrightarrow> CHR ''/'' \<notin> set s"
  by (auto simp: plain_id_def strings_ContainsAny_def specialChars_def list_ex_iff)

lemma encodeFilePath_plain: "plain_id s \<Longrightarrow> encodeFilePath s = s"
  by (simp add: encodeFilePath_def plain_id_def)

lemma hex_normal: "normal_part (hex_EncodeToString (md5_Sum x))"
proof -
  have "hex_EncodeToString (md5_Sum x) \<noteq> []"
    using length_md5_Sum [of x] by (cases "md5_Sum x") (auto simp: hex_EncodeToString_def)
  then show ?thesis using hex_plain [of _ "md5_Sum x"] by (auto simp: normal_part_def)
qed

lemma encodeFilePath_special:
  assumes "\<not> plain_id s"
  shows "encodeFilePath s = specialCharDir @ CHR ''/'' # hex_EncodeToString (md5_Sum (string_bytes s))"
proof -
  let ?h = "hex_EncodeToString (md5_Sum (string_bytes s))"
  have h: "split_path ?h = [?h]" by (rule split_path_plain) (auto dest: hex_plain)
  then have "list_all normal_part (split_path ?h)" using hex_normal by simp
  moreover have "root_parts specialCharDir = [specialCharDir]" "\<not> is_abs specialCharDir"
    by (simp_all add: root_parts_def specialCharDir_def is_abs_def)
  ultimately show ?thesis
    using assms by (simp add: encodeFilePath_def plain_id_def filepath_Join_name h)
qed

lemma encodeFilePath_parts:
  "list_all normal_part (split_path (encodeFilePath s)) \<longleftrightarrow> normal_part s \<or> \<not> plain_id s"
proof (cases "plain_id s")
  case True
  then show ?thesis by (simp add: encodeFilePath_plain split_path_plain plain_id_noslash)
next
  case False
  let ?h = "hex_EncodeToString (md5_Sum (string_bytes s))"
  have "split_path ?h = [?h]" by (rule split_path_plain) (auto dest: hex_plain)
  moreover have "split_path specialCharDir = [specialCharDir]" "normal_part specialCharDir"
    by (simp_all add: specialCharDir_def normal_part_def)
  ultimately show ?thesis
    using False hex_normal by (simp add: encodeFilePath_special split_path_slash)
qed

lemma encodeFilePath_inj:
  assumes "encodeFilePath a = encodeFilePath b"
  shows "a = b \<or> \<not> plain_id a \<and> \<not> plain_id b \<and> md5_Sum (string_bytes a) = md5_Sum (string_bytes b)"
proof -
  have slash: "CHR ''/'' \<in> set (encodeFilePath s) \<longleftrightarrow> \<not> plain_id s" for s
    by (cases "plain_id s") (auto simp: encodeFilePath_special plain_id_noslash encodeFilePath_plain)
  then have iff: "plain_id a \<longleftrightarrow> plain_id b" using assms by metis
  show ?thesis
  proof (cases "plain_id a")
    case True
    then show ?thesis using iff assms by (simp add: encodeFilePath_plain)
  next
    case False
    then show ?thesis
      using iff assms hex_inj by (auto simp: encodeFilePath_special)
  qed
qed

section \<open>Properties\<close>

text \<open>
  C35: distinct identifiers are stored in distinct data files under a root directory, unless both
  contain a special character and their MD5 sums collide.  (The identifiers \<^verbatim>\<open>.\<close> and \<^verbatim>\<open>..\<close> and the
  empty one name directories, not files, and are excluded.)
\<close>

theorem distinct_ids_distinct_files:
  assumes "a \<notin> {[], ''.'', ''..''}" "b \<notin> {[], ''.'', ''..''}" "a \<noteq> b"
    and "strings_ContainsAny a specialChars \<Longrightarrow> strings_ContainsAny b specialChars \<Longrightarrow>
      md5_Sum (string_bytes a) \<noteq> md5_Sum (string_bytes b)"
  shows "dataPathFor root a \<noteq> dataPathFor root b"
proof
  assume eq: "dataPathFor root a = dataPathFor root b"
  have "normal_part a" "normal_part b" using assms(1,2) by (simp_all add: normal_part_def)
  then have "encodeFilePath a = encodeFilePath b"
    using filepath_Join_inj [of "encodeFilePath a" "encodeFilePath b" root] eq
    by (simp add: encodeFilePath_parts dataPathFor_def)
  then have "a = b \<or> \<not> plain_id a \<and> \<not> plain_id b \<and>
      md5_Sum (string_bytes a) = md5_Sum (string_bytes b)"
    by (rule encodeFilePath_inj)
  then show False using assms(3,4) unfolding plain_id_def by blast
qed

theorem distinct_ids_distinct_files_witness:
  "dataPathFor ''/tmp/'' ''kv'' = ''/tmp/kv'' \<and> dataPathFor ''/tmp/'' ''kv'' \<noteq> dataPathFor ''/tmp/'' ''a/b''"
proof -
  have a: "''kv'' \<notin> {[], ''.'', ''..''}" "''a/b'' \<notin> {[], ''.'', ''..''}" "''kv'' \<noteq> ''a/b''" by simp_all
  have b: "strings_ContainsAny ''kv'' specialChars \<Longrightarrow> strings_ContainsAny ''a/b'' specialChars \<Longrightarrow>
      md5_Sum (string_bytes ''kv'') \<noteq> md5_Sum (string_bytes ''a/b'')"
    by (simp add: strings_ContainsAny_def specialChars_def)
  have "dataPathFor ''/tmp/'' ''kv'' = ''/tmp/kv''"
    by (simp add: dataPathFor_def encodeFilePath_def strings_ContainsAny_def specialChars_def
        filepath_Join_def filepath_Clean_def is_abs_def)
  then show ?thesis using distinct_ids_distinct_files [OF a b, of "''/tmp/''"] by blast
qed

text \<open>
  The meta file of an identifier is the data file of the identifier with \<^verbatim>\<open>.crc\<close> appended, so the
  stores \<^verbatim>\<open>x\<close> and \<^verbatim>\<open>x.crc\<close> under one root share a file.
\<close>

theorem crc_suffix_collision:
  assumes "\<not> strings_ContainsAny x specialChars" "x \<notin> {[], ''.'', ''..''}"
  shows "dataPathFor root (x @ crcSuffix) = metaPathFor root x"
proof -
  have p: "plain_id x" "plain_id (x @ crcSuffix)"
    using assms(1) by (auto simp: plain_id_def strings_ContainsAny_def crcSuffix_def specialChars_def)
  then have sp: "split_path x = [x]" "split_path (x @ crcSuffix) = [x @ crcSuffix]"
    by (auto intro!: split_path_plain plain_id_noslash simp del: set_append)
  have n: "normal_part x" "normal_part (x @ crcSuffix)"
    using assms(2) by (auto simp: normal_part_def crcSuffix_def append_eq_Cons_conv)
  have "join_path (ps @ [x @ s]) = join_path (ps @ [x]) @ s" for ps and s :: string
    by (induction ps rule: join_path.induct) auto
  then show ?thesis
    using p n by (simp add: dataPathFor_def metaPathFor_def encodeFilePath_plain
        filepath_Join_name sp)
qed

theorem crc_suffix_collision_witness:
  "\<not> strings_ContainsAny ''kv'' specialChars \<and>
   dataPathFor ''/tmp'' (''kv'' @ crcSuffix) = metaPathFor ''/tmp'' ''kv''"
proof -
  have h: "\<not> strings_ContainsAny ''kv'' specialChars" "''kv'' \<notin> {[], ''.'', ''..''}"
    by (simp_all add: strings_ContainsAny_def specialChars_def)
  show ?thesis using h(1) crc_suffix_collision [OF h] by blast
qed

end
