(* ===== verification/Os.thy ===== *)
theory Os
  imports Path
begin

text \<open>
  The operating system the package runs on, as far as it uses it: inodes with contents, directory
  entries, \<^verbatim>\<open>flock(2)\<close> per open file description (and which of them are closed), the clock, the random source and the page size.  A
  file mapped with \<^verbatim>\<open>MAP_SHARED\<close> is its inode's content, so writes through a mapping are writes to
  \<open>files\<close>.  Every system call that may fail takes its outcome from \<open>faults\<close> (True: it succeeds; an
  exhausted list: it succeeds), so that each error path of the source is reachable in the model.
\<close>

datatype lockType = SharedLock | ExclusiveLock

record os =
  files :: "nat \<Rightarrow> bytes"
  dirent :: "string \<Rightarrow> nat option"
  nextIno :: nat
  nextOfd :: nat
  flocks :: "nat \<Rightarrow> (nat \<times> lockType) list"
  faults :: "bool list"
  nowUnix :: u32
  ivs :: "bytes list"
  notified :: nat
  pagesize :: nat
  closedOfds :: "nat list"
  cwd :: string

definition syscall :: "os \<Rightarrow> bool \<times> os" where
  "syscall w = (case faults w of [] \<Rightarrow> (True, w) | b # bs \<Rightarrow> (b, w\<lparr>faults := bs\<rparr>))"

lemma syscall_ok [simp]: "faults w = [] \<Longrightarrow> syscall w = (True, w)"
  by (simp add: syscall_def)

lemma syscall_frame:
  assumes "syscall w = (b, w')"
  shows "files w' = files w" "flocks w' = flocks w" "nowUnix w' = nowUnix w"
    "pagesize w' = pagesize w" "ivs w' = ivs w" "dirent w' = dirent w" "notified w' = notified w"
    "closedOfds w' = closedOfds w" "cwd w' = cwd w" "nextIno w' = nextIno w" "nextOfd w' = nextOfd w"
  using assms by (auto simp: syscall_def split: list.splits)

text \<open>A path names the file at its absolute, cleaned form (there are no symbolic links).\<close>

definition lookup :: "os \<Rightarrow> string \<Rightarrow> nat option" where
  "lookup w path = dirent w (filepath_Abs (cwd w) path)"

text \<open>\<^verbatim>\<open>ftruncate\<close>: a grown region reads as zero.\<close>

definition resize :: "nat \<Rightarrow> bytes \<Rightarrow> bytes" where
  "resize n bs = take n bs @ replicate (n - length bs) 0"

lemma length_resize [simp]: "length (resize n bs) = n"
  by (simp add: resize_def)

lemma take_resize: "n \<le> m \<Longrightarrow> n \<le> length bs \<Longrightarrow> take n (resize m bs) = take n bs"
  by (simp add: resize_def min_def)

lemma take_drop_resize:
  "off + n \<le> m \<Longrightarrow> off + n \<le> length bs \<Longrightarrow> take n (drop off (resize m bs)) = take n (drop off bs)"
  by (simp add: resize_def drop_take min_def)

definition set_file :: "nat \<Rightarrow> bytes \<Rightarrow> os \<Rightarrow> os" where
  "set_file i bs w = w\<lparr>files := (files w)(i := bs)\<rparr>"

lemma set_file_sel [simp]:
  "files (set_file i bs w) = (files w)(i := bs)" "faults (set_file i bs w) = faults w"
  "flocks (set_file i bs w) = flocks w" "nowUnix (set_file i bs w) = nowUnix w"
  "pagesize (set_file i bs w) = pagesize w" "ivs (set_file i bs w) = ivs w"
  "dirent (set_file i bs w) = dirent w" "notified (set_file i bs w) = notified w"
  "nextIno (set_file i bs w) = nextIno w" "nextOfd (set_file i bs w) = nextOfd w"
  "closedOfds (set_file i bs w) = closedOfds w" "cwd (set_file i bs w) = cwd w"
  by (simp_all add: set_file_def)

section \<open>flock\<close>

text \<open>
  A lock request first gives up the caller's own lock on the file (conversion is not atomic) and then
  conflicts with the locks of other open file descriptions: a shared request with an exclusive
  holder, an exclusive request with any holder.  On a closed descriptor every call fails.
\<close>

definition others :: "nat \<Rightarrow> (nat \<times> lockType) list \<Rightarrow> (nat \<times> lockType) list" where
  "others ofd t = filter (\<lambda>h. fst h \<noteq> ofd) t"

definition compatible :: "lockType \<Rightarrow> (nat \<times> lockType) list \<Rightarrow> bool" where
  "compatible k t = (case k of SharedLock \<Rightarrow> list_all (\<lambda>h. snd h = SharedLock) t | ExclusiveLock \<Rightarrow> t = [])"

definition set_locks :: "nat \<Rightarrow> (nat \<times> lockType) list \<Rightarrow> os \<Rightarrow> os" where
  "set_locks i t w = w\<lparr>flocks := (flocks w)(i := t)\<rparr>"

text \<open>\<^verbatim>\<open>flock(fd, k|LOCK_NB)\<close>.\<close>

definition flock_nb :: "lockType \<Rightarrow> nat \<Rightarrow> nat \<Rightarrow> os \<Rightarrow> (goerr + unit) \<times> os" where
  "flock_nb k i ofd w =
     (case syscall w of (ok, w1) \<Rightarrow>
        if \<not> ok \<or> ofd \<in> set (closedOfds w1) then (Inl ErrFlock, w1)
        else let t = others ofd (flocks w1 i)
             in if compatible k t then (Inr (), set_locks i ((ofd, k) # t) w1)
                else (Inl EWOULDBLOCK, set_locks i t w1))"

text \<open>\<^verbatim>\<open>flock(fd, k)\<close>: \<open>None\<close> while the caller sleeps on a conflicting lock.\<close>

definition flock_wait :: "lockType \<Rightarrow> nat \<Rightarrow> nat \<Rightarrow> os \<Rightarrow> ((goerr + unit) \<times> os) option" where
  "flock_wait k i ofd w =
     (case syscall w of (ok, w1) \<Rightarrow>
        if \<not> ok \<or> ofd \<in> set (closedOfds w1) then Some (Inl ErrFlock, w1)
        else let t = others ofd (flocks w1 i)
             in if compatible k t then Some (Inr (), set_locks i ((ofd, k) # t) w1) else None)"

text \<open>\<^verbatim>\<open>flock(fd, LOCK_UN)\<close>.\<close>

definition flock_un :: "nat \<Rightarrow> nat \<Rightarrow> os \<Rightarrow> (goerr + unit) \<times> os" where
  "flock_un i ofd w =
     (case syscall w of (ok, w1) \<Rightarrow>
        if \<not> ok \<or> ofd \<in> set (closedOfds w1) then (Inl ErrFlock, w1)
        else (Inr (), set_locks i (others ofd (flocks w1 i)) w1))"

text \<open>The mode an open file description holds, and the kernel's invariant on the holders.\<close>

definition held :: "os \<Rightarrow> nat \<Rightarrow> nat \<Rightarrow> lockType option" where
  "held w i ofd = map_of (flocks w i) ofd"

definition locks_ok :: "(nat \<times> lockType) list \<Rightarrow> bool" where
  "locks_ok t \<longleftrightarrow> distinct (map fst t) \<and> ((\<exists>o1. (o1, ExclusiveLock) \<in> set t) \<longrightarrow> length t = 1)"

lemma set_locks_sel [simp]:
  "files (set_locks i t w) = files w" "faults (set_locks i t w) = faults w"
  "flocks (set_locks i t w) = (flocks w)(i := t)" "nowUnix (set_locks i t w) = nowUnix w"
  "pagesize (set_locks i t w) = pagesize w" "ivs (set_locks i t w) = ivs w"
  "dirent (set_locks i t w) = dirent w" "notified (set_locks i t w) = notified w"
  "nextIno (set_locks i t w) = nextIno w" "nextOfd (set_locks i t w) = nextOfd w"
  "closedOfds (set_locks i t w) = closedOfds w" "cwd (set_locks i t w) = cwd w"
  by (simp_all add: set_locks_def)

lemma map_of_others: "map_of (others ofd t) o1 = (if o1 = ofd then None else map_of t o1)"
  by (induction t) (auto simp: others_def)

lemma others_idem [simp]: "others ofd (others ofd t) = others ofd t"
  by (simp add: others_def)

lemma others_absent: "map_of t ofd = None \<Longrightarrow> others ofd t = t"
  by (induction t) (auto simp: others_def split: if_splits)

lemma locks_ok_others: "locks_ok t \<Longrightarrow> locks_ok (others ofd t)"
proof -
  assume t: "locks_ok t"
  have d: "distinct (map fst (others ofd t))"
    using t by (simp add: locks_ok_def others_def distinct_map_filter)
  have "length (others ofd t) = 1" if "(o1, ExclusiveLock) \<in> set (others ofd t)" for o1
  proof -
    have "(o1, ExclusiveLock) \<in> set t" using that by (simp add: others_def)
    then have "length t = 1" using t by (auto simp: locks_ok_def)
    then have "length (others ofd t) \<le> 1" by (simp add: others_def le_trans [OF length_filter_le])
    moreover have "others ofd t \<noteq> []" using that by auto
    ultimately show ?thesis by (cases "others ofd t") auto
  qed
  with d show ?thesis by (auto simp: locks_ok_def)
qed

lemma locks_ok_grant:
  assumes "locks_ok t" "compatible k (others ofd t)"
  shows "locks_ok ((ofd, k) # others ofd t)"
proof -
  have "distinct (map fst ((ofd, k) # others ofd t))"
    using locks_ok_others [OF assms(1), of ofd] by (auto simp: locks_ok_def others_def)
  then show ?thesis
    using assms(2) by (cases k) (auto simp: locks_ok_def compatible_def list_all_iff)
qed


lemma locks_ok_exclusive:
  assumes "locks_ok t" "map_of t ofd = Some ExclusiveLock"
  shows "others ofd t = []"
proof -
  have "(ofd, ExclusiveLock) \<in> set t" using assms(2) by (rule map_of_SomeD)
  moreover from this have "length t = 1" using assms(1) by (auto simp: locks_ok_def)
  ultimately have "t = [(ofd, ExclusiveLock)]" by (cases t) auto
  then show ?thesis by (simp add: others_def)
qed

end
