(* ===== verification/MemFile.thy ===== *)
theory MemFile
  imports Os
begin

text \<open>
  Memory-mapped files (\<^verbatim>\<open>memfile.go\<close>).  A \<open>memoryFile\<close> is an open file (inode and open file
  description), the length of its current mapping (\<open>None\<close> is the nil slice), the recorded size, and the
  generation of the mapping: a slice taken from an earlier generation points into unmapped memory.
  \<open>memory\<close> is the mapped bytes; \<open>mem_put\<close> and \<open>mem_copy\<close> are stores through the mapping, which fault
  outside it or on a read-only mapping.  The interface the store uses is the contract \<open>mapped_file\<close>.
\<close>

record memoryFile =
  mf_ino :: nat
  mf_ofd :: nat
  mf_open :: bool
  mf_data :: "nat option"
  mf_size :: nat
  mf_gen :: nat
  mf_readOnly :: bool

definition pageRoundUp :: "nat \<Rightarrow> nat \<Rightarrow> nat" where
  "pageRoundUp p n = (if n \<le> p then p else ((n + p - 1) div p) * p)"

definition memory :: "memoryFile \<Rightarrow> os \<Rightarrow> bytes" where
  "memory mf w = (case mf_data mf of None \<Rightarrow> [] | Some n \<Rightarrow> take n (files w (mf_ino mf)))"

definition fileSize :: "memoryFile \<Rightarrow> nat" where
  "fileSize mf = mf_size mf"

text \<open>\<^verbatim>\<open>os.File.Close\<close> drops the locks of the open file description.\<close>

definition os_close :: "nat \<Rightarrow> nat \<Rightarrow> os \<Rightarrow> (goerr + unit) \<times> os" where
  "os_close i ofd w =
     (case syscall w of
        (ok, w1) \<Rightarrow>
          ((if ok then Inr () else Inl ErrClose),
           set_locks i (others ofd (flocks w1 i)) (w1\<lparr>closedOfds := ofd # closedOfds w1\<rparr>)))"

text \<open>\<^verbatim>\<open>os.OpenFile\<close> with \<^verbatim>\<open>O_CREATE\<close>: the inode of the path, created empty when absent.\<close>

definition os_open_create :: "string \<Rightarrow> os \<Rightarrow> (goerr + nat \<times> nat) \<times> os" where
  "os_open_create path w =
     (case syscall w of
        (False, w1) \<Rightarrow> (Inl ErrOpen, w1)
      | (True, w1) \<Rightarrow>
          let ofd = nextOfd w1; w2 = w1\<lparr>nextOfd := ofd + 1\<rparr>
          in case lookup w2 path of
               Some i \<Rightarrow> (Inr (i, ofd), w2)
             | None \<Rightarrow>
                 (Inr (nextIno w2, ofd),
                  w2\<lparr>nextIno := nextIno w2 + 1, dirent := (dirent w2)(filepath_Abs (cwd w2) path \<mapsto> nextIno w2),
                     files := (files w2)(nextIno w2 := [])\<rparr>))"

definition os_open_read :: "string \<Rightarrow> os \<Rightarrow> (goerr + nat \<times> nat) \<times> os" where
  "os_open_read path w =
     (case syscall w of
        (False, w1) \<Rightarrow> (Inl ErrOpen, w1)
      | (True, w1) \<Rightarrow>
          (case lookup w1 path of
             None \<Rightarrow> (Inl ErrNotExist, w1)
           | Some i \<Rightarrow> (Inr (i, nextOfd w1), w1\<lparr>nextOfd := nextOfd w1 + 1\<rparr>)))"

definition openMemoryFile :: "string \<Rightarrow> nat \<Rightarrow> os \<Rightarrow> (goerr + memoryFile) \<times> os" where
  "openMemoryFile path minSize w =
     (case os_open_create path w of
        (Inl e, w1) \<Rightarrow> (Inl e, w1)
      | (Inr (i, ofd), w1) \<Rightarrow>
          (case syscall w1 of
             (False, w2) \<Rightarrow> (Inl ErrStat, snd (os_close i ofd w2))
           | (True, w2) \<Rightarrow>
               let size = length (files w2 i); want = pageRoundUp (pagesize w2) minSize;
                   grown = (if size < want
                            then (case syscall w2 of (ok, w3) \<Rightarrow>
                                    (ok, want, if ok then set_file i (resize want (files w3 i)) w3 else w3))
                            else (True, size, w2))
               in case grown of
                    (False, _, w3) \<Rightarrow> (Inl ErrTruncate, snd (os_close i ofd w3))
                  | (True, n, w3) \<Rightarrow>
                      (case syscall w3 of
                         (False, w4) \<Rightarrow> (Inl ErrMmap, snd (os_close i ofd w4))
                       | (True, w4) \<Rightarrow>
                           (Inr \<lparr>mf_ino = i, mf_ofd = ofd, mf_open = True, mf_data = Some n,
                                 mf_size = n, mf_gen = 0, mf_readOnly = False\<rparr>, w4))))"

definition openMemoryFileReadOnly :: "string \<Rightarrow> os \<Rightarrow> (goerr + memoryFile) \<times> os" where
  "openMemoryFileReadOnly path w =
     (case os_open_read path w of
        (Inl e, w1) \<Rightarrow> (Inl e, w1)
      | (Inr (i, ofd), w1) \<Rightarrow>
          (case syscall w1 of
             (False, w2) \<Rightarrow> (Inl ErrStat, snd (os_close i ofd w2))
           | (True, w2) \<Rightarrow>
               let size = length (files w2 i)
               in if size = 0 then (Inl ErrEmptyFile, snd (os_close i ofd w2))
                  else (case syscall w2 of
                          (False, w3) \<Rightarrow> (Inl ErrMmap, snd (os_close i ofd w3))
                        | (True, w3) \<Rightarrow>
                            (Inr \<lparr>mf_ino = i, mf_ofd = ofd, mf_open = True, mf_data = Some size,
                                  mf_size = size, mf_gen = 0, mf_readOnly = True\<rparr>, w3))))"

text \<open>The unmap and map steps shared by \<^verbatim>\<open>truncate\<close> and \<^verbatim>\<open>remap\<close>.\<close>

definition remap_to :: "nat \<Rightarrow> memoryFile \<Rightarrow> os \<Rightarrow> (goerr + unit) \<times> memoryFile \<times> os" where
  "remap_to n mf w =
     (case (if mf_data mf = None then (True, w) else syscall w) of
        (False, w1) \<Rightarrow> (Inl ErrMunmap, mf, w1)
      | (True, w1) \<Rightarrow>
          (case syscall w1 of
             (False, w2) \<Rightarrow> (Inl ErrMmap, mf\<lparr>mf_data := None\<rparr>, w2)
           | (True, w2) \<Rightarrow> (Inr (), mf\<lparr>mf_data := Some n, mf_size := n, mf_gen := mf_gen mf + 1\<rparr>, w2)))"

definition truncate :: "nat \<Rightarrow> memoryFile \<Rightarrow> os \<Rightarrow> (goerr + unit) \<times> memoryFile \<times> os" where
  "truncate newSize mf w =
     (let want = pageRoundUp (pagesize w) newSize
      in if want = mf_size mf then (Inr (), mf, w)
         else (case syscall w of
                 (False, w1) \<Rightarrow> (Inl ErrTruncate, mf, w1)
               | (True, w1) \<Rightarrow>
                   remap_to want mf
                     (set_file (mf_ino mf) (resize want (files w1 (mf_ino mf))) w1)))"

definition remap :: "memoryFile \<Rightarrow> os \<Rightarrow> (goerr + unit) \<times> memoryFile \<times> os" where
  "remap mf w =
     (case syscall w of
        (False, w1) \<Rightarrow> (Inl ErrStat, mf, w1)
      | (True, w1) \<Rightarrow>
          let size = length (files w1 (mf_ino mf))
          in if size = mf_size mf \<and> mf_data mf \<noteq> None then (Inr (), mf, w1)
             else remap_to size mf w1)"

definition msync :: "bool \<Rightarrow> memoryFile \<Rightarrow> os \<Rightarrow> (goerr + unit) \<times> os" where
  "msync sync mf w = (case syscall w of (ok, w1) \<Rightarrow> (if ok then Inr () else Inl ErrMsync, w1))"

definition mf_close :: "memoryFile \<Rightarrow> os \<Rightarrow> (goerr + unit) \<times> memoryFile \<times> os" where
  "mf_close mf w =
     (let (e1, w1) = (if mf_data mf = None then (Inr (), w)
                      else (case syscall w of (ok, w1) \<Rightarrow> (if ok then Inr () else Inl ErrMunmap, w1)));
          (e2, w2) = (if mf_open mf then os_close (mf_ino mf) (mf_ofd mf) w1 else (Inr (), w1))
      in (case e1 of Inl e \<Rightarrow> Inl e | Inr _ \<Rightarrow> e2, mf\<lparr>mf_data := None, mf_open := False\<rparr>, w2))"

text \<open>
  \<open>mem_put off bs\<close> is \<^verbatim>\<open>copy(mem[off:off+len(bs)], bs)\<close> (and the \<^verbatim>\<open>PutUint32\<close> and \<^verbatim>\<open>clear\<close> calls);
  \<open>mem_copy off bs\<close> is \<^verbatim>\<open>copy(mem[off:], bs)\<close>, which stops at the end of the mapping.
\<close>

definition mem_put :: "memoryFile \<Rightarrow> nat \<Rightarrow> bytes \<Rightarrow> os \<Rightarrow> goerr + os" where
  "mem_put mf off bs w =
     (if \<not> mf_readOnly mf \<and> off + length bs \<le> length (memory mf w)
      then Inr (set_file (mf_ino mf) (overwrite off bs (files w (mf_ino mf))) w)
      else Inl Panic)"

definition mem_copy :: "memoryFile \<Rightarrow> nat \<Rightarrow> bytes \<Rightarrow> os \<Rightarrow> goerr + os" where
  "mem_copy mf off bs w =
     (if off \<le> length (memory mf w)
      then mem_put mf off (take (length (memory mf w) - off) bs) w
      else Inl Panic)"

text \<open>
  A sound mapping covers the whole file.  \<open>mf_ok\<close> also says that it is writable.
\<close>

definition mf_mapped :: "memoryFile \<Rightarrow> os \<Rightarrow> bool" where
  "mf_mapped mf w \<longleftrightarrow> mf_data mf = Some (mf_size mf) \<and> length (files w (mf_ino mf)) = mf_size mf"

definition mf_ok :: "memoryFile \<Rightarrow> os \<Rightarrow> bool" where
  "mf_ok mf w \<longleftrightarrow> mf_mapped mf w \<and> \<not> mf_readOnly mf"

section \<open>Page rounding\<close>

lemma pageRoundUp_ge: "0 < p \<Longrightarrow> n \<le> pageRoundUp p n"
proof -
  assume p: "0 < p"
  have "n \<le> (n + p - 1) div p * p"
  proof -
    have "(n + p - 1) div p * p + (n + p - 1) mod p = n + p - 1" by simp
    moreover have "(n + p - 1) mod p \<le> p - 1" using p mod_less_divisor [OF p, of "n + p - 1"] by linarith
    ultimately show ?thesis using p by linarith
  qed
  then show ?thesis by (simp add: pageRoundUp_def)
qed

lemma pageRoundUp_page: "p \<le> pageRoundUp p n"
proof (cases "n \<le> p \<or> p = 0")
  case False
  then show ?thesis using pageRoundUp_ge [of p n] by simp
qed (auto simp: pageRoundUp_def)

lemma pageRoundUp_dvd: "p dvd pageRoundUp p n"
  by (simp add: pageRoundUp_def)

lemma pageRoundUp_least:
  assumes "0 < p" "p < n"
  shows "pageRoundUp p n < n + p"
proof -
  have "(n + p - 1) div p * p < n + p"
    using assms div_times_less_eq_dividend [of "n + p - 1" p] by linarith
  with assms show ?thesis by (simp add: pageRoundUp_def)
qed

lemma pageRoundUp_id:
  assumes "p dvd n" "0 < p" "p \<le> n"
  shows "pageRoundUp p n = n"
proof -
  obtain k where k: "n = p * k" using assms(1) by (rule dvdE)
  have "(p - 1 + p * k) div p = k + (p - 1) div p" using assms(2) by (intro div_mult_self2) simp
  moreover have "p - 1 + p * k = n + p - 1" using k assms(2) by simp
  ultimately have "(n + p - 1) div p = k" using assms(2) by simp
  then show ?thesis using k assms(3) by (cases "n = p") (auto simp: pageRoundUp_def mult.commute)
qed

section \<open>The mapping under successful system calls\<close>

lemma memory_ok: "mf_mapped mf w \<Longrightarrow> memory mf w = files w (mf_ino mf)"
  by (simp add: mf_mapped_def memory_def)

lemma mem_put_ok:
  "mf_ok mf w \<Longrightarrow> off + length bs \<le> mf_size mf \<Longrightarrow>
   mem_put mf off bs w = Inr (set_file (mf_ino mf) (overwrite off bs (files w (mf_ino mf))) w)"
  by (simp add: mem_put_def mf_ok_def memory_ok) (simp add: mf_mapped_def)

lemma mf_ok_put:
  "mf_ok mf w \<Longrightarrow> off + length bs \<le> mf_size mf \<Longrightarrow>
   mf_ok mf (set_file (mf_ino mf) (overwrite off bs (files w (mf_ino mf))) w)"
  by (simp add: mf_ok_def mf_mapped_def)

lemma mf_ok_frame: "mf_ino mf \<noteq> i \<Longrightarrow> mf_ok mf (set_file i bs w) = mf_ok mf w"
  by (simp add: mf_ok_def mf_mapped_def)

lemma truncate_ok:
  assumes "faults w = []" "mf_ok mf w" "truncate n mf w = (r, mf', w')"
  shows "r = Inr ()" "mf_ok mf' w'" "mf_ino mf' = mf_ino mf" "mf_ofd mf' = mf_ofd mf"
    "mf_open mf' = mf_open mf"
    "mf_size mf' = pageRoundUp (pagesize w) n"
    "files w' = (files w)(mf_ino mf := resize (mf_size mf') (files w (mf_ino mf)))"
    "w' = w\<lparr>files := files w'\<rparr>"
proof -
  have eq: "files w (mf_ino mf) = resize (mf_size mf) (files w (mf_ino mf))"
    using assms(2) by (simp add: mf_ok_def mf_mapped_def resize_def)
  have "r = Inr () \<and> mf_ok mf' w' \<and> mf_ino mf' = mf_ino mf \<and> mf_ofd mf' = mf_ofd mf \<and>
    mf_open mf' = mf_open mf \<and> mf_size mf' = pageRoundUp (pagesize w) n \<and>
    files w' = (files w)(mf_ino mf := resize (mf_size mf') (files w (mf_ino mf))) \<and>
    w' = w\<lparr>files := files w'\<rparr>"
  proof (cases "pageRoundUp (pagesize w) n = mf_size mf")
    case True
    then show ?thesis
      using assms eq by (auto simp: truncate_def Let_def fun_upd_idem)
  next
    case False
    then show ?thesis
      using assms by (auto simp: truncate_def Let_def remap_to_def mf_ok_def mf_mapped_def set_file_def)
  qed
  then show "r = Inr ()" "mf_ok mf' w'" "mf_ino mf' = mf_ino mf" "mf_ofd mf' = mf_ofd mf"
    "mf_open mf' = mf_open mf" "mf_size mf' = pageRoundUp (pagesize w) n"
    "files w' = (files w)(mf_ino mf := resize (mf_size mf') (files w (mf_ino mf)))"
    "w' = w\<lparr>files := files w'\<rparr>" by auto
qed

lemma msync_ok [simp]: "faults w = [] \<Longrightarrow> msync sync mf w = (Inr (), w)"
  by (simp add: msync_def)

lemma remap_idle: "faults w = [] \<Longrightarrow> mf_mapped mf w \<Longrightarrow> remap mf w = (Inr (), mf, w)"
  by (simp add: remap_def mf_mapped_def)

lemma remap_ok:
  assumes "faults w = []" "mf_data mf \<in> {None, Some (mf_size mf)}" "remap mf w = (r, mf', w')"
  shows "r = Inr ()" "w' = w" "mf_mapped mf' w"
    "mf_ino mf' = mf_ino mf" "mf_ofd mf' = mf_ofd mf" "mf_open mf' = mf_open mf"
    "mf_readOnly mf' = mf_readOnly mf" "mf_size mf' = length (files w (mf_ino mf))"
  using assms by (auto simp: remap_def remap_to_def mf_mapped_def Let_def split: if_splits)

section \<open>The contract of a mapped file\<close>

locale mapped_file =
  fixes mem :: "'f \<Rightarrow> 'w \<Rightarrow> bytes"
    and put :: "'f \<Rightarrow> nat \<Rightarrow> bytes \<Rightarrow> 'w \<Rightarrow> goerr + 'w"
    and ok :: "'f \<Rightarrow> 'w \<Rightarrow> bool"
  assumes put_in: "ok f w \<Longrightarrow> off + length bs \<le> length (mem f w) \<Longrightarrow>
      \<exists>w'. put f off bs w = Inr w' \<and> ok f w' \<and> mem f w' = overwrite off bs (mem f w)"
    and put_out: "ok f w \<Longrightarrow> length (mem f w) < off + length bs \<Longrightarrow> put f off bs w = Inl Panic"
begin

lemma put_iff: "ok f w \<Longrightarrow> (\<exists>w'. put f off bs w = Inr w') \<longleftrightarrow> off + length bs \<le> length (mem f w)"
  using put_in [of f w off bs] put_out [of f w off bs] by (cases "off + length bs \<le> length (mem f w)") auto

lemma put_result:
  assumes "ok f w" "put f off bs w = Inr w'"
  shows "mem f w' = overwrite off bs (mem f w)" "ok f w'"
  using put_in [OF assms(1), of off bs] put_iff [OF assms(1), of off bs] assms(2) by auto

text \<open>A store behind the first \<open>n\<close> bytes of a region leaves them and extends the region.\<close>

lemma put_extends:
  assumes "ok f w" "put f (lo + n) bs w = Inr w'"
  shows "take (n + length bs) (drop lo (mem f w')) = take n (drop lo (mem f w)) @ bs"
  using put_result [OF assms] put_iff [OF assms(1), of "lo + n" bs] assms(2)
  by (simp add: take_drop_overwrite_extend)

lemma put_keeps_prefix:
  assumes "ok f w" "put f off bs w = Inr w'" "lo + n \<le> off"
  shows "take n (drop lo (mem f w')) = take n (drop lo (mem f w))"
  using put_result [OF assms(1,2)] put_iff [OF assms(1), of off bs] assms(2,3)
  by (simp add: take_drop_overwrite_before)

end

interpretation mf: mapped_file memory mem_put mf_ok
proof
  fix f w off and bs :: bytes
  assume ok: "mf_ok f w" and r: "off + length bs \<le> length (memory f w)"
  then have "off + length bs \<le> mf_size f" by (simp add: mf_ok_def memory_ok) (simp add: mf_mapped_def)
  with ok show "\<exists>w'. mem_put f off bs w = Inr w' \<and> mf_ok f w' \<and> memory f w' = overwrite off bs (memory f w)"
    using mf_ok_put [OF ok, of off bs]
    by (auto simp: mem_put_ok mf_ok_def memory_ok)
qed (auto simp: mem_put_def mf_ok_def)

section \<open>Properties\<close>

text \<open>
  Sizes are rounded up to whole pages, never below one page and never by a full page or more
  beyond the request.
\<close>

lemma pageRoundUp_spec:
  assumes "0 < p"
  shows "p dvd pageRoundUp p n \<and> max p n \<le> pageRoundUp p n \<and> pageRoundUp p n < max p n + p"
  using assms pageRoundUp_dvd [of p n] pageRoundUp_page [of p n] pageRoundUp_ge [of p n]
    pageRoundUp_least [of p n]
  by (cases "n \<le> p") (auto simp: pageRoundUp_def max_def)

text \<open>
  Growing or shrinking a mapped file keeps every byte below the new size, zero-fills what is new,
  touches no other file, and leaves a mapping of the whole file.
\<close>

theorem truncate_preserves_prefix:
  assumes "faults w = []" "mf_ok mf w" "truncate n mf w = (r, mf', w')"
  shows "r = Inr () \<and> mf_ok mf' w' \<and>
    memory mf' w' = resize (pageRoundUp (pagesize w) n) (memory mf w) \<and>
    (\<forall>i. i \<noteq> mf_ino mf \<longrightarrow> files w' i = files w i)"
  using truncate_ok [OF assms] assms(2) by (simp add: mf_ok_def memory_ok)

definition ex_os :: os where
  "ex_os = \<lparr>files = (\<lambda>i. if i = 1 then [7, 8, 9, 10] else []), dirent = Map.empty, nextIno = 2,
     nextOfd = 1, flocks = (\<lambda>_. []), faults = [], nowUnix = 0, ivs = [], notified = 0, pagesize = 4, closedOfds = [], cwd = ''/''\<rparr>"

definition ex_mf :: memoryFile where
  "ex_mf = \<lparr>mf_ino = 1, mf_ofd = 0, mf_open = True, mf_data = Some 4, mf_size = 4, mf_gen = 0, mf_readOnly = False\<rparr>"

theorem truncate_preserves_prefix_witness:
  "faults ex_os = [] \<and> mf_ok ex_mf ex_os \<and> fst (truncate 5 ex_mf ex_os) = Inr () \<and>
   memory (fst (snd (truncate 5 ex_mf ex_os))) (snd (snd (truncate 5 ex_mf ex_os))) =
   [7, 8, 9, 10, 0, 0, 0, 0]"
proof -
  have a: "faults ex_os = []" by (simp add: ex_os_def)
  have b: "mf_ok ex_mf ex_os" by (simp add: mf_ok_def mf_mapped_def ex_os_def ex_mf_def)
  obtain r mf' w' where c: "truncate 5 ex_mf ex_os = (r, mf', w')"
    by (cases "truncate 5 ex_mf ex_os") auto
  have m: "resize (pageRoundUp (pagesize ex_os) 5) (memory ex_mf ex_os) = [7, 8, 9, 10, 0, 0, 0, 0]"
    by code_simp
  show ?thesis using a b c m truncate_preserves_prefix [OF a b c] by simp
qed

end
