(* ===== verification/Flock.thy ===== *)
theory Flock
  imports Os
begin

text \<open>
  The reference-counted cross-process lock of \<^verbatim>\<open>flock.go\<close>.  A call that would sleep has no result in
  the current state (\<open>None\<close>): the caller is not scheduled until the conflicting lock is gone.  The
  lemmas show that the counters always agree with what the kernel holds for the file description,
  and that a set of processes sharing one lock file exclude each other in every reachable state.
\<close>

record fileLock =
  fl_ino :: nat
  fl_ofd :: nat
  fl_shared :: nat
  fl_exclusive :: nat

definition newFileLock :: "nat \<Rightarrow> nat \<Rightarrow> fileLock" where
  "newFileLock i ofd = \<lparr>fl_ino = i, fl_ofd = ofd, fl_shared = 0, fl_exclusive = 0\<rparr>"

definition flock_call :: "bool \<Rightarrow> lockType \<Rightarrow> fileLock \<Rightarrow> os \<Rightarrow> ((goerr + unit) \<times> os) option" where
  "flock_call wait how l w =
     (if wait then flock_wait how (fl_ino l) (fl_ofd l) w
      else Some (flock_nb how (fl_ino l) (fl_ofd l) w))"

definition platformLock ::
    "lockType \<Rightarrow> bool \<Rightarrow> bool \<Rightarrow> fileLock \<Rightarrow> os \<Rightarrow> ((goerr + unit) \<times> os) option" where
  "platformLock how wait unlockFirst l w =
     (if unlockFirst then
        (case flock_nb how (fl_ino l) (fl_ofd l) w of
           (Inr _, w1) \<Rightarrow> Some (Inr (), w1)
         | (Inl _, w1) \<Rightarrow>
             (case flock_un (fl_ino l) (fl_ofd l) w1 of
                (Inl e, w2) \<Rightarrow> Some (Inl e, w2)
              | (Inr _, w2) \<Rightarrow>
                  (case flock_call wait how l w2 of
                     None \<Rightarrow> None
                   | Some (Inr _, w3) \<Rightarrow> Some (Inr (), w3)
                   | Some (Inl e, w3) \<Rightarrow>
                       (case flock_wait SharedLock (fl_ino l) (fl_ofd l) w3 of
                          None \<Rightarrow> None
                        | Some (_, w4) \<Rightarrow> Some (Inl e, w4)))))
      else flock_call wait how l w)"

definition platformTryLock :: "lockType \<Rightarrow> bool \<Rightarrow> fileLock \<Rightarrow> os \<Rightarrow> ((goerr + bool) \<times> os) option" where
  "platformTryLock how unlockFirst l w =
     (case platformLock how False unlockFirst l w of
        None \<Rightarrow> None
      | Some (Inr _, w1) \<Rightarrow> Some (Inr True, w1)
      | Some (Inl e, w1) \<Rightarrow> Some (if e = EWOULDBLOCK then Inr False else Inl e, w1))"

definition platformUnlock :: "bool \<Rightarrow> fileLock \<Rightarrow> os \<Rightarrow> ((goerr + unit) \<times> os) option" where
  "platformUnlock downgradeToShared l w =
     (if downgradeToShared then flock_wait SharedLock (fl_ino l) (fl_ofd l) w
      else Some (flock_un (fl_ino l) (fl_ofd l) w))"

definition lock :: "lockType \<Rightarrow> fileLock \<Rightarrow> os \<Rightarrow> ((goerr + unit) \<times> fileLock \<times> os) option" where
  "lock t l w =
     (case t of
        SharedLock \<Rightarrow>
          if fl_shared l > 0 \<or> fl_exclusive l > 0
          then Some (Inr (), l\<lparr>fl_shared := fl_shared l + 1\<rparr>, w)
          else (case platformLock SharedLock True False l w of
                  None \<Rightarrow> None
                | Some (Inl e, w1) \<Rightarrow> Some (Inl e, l, w1)
                | Some (Inr _, w1) \<Rightarrow> Some (Inr (), l\<lparr>fl_shared := fl_shared l + 1\<rparr>, w1))
      | ExclusiveLock \<Rightarrow>
          if fl_exclusive l > 0
          then Some (Inr (), l\<lparr>fl_exclusive := fl_exclusive l + 1\<rparr>, w)
          else (case platformLock ExclusiveLock True (fl_shared l > 0) l w of
                  None \<Rightarrow> None
                | Some (Inl e, w1) \<Rightarrow> Some (Inl e, l, w1)
                | Some (Inr _, w1) \<Rightarrow> Some (Inr (), l\<lparr>fl_exclusive := fl_exclusive l + 1\<rparr>, w1)))"

definition tryLock :: "lockType \<Rightarrow> fileLock \<Rightarrow> os \<Rightarrow> ((goerr + bool) \<times> fileLock \<times> os) option" where
  "tryLock t l w =
     (case t of
        SharedLock \<Rightarrow>
          if fl_shared l > 0 \<or> fl_exclusive l > 0
          then Some (Inr True, l\<lparr>fl_shared := fl_shared l + 1\<rparr>, w)
          else (case platformTryLock SharedLock False l w of
                  None \<Rightarrow> None
                | Some (r, w1) \<Rightarrow>
                    Some (r, if r = Inr True then l\<lparr>fl_shared := fl_shared l + 1\<rparr> else l, w1))
      | ExclusiveLock \<Rightarrow>
          if fl_exclusive l > 0
          then Some (Inr True, l\<lparr>fl_exclusive := fl_exclusive l + 1\<rparr>, w)
          else (case platformTryLock ExclusiveLock (fl_shared l > 0) l w of
                  None \<Rightarrow> None
                | Some (r, w1) \<Rightarrow>
                    Some (r, if r = Inr True then l\<lparr>fl_exclusive := fl_exclusive l + 1\<rparr> else l, w1)))"

definition unlock :: "lockType \<Rightarrow> fileLock \<Rightarrow> os \<Rightarrow> ((goerr + unit) \<times> fileLock \<times> os) option" where
  "unlock t l w =
     (case t of
        SharedLock \<Rightarrow>
          if fl_shared l = 0 then Some (Inl ErrUnlockShared, l, w)
          else if fl_shared l > 1 \<or> fl_exclusive l > 0
          then Some (Inr (), l\<lparr>fl_shared := fl_shared l - 1\<rparr>, w)
          else (case platformUnlock False l w of
                  None \<Rightarrow> None
                | Some (Inl e, w1) \<Rightarrow> Some (Inl e, l, w1)
                | Some (Inr _, w1) \<Rightarrow> Some (Inr (), l\<lparr>fl_shared := fl_shared l - 1\<rparr>, w1))
      | ExclusiveLock \<Rightarrow>
          if fl_exclusive l = 0 then Some (Inl ErrUnlockExclusive, l, w)
          else if fl_exclusive l > 1 then Some (Inr (), l\<lparr>fl_exclusive := fl_exclusive l - 1\<rparr>, w)
          else (case platformUnlock (fl_shared l > 0) l w of
                  None \<Rightarrow> None
                | Some (Inl e, w1) \<Rightarrow> Some (Inl e, l, w1)
                | Some (Inr _, w1) \<Rightarrow> Some (Inr (), l\<lparr>fl_exclusive := fl_exclusive l - 1\<rparr>, w1)))"

section \<open>Counters and kernel state agree\<close>

definition lock_mode :: "fileLock \<Rightarrow> lockType option" where
  "lock_mode l =
     (if fl_exclusive l > 0 then Some ExclusiveLock
      else if fl_shared l > 0 then Some SharedLock else None)"

definition fl_inv :: "fileLock \<Rightarrow> os \<Rightarrow> bool" where
  "fl_inv l w \<longleftrightarrow> held w (fl_ino l) (fl_ofd l) = lock_mode l \<and> locks_ok (flocks w (fl_ino l)) \<and>
     fl_ofd l \<notin> set (closedOfds w)"

text \<open>What one call may change: its own description's entry in the lock table of its file.\<close>

definition lock_frame :: "fileLock \<Rightarrow> os \<Rightarrow> os \<Rightarrow> bool" where
  "lock_frame l w w' \<longleftrightarrow> w' = w\<lparr>flocks := flocks w'\<rparr> \<and>
     (\<forall>i. i \<noteq> fl_ino l \<longrightarrow> flocks w' i = flocks w i) \<and>
     others (fl_ofd l) (flocks w' (fl_ino l)) = others (fl_ofd l) (flocks w (fl_ino l))"

lemma others_Cons_same [simp]: "others ofd ((ofd, k) # t) = others ofd t"
  by (simp add: others_def)

lemmas flock_defs = flock_nb_def flock_wait_def flock_un_def flock_call_def Let_def

lemma flock_results:
  assumes "faults w = []" "locks_ok (flocks w i)" "ofd \<notin> set (closedOfds w)"
  shows "flock_wait k i ofd w = Some (r, w') \<Longrightarrow>
      r = Inr () \<and> held w' i ofd = Some k \<and> locks_ok (flocks w' i)"
    and "flock_nb k i ofd w = (r, w') \<Longrightarrow>
      (r = Inr () \<and> held w' i ofd = Some k \<or> r = Inl EWOULDBLOCK \<and> held w' i ofd = None) \<and>
      locks_ok (flocks w' i)"
    and "flock_un i ofd w = (r, w') \<Longrightarrow>
      r = Inr () \<and> held w' i ofd = None \<and> locks_ok (flocks w' i)"
  using assms
  by (auto simp: flock_defs held_def map_of_others locks_ok_others locks_ok_grant split: if_splits)

lemma flock_frames:
  assumes "faults w = []"
  shows "flock_wait k (fl_ino l) (fl_ofd l) w = Some (r, w') \<Longrightarrow> lock_frame l w w'"
    and "flock_nb k (fl_ino l) (fl_ofd l) w = (r, w') \<Longrightarrow> lock_frame l w w'"
    and "flock_un (fl_ino l) (fl_ofd l) w = (r, w') \<Longrightarrow> lock_frame l w w'"
  using assms by (auto simp: flock_defs lock_frame_def set_locks_def split: if_splits)

lemma lock_frame_trans: "lock_frame l w w1 \<Longrightarrow> lock_frame l w1 w2 \<Longrightarrow> lock_frame l w w2"
  by (cases w; cases w1; cases w2) (auto simp: lock_frame_def)

lemma lock_frame_faults: "lock_frame l w w' \<Longrightarrow> faults w' = faults w"
  by (cases w; cases w') (auto simp: lock_frame_def)

lemma lock_frame_others:
  "lock_frame l w w' \<Longrightarrow>
   others (fl_ofd l) (flocks w' (fl_ino l)) = others (fl_ofd l) (flocks w (fl_ino l))"
  unfolding lock_frame_def by (elim conjE)

lemma lock_frame_only_flocks: "lock_frame l w w' \<Longrightarrow> w' = w\<lparr>flocks := flocks w'\<rparr>"
  unfolding lock_frame_def by (elim conjE)

lemma lock_frame_files: "lock_frame l w w' \<Longrightarrow> files w' = files w"
  by (cases w; cases w') (auto simp: lock_frame_def)

lemma lock_frame_closed: "lock_frame l w w' \<Longrightarrow> closedOfds w' = closedOfds w"
  by (cases w; cases w') (auto simp: lock_frame_def)

lemma lock_frame_cong: "fl_ino l' = fl_ino l \<Longrightarrow> fl_ofd l' = fl_ofd l \<Longrightarrow> lock_frame l' = lock_frame l"
  by (simp add: lock_frame_def fun_eq_iff)


lemma platformLock_result:
  assumes w: "faults w = []" "locks_ok (flocks w (fl_ino l))" "fl_ofd l \<notin> set (closedOfds w)"
    and c: "platformLock how wait unlockFirst l w = Some (r, w')"
  shows "lock_frame l w w' \<and> locks_ok (flocks w' (fl_ino l)) \<and>
    (r = Inr () \<and> held w' (fl_ino l) (fl_ofd l) = Some how \<or>
     \<not> wait \<and> r = Inl EWOULDBLOCK \<and>
       held w' (fl_ino l) (fl_ofd l) = (if unlockFirst then Some SharedLock else None))"
proof -
  let ?i = "fl_ino l" and ?o = "fl_ofd l"
  have call: "lock_frame l v v' \<and> locks_ok (flocks v' ?i) \<and>
      (q = Inr () \<and> held v' ?i ?o = Some how \<or> \<not> wait \<and> q = Inl EWOULDBLOCK \<and> held v' ?i ?o = None)"
    if "faults v = []" "locks_ok (flocks v ?i)" "?o \<notin> set (closedOfds v)"
      "flock_call wait how l v = Some (q, v')" for v v' q
    using that flock_results(1) [OF that(1-3), of how q v'] flock_results(2) [OF that(1-3), of how q v']
      flock_frames(1) [OF that(1), of how l q v'] flock_frames(2) [OF that(1), of how l q v']
    by (auto simp: flock_call_def split: if_splits)
  show ?thesis
  proof (cases unlockFirst)
    case False
    then show ?thesis using c call [OF w, of r w'] by (auto simp: platformLock_def)
  next
    case True
    obtain q1 w1 where n: "flock_nb how ?i ?o w = (q1, w1)" by (cases "flock_nb how ?i ?o w")
    note n1 = flock_results(2) [OF w n] flock_frames(2) [OF w(1) n]
    show ?thesis
    proof (cases q1)
      case (Inr u)
      then show ?thesis using c True n n1 by (auto simp: platformLock_def)
    next
      case (Inl e1)
      have w1: "faults w1 = []" "locks_ok (flocks w1 ?i)" "?o \<notin> set (closedOfds w1)"
        using n1 w by (auto dest: lock_frame_faults lock_frame_closed)
      obtain q2 w2 where u: "flock_un ?i ?o w1 = (q2, w2)" by (cases "flock_un ?i ?o w1")
      note u1 = flock_results(3) [OF w1 u] flock_frames(3) [OF w1(1) u]
      have w2: "faults w2 = []" "locks_ok (flocks w2 ?i)" "?o \<notin> set (closedOfds w2)"
        using u1 w1 by (auto dest: lock_frame_faults lock_frame_closed)
      from c True n Inl u u1 obtain q3 w3 where k: "flock_call wait how l w2 = Some (q3, w3)"
        by (auto simp: platformLock_def split: option.splits)
      note k1 = call [OF w2 k]
      have w3: "faults w3 = []" "locks_ok (flocks w3 ?i)" "?o \<notin> set (closedOfds w3)"
        using k1 w2 by (auto dest: lock_frame_faults lock_frame_closed)
      show ?thesis
      proof (cases q3)
        case (Inr u3)
        then show ?thesis
          using c True n Inl u u1 k k1 n1 by (auto simp: platformLock_def intro: lock_frame_trans)
      next
        case e3: (Inl e3)
        from c True n Inl u u1 k e3 obtain q4 w4 where
          s: "flock_wait SharedLock ?i ?o w3 = Some (q4, w4)" and rr: "r = Inl e3" "w' = w4"
          by (auto simp: platformLock_def split: option.splits)
        show ?thesis
          using flock_results(1) [OF w3 s] flock_frames(1) [OF w3(1) s] k1 u1 n1 e3 rr True
          by (auto intro: lock_frame_trans)
      qed
    qed
  qed
qed

lemma lock_step_inv:
  assumes "faults w = []" "fl_inv l w" "lock t l w = Some (r, l', w')"
  shows "r = Inr () \<and> fl_inv l' w' \<and> lock_frame l w w' \<and>
    l' = (case t of SharedLock \<Rightarrow> l\<lparr>fl_shared := fl_shared l + 1\<rparr>
          | ExclusiveLock \<Rightarrow> l\<lparr>fl_exclusive := fl_exclusive l + 1\<rparr>)"
proof -
  have ok: "locks_ok (flocks w (fl_ino l))" "fl_ofd l \<notin> set (closedOfds w)"
    using assms(2) by (simp_all add: fl_inv_def)
  have refl: "lock_frame l w w" by (simp add: lock_frame_def)
  have closed: "lock_frame l w w1 \<Longrightarrow> fl_ofd l \<notin> set (closedOfds w1)" for w1
    using ok(2) lock_frame_closed [of l w w1] by simp
  note p = platformLock_result [OF assms(1) ok]
  show ?thesis
    using assms(2,3) refl
    by (cases t)
      (auto simp: lock_def fl_inv_def lock_mode_def closed split: if_splits option.splits sum.splits dest!: p)
qed

lemma tryLock_step_inv:
  assumes "faults w = []" "fl_inv l w" "tryLock t l w = Some (r, l', w')"
  shows "(\<exists>b. r = Inr b) \<and> fl_inv l' w' \<and> lock_frame l w w' \<and> fl_ino l' = fl_ino l \<and> fl_ofd l' = fl_ofd l"
proof -
  have ok: "locks_ok (flocks w (fl_ino l))" "fl_ofd l \<notin> set (closedOfds w)"
    using assms(2) by (simp_all add: fl_inv_def)
  have refl: "lock_frame l w w" by (simp add: lock_frame_def)
  have closed: "lock_frame l w w1 \<Longrightarrow> fl_ofd l \<notin> set (closedOfds w1)" for w1
    using ok(2) lock_frame_closed [of l w w1] by simp
  note p = platformLock_result [OF assms(1) ok]
  show ?thesis
    using assms(2,3) refl
    by (cases t)
      (auto simp: tryLock_def platformTryLock_def fl_inv_def lock_mode_def closed
        split: if_splits option.splits sum.splits dest!: p)
qed

lemma platformUnlock_result:
  assumes "faults w = []" "locks_ok (flocks w (fl_ino l))" "fl_ofd l \<notin> set (closedOfds w)"
    and "platformUnlock d l w = Some (r, w')"
  shows "r = Inr () \<and> held w' (fl_ino l) (fl_ofd l) = (if d then Some SharedLock else None) \<and>
    locks_ok (flocks w' (fl_ino l)) \<and> lock_frame l w w' \<and> fl_ofd l \<notin> set (closedOfds w')"
proof (cases d)
  case True
  then have c: "flock_wait SharedLock (fl_ino l) (fl_ofd l) w = Some (r, w')"
    using assms(4) by (simp add: platformUnlock_def)
  show ?thesis
    using True flock_results(1) [OF assms(1-3) c] flock_frames(1) [OF assms(1) c] assms(3)
    by (simp add: lock_frame_closed [of l w w'])
next
  case False
  then have c: "flock_un (fl_ino l) (fl_ofd l) w = (r, w')"
    using assms(4) by (simp add: platformUnlock_def)
  show ?thesis
    using False flock_results(3) [OF assms(1-3) c] flock_frames(3) [OF assms(1) c] assms(3)
    by (simp add: lock_frame_closed [of l w w'])
qed

lemma unlock_step_inv:
  assumes "faults w = []" "fl_inv l w" "unlock t l w = Some (r, l', w')"
  shows "fl_inv l' w' \<and> lock_frame l w w' \<and> fl_ino l' = fl_ino l \<and> fl_ofd l' = fl_ofd l \<and>
    (r = Inr () \<or> (case t of SharedLock \<Rightarrow> fl_shared l = 0 | ExclusiveLock \<Rightarrow> fl_exclusive l = 0))"
proof -
  have ok: "locks_ok (flocks w (fl_ino l))" "fl_ofd l \<notin> set (closedOfds w)"
    using assms(2) by (simp_all add: fl_inv_def)
  have refl: "lock_frame l w w" by (simp add: lock_frame_def)
  note p = platformUnlock_result [OF assms(1) ok]
  show ?thesis
    using assms(2,3) refl
    by (cases t)
      (auto simp: unlock_def fl_inv_def lock_mode_def split: if_splits option.splits sum.splits dest!: p)
qed

text \<open>
  Releasing a lock after the critical section restores the counters, whatever the critical section
  did to the files.
\<close>

lemma unlock_after_lock:
  assumes "faults w = []" "fl_inv l w" "lock t l w = Some (r, l', w')"
    and "faults v = []" "flocks v = flocks w'" "closedOfds v = closedOfds w'"
  obtains v' where "unlock t l' v = Some (Inr (), l, v')" "lock_frame l v v'" "fl_inv l v'"
proof -
  note a = lock_step_inv [OF assms(1-3)]
  have "fl_inv l' w'" using a by blast
  then have inv: "fl_inv l' v" using assms(5,6) by (simp add: fl_inv_def held_def)
  have open_fd: "fl_ofd l \<notin> set (closedOfds v)"
    using a inv by (auto simp: fl_inv_def split: lockType.splits)
  have "\<exists>v'. unlock t l' v = Some (Inr (), l, v')"
  proof (cases t)
    case SharedLock
    then have l': "l' = l\<lparr>fl_shared := fl_shared l + 1\<rparr>" using a by simp
    show ?thesis
      by (cases "fl_shared l > 0 \<or> fl_exclusive l > 0")
        (auto simp: SharedLock l' assms(4) open_fd unlock_def platformUnlock_def flock_un_def)
  next
    case ExclusiveLock
    then have l': "l' = l\<lparr>fl_exclusive := fl_exclusive l + 1\<rparr>" using a by simp
    have "others (fl_ofd l) (flocks v (fl_ino l)) = []"
      using inv by (intro locks_ok_exclusive) (auto simp: l' fl_inv_def held_def lock_mode_def)
    then show ?thesis
      by (cases "fl_exclusive l > 0"; cases "fl_shared l > 0")
        (simp_all add: ExclusiveLock l' assms(4) open_fd unlock_def platformUnlock_def flock_un_def flock_wait_def
          compatible_def)
  qed
  then obtain v' where u: "unlock t l' v = Some (Inr (), l, v')" by blast
  have "fl_ino l' = fl_ino l" "fl_ofd l' = fl_ofd l"
    using a by (cases t; simp)+
  then have "lock_frame l' = lock_frame l" by (rule lock_frame_cong)
  then have "lock_frame l v v'" "fl_inv l v'"
    using unlock_step_inv [OF assms(4) inv u] by simp_all
  with u show thesis by (rule that)
qed

section \<open>Processes sharing a lock file\<close>

text \<open>
  Process \<open>p\<close> has open file description \<open>p\<close> on the lock file; a step is one call of one process that
  returns.
\<close>

record lsys =
  ls_locks :: "nat \<Rightarrow> fileLock"
  ls_os :: os

inductive lock_sys_step :: "lsys \<Rightarrow> lsys \<Rightarrow> bool" where
  acquire: "lock t (ls_locks s p) (ls_os s) = Some (r, l', w') \<Longrightarrow>
     lock_sys_step s (s\<lparr>ls_locks := (ls_locks s)(p := l'), ls_os := w'\<rparr>)"
| attempt: "tryLock t (ls_locks s p) (ls_os s) = Some (b, l', w') \<Longrightarrow>
     lock_sys_step s (s\<lparr>ls_locks := (ls_locks s)(p := l'), ls_os := w'\<rparr>)"
| release: "unlock t (ls_locks s p) (ls_os s) = Some (r, l', w') \<Longrightarrow>
     lock_sys_step s (s\<lparr>ls_locks := (ls_locks s)(p := l'), ls_os := w'\<rparr>)"

definition lock_sys_init :: "nat \<Rightarrow> lsys \<Rightarrow> bool" where
  "lock_sys_init i s \<longleftrightarrow> (\<forall>p. ls_locks s p = newFileLock i p) \<and> faults (ls_os s) = [] \<and>
     flocks (ls_os s) i = [] \<and> closedOfds (ls_os s) = []"

definition lock_sys_inv :: "nat \<Rightarrow> lsys \<Rightarrow> bool" where
  "lock_sys_inv i s \<longleftrightarrow> faults (ls_os s) = [] \<and>
     (\<forall>p. fl_ino (ls_locks s p) = i \<and> fl_ofd (ls_locks s p) = p \<and> fl_inv (ls_locks s p) (ls_os s))"

lemma fl_inv_other:
  assumes "fl_inv l w" "lock_frame l0 w w'" "fl_inv l1 w'" "fl_ino l1 = fl_ino l"
    and "fl_ino l0 = fl_ino l" "fl_ofd l0 \<noteq> fl_ofd l"
  shows "fl_inv l w'"
proof -
  have "map_of (flocks w' (fl_ino l)) (fl_ofd l) = map_of (flocks w (fl_ino l)) (fl_ofd l)"
    using lock_frame_others [OF assms(2)] assms(5,6)
      map_of_others [of "fl_ofd l0" "flocks w' (fl_ino l)" "fl_ofd l"]
      map_of_others [of "fl_ofd l0" "flocks w (fl_ino l)" "fl_ofd l"] by simp
  then show ?thesis
    using assms(1,3,4) lock_frame_closed [OF assms(2)] by (simp add: fl_inv_def held_def)
qed

lemma lock_sys_inv_update:
  assumes "lock_sys_inv i s" "fl_inv l' w'" "lock_frame (ls_locks s p) (ls_os s) w'"
    and "fl_ino l' = fl_ino (ls_locks s p)" "fl_ofd l' = fl_ofd (ls_locks s p)"
  shows "lock_sys_inv i (s\<lparr>ls_locks := (ls_locks s)(p := l'), ls_os := w'\<rparr>)"
proof -
  have "fl_inv (ls_locks s q) w'" if "q \<noteq> p" for q
    using assms that by (intro fl_inv_other [OF _ assms(3,2)]) (auto simp: lock_sys_inv_def)
  then show ?thesis
    using assms lock_frame_faults [OF assms(3)] by (auto simp: lock_sys_inv_def)
qed

interpretation locks: invariant_system "lock_sys_init i" lock_sys_step "lock_sys_inv i" for i
proof
  show "lock_sys_inv i s" if "lock_sys_init i s" for s
    using that by (auto simp: lock_sys_init_def lock_sys_inv_def newFileLock_def fl_inv_def held_def
        lock_mode_def locks_ok_def)
  show "lock_sys_inv i t" if inv: "lock_sys_inv i s" and step: "lock_sys_step s t" for s t
    using step inv
  proof (induction rule: lock_sys_step.induct)
    case (acquire k s p r l' w')
    then show ?case
      using lock_step_inv [OF _ _ acquire.hyps]
      by (intro lock_sys_inv_update) (auto simp: lock_sys_inv_def split: lockType.splits)
  next
    case (attempt k s p b l' w')
    then show ?case
      using tryLock_step_inv [OF _ _ attempt.hyps]
      by (intro lock_sys_inv_update) (auto simp: lock_sys_inv_def)
  next
    case (release k s p r l' w')
    then show ?case
      using unlock_step_inv [OF _ _ release.hyps]
      by (intro lock_sys_inv_update) (auto simp: lock_sys_inv_def)
  qed
qed


section \<open>Properties\<close>


definition ex_lsys :: lsys where
  "ex_lsys = \<lparr>ls_locks = newFileLock 1, ls_os = \<lparr>files = (\<lambda>_. []), dirent = Map.empty, nextIno = 2,
     nextOfd = 9, flocks = (\<lambda>_. []), faults = [], nowUnix = 0, ivs = [], notified = 0, pagesize = 4,
     closedOfds = [], cwd = ''/''\<rparr>\<rparr>"

definition ex_lsys_locked :: lsys where
  "ex_lsys_locked =
     (case lock ExclusiveLock (ls_locks ex_lsys 3) (ls_os ex_lsys) of
        Some (r, l', w') \<Rightarrow> ex_lsys\<lparr>ls_locks := (ls_locks ex_lsys)(3 := l'), ls_os := w'\<rparr>
      | None \<Rightarrow> ex_lsys)"


text \<open>
  Acquisition and release are balanced.  A granted lock, of either kind and at any nesting depth,
  is released without error after the critical section, restores the previous counters, and changes
  nothing but this process's own entry in the kernel's lock table.
\<close>

theorem lock_unlock_balanced:
  assumes "faults w = []" "fl_inv l w" "lock t l w = Some (r, l', w')"
    and "faults v = []" "flocks v = flocks w'" "closedOfds v = closedOfds w'"
  shows "r = Inr () \<and> (\<exists>v'. unlock t l' v = Some (Inr (), l, v') \<and> fl_inv l v' \<and>
    v' = v\<lparr>flocks := flocks v'\<rparr> \<and>
    others (fl_ofd l) (flocks v' (fl_ino l)) = others (fl_ofd l) (flocks w (fl_ino l)))"
proof -
  note a = lock_step_inv [OF assms(1-3)]
  obtain v' where u: "unlock t l' v = Some (Inr (), l, v')" "lock_frame l v v'" "fl_inv l v'"
    by (rule unlock_after_lock [OF assms])
  have f: "lock_frame l w w'" "r = Inr ()" using a by blast+
  have "others (fl_ofd l) (flocks v' (fl_ino l)) = others (fl_ofd l) (flocks w (fl_ino l))"
    using lock_frame_others [OF u(2)] lock_frame_others [OF f(1)] assms(5) by simp
  moreover have "v' = v\<lparr>flocks := flocks v'\<rparr>" using u(2) by (rule lock_frame_only_flocks)
  ultimately show ?thesis using u f(2) by blast
qed

theorem lock_unlock_balanced_witness:
  "faults (ls_os ex_lsys) = [] \<and> fl_inv (ls_locks ex_lsys 3) (ls_os ex_lsys) \<and>
   (\<exists>r l' w'. lock SharedLock (ls_locks ex_lsys 3) (ls_os ex_lsys) = Some (r, l', w') \<and>
     (\<exists>v'. unlock SharedLock l' w' = Some (Inr (), ls_locks ex_lsys 3, v')))"
proof -
  have a: "faults (ls_os ex_lsys) = []" by (simp add: ex_lsys_def)
  have b: "fl_inv (ls_locks ex_lsys 3) (ls_os ex_lsys)"
    by (simp add: ex_lsys_def fl_inv_def held_def newFileLock_def lock_mode_def locks_ok_def)
  have c: "lock SharedLock (ls_locks ex_lsys 3) (ls_os ex_lsys) =
      Some (Inr (), (newFileLock 1 3)\<lparr>fl_shared := 1\<rparr>, set_locks 1 [(3, SharedLock)] (ls_os ex_lsys))"
    by (simp add: ex_lsys_def lock_def newFileLock_def platformLock_def flock_call_def flock_wait_def
        compatible_def others_def)
  have d: "faults (set_locks 1 [(3, SharedLock)] (ls_os ex_lsys)) = []" by (simp add: a)
  show ?thesis using a b c lock_unlock_balanced [OF a b c d refl] by blast
qed

end
