(* ===== verification/Mmkv.thy ===== *)
theory Mmkv
  imports Dict Meta Crypt MemFile Flock
begin

text \<open>
  The read/write instance of \<^verbatim>\<open>mmkv.go\<close>: its state, locking, loading with recovery, and every read
  operation.  Values in the dictionary are Go slices: either heap bytes, or a window of the data
  mapping tagged with the generation of the mapping it was taken from, so that using a slice of an
  unmapped generation is a fault (\<open>Panic\<close>).  The instance mutex serialises the calls of one process:
  an operation is one function from the state before to the state after, and has no result
  (\<open>None\<close>) while it sleeps in \<^verbatim>\<open>flock\<close>.
\<close>

section \<open>Slices of the data mapping\<close>

datatype slice = Heap bytes | View nat nat nat

fun slice_len :: "slice \<Rightarrow> nat" where
  "slice_len (Heap b) = length b"
| "slice_len (View g off n) = n"

fun subslice :: "nat \<Rightarrow> nat \<Rightarrow> slice \<Rightarrow> slice" where
  "subslice lo hi (Heap b) = Heap (take (hi - lo) (drop lo b))"
| "subslice lo hi (View g off n) = View g (off + lo) (hi - lo)"

fun deref :: "memoryFile \<Rightarrow> os \<Rightarrow> slice \<Rightarrow> goerr + bytes" where
  "deref mf w (Heap b) = Inr b"
| "deref mf w (View g off n) =
     (if g = mf_gen mf then go_slice off (off + n) (memory mf w) else Inl Panic)"

section \<open>State\<close>

record mmkv =
  m_rootDir :: string
  m_mmapID :: string
  m_key :: string
  m_multiProcess :: bool
  m_readOnly :: bool
  m_fl :: fileLock
  m_data :: memoryFile
  m_meta :: memoryFile
  m_crypt :: "block option"
  m_info :: metaInfo
  m_dict :: "slice gomap"
  m_actualSize :: u32
  m_crcDigest :: u32
  m_needLoad :: bool
  m_closed :: bool
  m_lastErr :: "goerr option"
  m_needFullWriteback :: bool
  m_enableExpire :: bool
  m_expiredSeconds :: u32
  m_compareBeforeSet :: bool
  m_onContentChanged :: bool
  m_recover :: bool

text \<open>
  A step of the instance, with its result; \<open>Inl Panic\<close> is a run-time panic or a memory fault.
\<close>

type_synonym 'a step = "mmkv \<Rightarrow> os \<Rightarrow> (goerr + 'a) \<times> mmkv \<times> os"
type_synonym 'a op = "mmkv \<Rightarrow> os \<Rightarrow> ((goerr + 'a) \<times> mmkv \<times> os) option"

section \<open>Locking\<close>

definition lockShared :: "mmkv \<Rightarrow> os \<Rightarrow> (mmkv \<times> os) option" where
  "lockShared m w =
     (if m_multiProcess m
      then (case lock SharedLock (m_fl m) w of
              None \<Rightarrow> None | Some (_, l, w1) \<Rightarrow> Some (m\<lparr>m_fl := l\<rparr>, w1))
      else Some (m, w))"

definition unlockShared :: "mmkv \<Rightarrow> os \<Rightarrow> (mmkv \<times> os) option" where
  "unlockShared m w =
     (if m_multiProcess m
      then (case unlock SharedLock (m_fl m) w of
              None \<Rightarrow> None | Some (_, l, w1) \<Rightarrow> Some (m\<lparr>m_fl := l\<rparr>, w1))
      else Some (m, w))"

definition lockExclusive :: "mmkv \<Rightarrow> os \<Rightarrow> (mmkv \<times> os) option" where
  "lockExclusive m w =
     (if m_multiProcess m
      then (case lock ExclusiveLock (m_fl m) w of
              None \<Rightarrow> None | Some (_, l, w1) \<Rightarrow> Some (m\<lparr>m_fl := l\<rparr>, w1))
      else Some (m, w))"

definition unlockExclusive :: "mmkv \<Rightarrow> os \<Rightarrow> (mmkv \<times> os) option" where
  "unlockExclusive m w =
     (if m_multiProcess m
      then (case unlock ExclusiveLock (m_fl m) w of
              None \<Rightarrow> None | Some (_, l, w1) \<Rightarrow> Some (m\<lparr>m_fl := l\<rparr>, w1))
      else Some (m, w))"

text \<open>The prologue \<^verbatim>\<open>m.lockShared(); defer m.unlockShared()\<close> and its exclusive counterpart.\<close>

definition withShared :: "'a step \<Rightarrow> 'a op" where
  "withShared body m w =
     (case lockShared m w of
        None \<Rightarrow> None
      | Some (m1, w1) \<Rightarrow>
          (case body m1 w1 of (r, m2, w2) \<Rightarrow>
             (case unlockShared m2 w2 of None \<Rightarrow> None | Some (m3, w3) \<Rightarrow> Some (r, m3, w3))))"

definition withExclusive :: "'a step \<Rightarrow> 'a op" where
  "withExclusive body m w =
     (case lockExclusive m w of
        None \<Rightarrow> None
      | Some (m1, w1) \<Rightarrow>
          (case body m1 w1 of (r, m2, w2) \<Rightarrow>
             (case unlockExclusive m2 w2 of None \<Rightarrow> None | Some (m3, w3) \<Rightarrow> Some (r, m3, w3))))"

section \<open>Loading\<close>

definition readActualSize :: "mmkv \<Rightarrow> os \<Rightarrow> u32" where
  "readActualSize m w =
     (if mi_version (m_info m) \<ge> versionActualSize then mi_actualSize (m_info m)
      else let mem = memory (m_data m) w in if length mem \<ge> 4 then getUint32 mem else 0)"

definition crcValid :: "u32 \<Rightarrow> u32 \<Rightarrow> mmkv \<Rightarrow> os \<Rightarrow> goerr + bool" where
  "crcValid actual want m w =
     (case go_slice 4 (unat (4 + actual)) (memory (m_data m) w) of
        Inl e \<Rightarrow> Inl e
      | Inr region \<Rightarrow> Inr (crc32_ChecksumIEEE region = want))"

text \<open>
  The maps \<^verbatim>\<open>parseDict\<close> builds: windows of the mapping for a plaintext region, heap slices of the
  decrypted buffer otherwise.
\<close>

definition mapped_views :: "nat \<Rightarrow> view gomap \<Rightarrow> slice gomap" where
  "mapped_views g d = map (\<lambda>(k, v). (k, View g (4 + fst v) (snd v))) d"

definition heap_views :: "bytes \<Rightarrow> view gomap \<Rightarrow> slice gomap" where
  "heap_views plain d = map (\<lambda>(k, v). (k, Heap (view_bytes plain v))) d"

definition decodeRegion :: "u32 \<Rightarrow> u32 \<Rightarrow> mmkv \<Rightarrow> os \<Rightarrow> (goerr + unit) \<times> mmkv" where
  "decodeRegion actual crc m w =
     (case go_slice 4 (unat (4 + actual)) (memory (m_data m) w) of
        Inl e \<Rightarrow> (Inl e, m)
      | Inr region \<Rightarrow>
          (case m_crypt m of
             None \<Rightarrow>
               (case parseDict region of
                  Inl e \<Rightarrow> (Inl e, m)
                | Inr d \<Rightarrow> (Inr (), m\<lparr>m_dict := mapped_views (mf_gen (m_data m)) d,
                                   m_actualSize := actual, m_crcDigest := crc\<rparr>))
           | Some a \<Rightarrow>
               (case Decrypt a region (mi_iv (m_info m)) of
                  Inl e \<Rightarrow> (Inl e, m)
                | Inr plain \<Rightarrow>
                    (case parseDict plain of
                       Inl e \<Rightarrow> (Inl e, m)
                     | Inr d \<Rightarrow> (Inr (), m\<lparr>m_dict := heap_views plain d,
                                        m_actualSize := actual, m_crcDigest := crc\<rparr>)))))"

definition salvage :: "mmkv \<Rightarrow> os \<Rightarrow> (goerr + unit) \<times> mmkv" where
  "salvage m w =
     (let size = length (memory (m_data m) w);
          actual0 = mi_actualSize (m_info m);
          actual = (if unat actual0 + 4 > size
                    then (if size \<ge> 4 then of_nat (size - 4) else 0) else actual0)
      in case go_slice 4 (unat (4 + actual)) (memory (m_data m) w) of
           Inl e \<Rightarrow> (Inl e, m)
         | Inr region \<Rightarrow>
             let d = (case m_crypt m of
                        None \<Rightarrow> mapped_views (mf_gen (m_data m)) (parseDictGreedy region)
                      | Some a \<Rightarrow>
                          (case Decrypt a region (mi_iv (m_info m)) of
                             Inl _ \<Rightarrow> mapped_views (mf_gen (m_data m)) (parseDictGreedy region)
                           | Inr plain \<Rightarrow> heap_views plain (parseDictGreedy plain)))
             in (Inr (), m\<lparr>m_dict := d, m_actualSize := mi_actualSize (m_info m),
                           m_crcDigest := mi_crcDigest (m_info m), m_needFullWriteback := True\<rparr>))"

text \<open>The guard of the first two branches of \<^verbatim>\<open>loadData\<close>.\<close>

definition regionValid :: "u32 \<Rightarrow> u32 \<Rightarrow> mmkv \<Rightarrow> os \<Rightarrow> goerr + bool" where
  "regionValid actual want m w =
     (let size = length (memory (m_data m) w)
      in if unat actual < size \<and> unat actual + 4 \<le> size then crcValid actual want m w else Inr False)"

definition loadData :: "mmkv \<Rightarrow> os \<Rightarrow> (goerr + unit) \<times> mmkv" where
  "loadData m0 w =
     (case parseMeta (memory (m_meta m0) w) of
        Inl e \<Rightarrow> (Inl e, m0)
      | Inr mi \<Rightarrow>
          if mi_version mi > maxSupportedVersion
          then (Inl (ErrUnsupportedVersion (mi_version mi)), m0\<lparr>m_info := mi\<rparr>)
          else
            let m = m0\<lparr>m_info := mi, m_enableExpire := (mi_version mi \<ge> versionFlag \<and> expireEnabled mi)\<rparr>;
                actual = readActualSize m w; la = mi_lastActualSize mi
            in case regionValid actual (mi_crcDigest mi) m w of
                 Inl e \<Rightarrow> (Inl e, m)
               | Inr True \<Rightarrow> decodeRegion actual (mi_crcDigest mi) m w
               | Inr False \<Rightarrow>
                   (case regionValid la (mi_lastCRCDigest mi) m w of
                      Inl e \<Rightarrow> (Inl e, m)
                    | Inr True \<Rightarrow>
                        decodeRegion la (mi_lastCRCDigest mi)
                          (m\<lparr>m_info := mi\<lparr>mi_actualSize := la, mi_crcDigest := mi_lastCRCDigest mi\<rparr>\<rparr>) w
                    | Inr False \<Rightarrow>
                        if m_recover m then salvage m w
                        else (Inr (), m\<lparr>m_dict := [], m_actualSize := 0, m_crcDigest := 0\<rparr>)))"

definition reloadBestEffort :: "bool \<Rightarrow> unit step" where
  "reloadBestEffort rm m w =
     (case (if rm then remap (m_data m) w else (Inr (), m_data m, w)) of
        (Inl e, d, w1) \<Rightarrow> (Inr (), m\<lparr>m_data := d, m_lastErr := Some e\<rparr>, w1)
      | (Inr _, d, w1) \<Rightarrow>
          (case loadData (m\<lparr>m_data := d\<rparr>) w1 of
             (Inr _, m1) \<Rightarrow> (Inr (), m1, w1)
           | (Inl e, m1) \<Rightarrow>
               if e = Panic then (Inl Panic, m1, w1) else (Inr (), m1\<lparr>m_lastErr := Some e\<rparr>, w1)))"

definition notifyChanged :: "mmkv \<Rightarrow> os \<Rightarrow> os" where
  "notifyChanged m w = (if m_onContentChanged m then w\<lparr>notified := notified w + 1\<rparr> else w)"

definition checkLoadData :: "unit step" where
  "checkLoadData m w =
     (if m_needLoad m then reloadBestEffort True (m\<lparr>m_needLoad := False\<rparr>) w
      else if \<not> m_multiProcess m then (Inr (), m, w)
      else (case parseMeta (memory (m_meta m) w) of
              Inl e \<Rightarrow> (Inr (), m\<lparr>m_lastErr := Some e\<rparr>, w)
            | Inr live \<Rightarrow>
                if mi_sequence live \<noteq> mi_sequence (m_info m)
                then (case reloadBestEffort True m w of
                        (Inl e, m1, w1) \<Rightarrow> (Inl e, m1, w1)
                      | (Inr _, m1, w1) \<Rightarrow> (Inr (), m1, notifyChanged m1 w1))
                else if mi_crcDigest live \<noteq> m_crcDigest m \<or> mi_actualSize live \<noteq> m_actualSize m
                then (case reloadBestEffort False m w of
                        (Inl e, m1, w1) \<Rightarrow> (Inl e, m1, w1)
                      | (Inr _, m1, w1) \<Rightarrow> (Inr (), m1, notifyChanged m1 w1))
                else (Inr (), m, w)))"

section \<open>Reading values\<close>

definition mmkv_value :: "bytes \<Rightarrow> mmkv \<Rightarrow> os \<Rightarrow> goerr + slice option" where
  "mmkv_value key m w =
     (case gm_get (m_dict m) key of
        None \<Rightarrow> Inr None
      | Some v \<Rightarrow>
          if m_enableExpire m \<and> slice_len v \<ge> 4
          then (case deref (m_data m) w (subslice (slice_len v - 4) (slice_len v) v) of
                  Inl e \<Rightarrow> Inl e
                | Inr tb \<Rightarrow>
                    let t = getUint32 tb
                    in if t \<noteq> 0 \<and> t \<le> nowUnix w then Inr None
                       else Inr (Some (subslice 0 (slice_len v - 4) v)))
          else Inr (Some v))"

definition bytesValue :: "bytes \<Rightarrow> mmkv \<Rightarrow> os \<Rightarrow> goerr + slice option" where
  "bytesValue key m w =
     (case mmkv_value key m w of
        Inl e \<Rightarrow> Inl e
      | Inr None \<Rightarrow> Inr None
      | Inr (Some v) \<Rightarrow>
          (case deref (m_data m) w v of
             Inl e \<Rightarrow> Inl e
           | Inr b \<Rightarrow>
               (case fst (readView (newCodedInput b)) of
                  Inl _ \<Rightarrow> Inr None
                | Inr (off, n) \<Rightarrow> Inr (Some (subslice off (off + n) v)))))"

text \<open>The common frame of the read operations: shared lock, closed check, freshness check.\<close>

definition readOp :: "'a \<Rightarrow> (mmkv \<Rightarrow> os \<Rightarrow> goerr + 'a) \<Rightarrow> 'a op" where
  "readOp closedResult body =
     withShared (\<lambda>m w.
       if m_closed m then (Inr closedResult, m, w)
       else (case checkLoadData m w of
               (Inl e, m1, w1) \<Rightarrow> (Inl e, m1, w1)
             | (Inr _, m1, w1) \<Rightarrow> (body m1 w1, m1, w1)))"

definition scalarValue ::
    "(codedInput \<Rightarrow> (goerr + 'a) \<times> codedInput) \<Rightarrow> bytes \<Rightarrow> mmkv \<Rightarrow> os \<Rightarrow> goerr + 'a option" where
  "scalarValue reader key m w =
     (case mmkv_value key m w of
        Inl e \<Rightarrow> Inl e
      | Inr None \<Rightarrow> Inr None
      | Inr (Some v) \<Rightarrow>
          (case deref (m_data m) w v of
             Inl e \<Rightarrow> Inl e
           | Inr b \<Rightarrow> (case fst (reader (newCodedInput b)) of Inl _ \<Rightarrow> Inr None | Inr x \<Rightarrow> Inr (Some x))))"

definition GetBool :: "bytes \<Rightarrow> bool option op" where
  "GetBool key = readOp None (scalarValue readBool key)"

definition GetInt32 :: "bytes \<Rightarrow> u32 option op" where
  "GetInt32 key = readOp None (scalarValue readInt32 key)"

definition GetInt64 :: "bytes \<Rightarrow> u64 option op" where
  "GetInt64 key = readOp None (scalarValue readVarint64 key)"

definition GetUInt32 :: "bytes \<Rightarrow> u32 option op" where
  "GetUInt32 key = readOp None (scalarValue readUInt32 key)"

definition GetUInt64 :: "bytes \<Rightarrow> u64 option op" where
  "GetUInt64 key = readOp None (scalarValue readVarint64 key)"

definition GetFloat32 :: "bytes \<Rightarrow> u32 option op" where
  "GetFloat32 key = readOp None (scalarValue readFixed32 key)"

definition GetFloat64 :: "bytes \<Rightarrow> u64 option op" where
  "GetFloat64 key = readOp None (scalarValue readFixed64 key)"

definition GetBytes :: "bytes \<Rightarrow> slice option op" where
  "GetBytes key = readOp None (bytesValue key)"

text \<open>The bytes behind the view, copied while the lock is held.\<close>

definition bytesCopy :: "bytes \<Rightarrow> mmkv \<Rightarrow> os \<Rightarrow> goerr + bytes option" where
  "bytesCopy key m w =
     (case bytesValue key m w of
        Inl e \<Rightarrow> Inl e
      | Inr None \<Rightarrow> Inr None
      | Inr (Some v) \<Rightarrow> (case deref (m_data m) w v of Inl e \<Rightarrow> Inl e | Inr b \<Rightarrow> Inr (Some b)))"

definition GetBytesCopy :: "bytes \<Rightarrow> bytes option op" where
  "GetBytesCopy key = readOp None (bytesCopy key)"

definition GetString :: "bytes \<Rightarrow> slice option op" where
  "GetString key =
     readOp None (\<lambda>m w.
       case bytesValue key m w of
         Inl e \<Rightarrow> Inl e
       | Inr None \<Rightarrow> Inr None
       | Inr (Some v) \<Rightarrow> Inr (Some (if slice_len v = 0 then Heap [] else v)))"

definition GetStringCopy :: "bytes \<Rightarrow> bytes option op" where
  "GetStringCopy key = readOp None (bytesCopy key)"

definition GetStringSlice :: "bytes \<Rightarrow> bytes list option op" where
  "GetStringSlice key =
     readOp None (\<lambda>m w.
       case bytesCopy key m w of
         Inl e \<Rightarrow> Inl e
       | Inr None \<Rightarrow> Inr None
       | Inr (Some items) \<Rightarrow> Inr (Some (decodeStringSlice items)))"

text \<open>\<open>None\<close> is the result -1.\<close>

definition GetValueSize :: "bytes \<Rightarrow> nat option op" where
  "GetValueSize key =
     readOp None (\<lambda>m w.
       case mmkv_value key m w of
         Inl e \<Rightarrow> Inl e
       | Inr v \<Rightarrow> Inr (map_option slice_len v))"

definition WriteValueToBuffer :: "bytes \<Rightarrow> bytes \<Rightarrow> (nat \<times> bytes) option op" where
  "WriteValueToBuffer key buf =
     readOp None (\<lambda>m w.
       case mmkv_value key m w of
         Inl e \<Rightarrow> Inl e
       | Inr None \<Rightarrow> Inr None
       | Inr (Some v) \<Rightarrow>
           if length buf < slice_len v then Inr None
           else (case deref (m_data m) w v of
                   Inl e \<Rightarrow> Inl e
                 | Inr b \<Rightarrow> Inr (Some (length b, overwrite 0 b buf))))"

definition Contains :: "bytes \<Rightarrow> bool op" where
  "Contains key =
     readOp False (\<lambda>m w. case mmkv_value key m w of Inl e \<Rightarrow> Inl e | Inr v \<Rightarrow> Inr (v \<noteq> None))"

fun liveKeys :: "bytes list \<Rightarrow> mmkv \<Rightarrow> os \<Rightarrow> goerr + bytes list" where
  "liveKeys [] m w = Inr []"
| "liveKeys (k # ks) m w =
     (case mmkv_value k m w of
        Inl e \<Rightarrow> Inl e
      | Inr v \<Rightarrow>
          (case liveKeys ks m w of
             Inl e \<Rightarrow> Inl e
           | Inr rest \<Rightarrow> Inr (if v = None then rest else k # rest)))"

definition Count :: "nat op" where
  "Count =
     readOp 0 (\<lambda>m w.
       if \<not> m_enableExpire m then Inr (length (m_dict m))
       else (case liveKeys (gm_keys (m_dict m)) m w of Inl e \<Rightarrow> Inl e | Inr ks \<Rightarrow> Inr (length ks)))"

definition AllKeys :: "bytes list op" where
  "AllKeys =
     readOp [] (\<lambda>m w.
       case liveKeys (gm_keys (m_dict m)) m w of Inl e \<Rightarrow> Inl e | Inr ks \<Rightarrow> Inr (sort_Strings ks))"

definition TotalSize :: "nat op" where
  "TotalSize = withShared (\<lambda>m w. (Inr (if m_closed m then 0 else fileSize (m_data m)), m, w))"

definition ActualSize :: "nat op" where
  "ActualSize = readOp 0 (\<lambda>m w. Inr (unat (m_actualSize m)))"

definition ClearMemoryCache :: "mmkv \<Rightarrow> mmkv" where
  "ClearMemoryCache m =
     (if m_closed m then m
      else m\<lparr>m_dict := [], m_actualSize := 0, m_crcDigest := 0, m_needLoad := True\<rparr>)"

definition Err :: "mmkv \<Rightarrow> goerr option" where
  "Err m = m_lastErr m"

definition MmapID :: "mmkv \<Rightarrow> string" where
  "MmapID m = m_mmapID m"

definition RootDir :: "mmkv \<Rightarrow> string" where
  "RootDir m = m_rootDir m"

end
