(* ===== verification/MmkvIO.thy ===== *)
theory MmkvIO
  imports Mmkv
begin

text \<open>
  The write paths of \<^verbatim>\<open>mmkv_io.go\<close>: the append and override fast paths, the full write-back with its
  growth policy, removal, clearing, trimming and flushing, and the typed setters over them.  Stores
  go through the mappings (\<open>mem_put\<close>), so they are immediately the contents of the files.
\<close>

section \<open>Fast paths\<close>

text \<open>\<^verbatim>\<open>binary.LittleEndian.PutUint32\<close> of the running CRC and size into the mapped meta file.\<close>

definition putMeta :: "unit step" where
  "putMeta m w =
     (case mem_put (m_meta m) offCRC (putUint32 (m_crcDigest m)) w of
        Inl e \<Rightarrow> (Inl e, m, w)
      | Inr w1 \<Rightarrow>
          (case mem_put (m_meta m) offActualSize (putUint32 (m_actualSize m)) w1 of
             Inl e \<Rightarrow> (Inl e, m, w1)
           | Inr w2 \<Rightarrow> (Inr (), m, w2)))"

definition appendRaw :: "bytes \<Rightarrow> unit step" where
  "appendRaw pair m w =
     (case mem_put (m_data m) (4 + unat (m_actualSize m)) pair w of
        Inl e \<Rightarrow> (Inl e, m, w)
      | Inr w1 \<Rightarrow>
          let actual = m_actualSize m + of_nat (length pair);
              crc = crc32_Update (m_crcDigest m) pair
          in putMeta (m\<lparr>m_actualSize := actual, m_crcDigest := crc,
                        m_info := (m_info m)\<lparr>mi_actualSize := actual, mi_crcDigest := crc\<rparr>\<rparr>) w1)"

definition overrideRaw :: "bytes \<Rightarrow> bytes \<Rightarrow> nat \<Rightarrow> unit step" where
  "overrideRaw key pair blobLen m w =
     (let room = length (memory (m_data m) w) - 4;
          p = 4 + min room (length itemSizeHolderBytes)
      in case mem_copy (m_data m) 4 itemSizeHolderBytes w of
           Inl e \<Rightarrow> (Inl e, m, w)
         | Inr w1 \<Rightarrow>
             (case mem_copy (m_data m) p pair w1 of
                Inl e \<Rightarrow> (Inl e, m, w1)
              | Inr w2 \<Rightarrow>
                  let actual = of_nat (length itemSizeHolderBytes + length pair) :: u32
                  in case go_slice 4 (4 + unat actual) (memory (m_data m) w2) of
                       Inl e \<Rightarrow> (Inl e, m\<lparr>m_actualSize := actual\<rparr>, w2)
                     | Inr region \<Rightarrow>
                         let crc = crc32_ChecksumIEEE region;
                             m1 = m\<lparr>m_actualSize := actual, m_crcDigest := crc,
                                    m_info := (m_info m)\<lparr>mi_actualSize := actual, mi_crcDigest := crc\<rparr>\<rparr>;
                             blobStart = p + (length pair - blobLen)
                         in case putMeta m1 w2 of
                              (Inl e, m2, w3) \<Rightarrow> (Inl e, m2, w3)
                            | (Inr _, m2, w3) \<Rightarrow>
                                (case go_slice blobStart (blobStart + blobLen) (memory (m_data m2) w3) of
                                   Inl e \<Rightarrow> (Inl e, m2, w3)
                                 | Inr _ \<Rightarrow>
                                     (Inr (), m2\<lparr>m_dict := gm_put key
                                        (View (mf_gen (m_data m2)) blobStart blobLen) (m_dict m2)\<rparr>, w3))))"

section \<open>Full write-back\<close>

text \<open>\<^verbatim>\<open>rand.Read\<close> into a \<^verbatim>\<open>[16]byte\<close>: the next value of the random source.\<close>

definition randomIV :: "os \<Rightarrow> (goerr + bytes) \<times> os" where
  "randomIV w =
     (case syscall w of
        (False, w1) \<Rightarrow> (Inl ErrRand, w1)
      | (True, w1) \<Rightarrow>
          (case ivs w1 of
             [] \<Rightarrow> (Inr (replicate 16 0), w1)
           | iv # rest \<Rightarrow> (Inr (take 16 (iv @ replicate 16 0)), w1\<lparr>ivs := rest\<rparr>)))"

text \<open>The bytes of the dictionary, when every slice in it can be read.\<close>

definition dict_live :: "memoryFile \<Rightarrow> os \<Rightarrow> slice gomap \<Rightarrow> bool" where
  "dict_live mf w d \<longleftrightarrow> list_all (\<lambda>(k, s). \<not> isl (deref mf w s)) d"

definition dict_bytes :: "memoryFile \<Rightarrow> os \<Rightarrow> slice gomap \<Rightarrow> bytes \<Rightarrow> bytes" where
  "dict_bytes mf w d k =
     (case gm_get d k of None \<Rightarrow> [] | Some s \<Rightarrow> (case deref mf w s of Inl _ \<Rightarrow> [] | Inr b \<Rightarrow> b))"

text \<open>
  The doubling loop of the growth policy.  \<open>newSize\<close> is at least 1 when it is entered.
\<close>

function growSize :: "nat \<Rightarrow> nat \<Rightarrow> nat" where
  "growSize target newSize =
     (if 0 < newSize \<and> target \<ge> newSize then growSize target (newSize * 2) else newSize)"
  by pat_completeness auto
termination
  by (relation "measure (\<lambda>(target, newSize). target + 1 - newSize)") auto

declare growSize.simps [simp del]

text \<open>The size the file must have for \<open>target\<close> bytes, and whether it must grow.\<close>

definition growTarget :: "bool \<Rightarrow> nat \<Rightarrow> nat \<Rightarrow> nat \<Rightarrow> nat \<Rightarrow> bool \<times> nat" where
  "growTarget needSync incoming payloadLen dictLen fsize =
     (let lenNeeded = 4 + payloadLen + incoming;
          grow = (lenNeeded \<ge> fsize)
      in if incoming > 0
         then let laterDicCount = max 1 (dictLen + 1);
                  avgItemSize = (lenNeeded + laterDicCount - 1) div laterDicCount;
                  futureUsage = avgItemSize * max 8 (laterDicCount div 2);
                  target = lenNeeded + futureUsage
              in (grow \<or> needSync \<and> target \<ge> fsize, target)
         else (grow, lenNeeded))"

text \<open>The payload: the plaintext region, or its encryption under a fresh IV.\<close>

definition sealRegion :: "bytes \<Rightarrow> bytes step" where
  "sealRegion region m w =
     (case m_crypt m of
        None \<Rightarrow> (Inr region, m, w)
      | Some a \<Rightarrow>
          (case randomIV w of
             (Inl e, w1) \<Rightarrow> (Inl e, m, w1)
           | (Inr iv, w1) \<Rightarrow>
               (case Encrypt a region iv of
                  Inl e \<Rightarrow> (Inl e, m, w1)
                | Inr ct \<Rightarrow> (Inr ct, m\<lparr>m_info := (m_info m)\<lparr>mi_iv := iv\<rparr>\<rparr>, w1))))"

definition growFile :: "bool \<Rightarrow> nat \<Rightarrow> nat \<Rightarrow> unit step" where
  "growFile needSync incoming payloadLen m w =
     (case growTarget needSync incoming payloadLen (length (m_dict m)) (fileSize (m_data m)) of
        (grow, target) \<Rightarrow>
          if grow
          then (case MemFile.truncate (growSize target (max 1 (fileSize (m_data m)))) (m_data m) w of
                  (r, d, w1) \<Rightarrow> (r, m\<lparr>m_data := d\<rparr>, w1))
          else (Inr (), m, w))"

text \<open>The stores of the write-back: header, payload, size, CRC and the whole meta record.\<close>

definition storeRegion :: "bytes \<Rightarrow> unit step" where
  "storeRegion payload m w =
     (case mem_put (m_data m) 0 (replicate 4 0) w of
        Inl e \<Rightarrow> (Inl e, m, w)
      | Inr w1 \<Rightarrow>
          (case mem_put (m_data m) 4 payload w1 of
             Inl e \<Rightarrow> (Inl e, m, w1)
           | Inr w2 \<Rightarrow>
               (case go_slice 4 (4 + length payload) (memory (m_data m) w2) of
                  Inl e \<Rightarrow> (Inl e, m, w2)
                | Inr region \<Rightarrow>
                    let actual = of_nat (length payload) :: u32;
                        crc = crc32_ChecksumIEEE region;
                        info = (m_info m)\<lparr>mi_sequence := mi_sequence (m_info m) + 1, mi_version := versionFlag,
                                 mi_actualSize := actual, mi_crcDigest := crc,
                                 mi_lastActualSize := actual, mi_lastCRCDigest := crc\<rparr>;
                        m1 = m\<lparr>m_actualSize := actual, m_crcDigest := crc, m_info := info\<rparr>
                    in case mem_copy (m_meta m1) 0 (marshal info) w2 of
                         Inl e \<Rightarrow> (Inl e, m1, w2)
                       | Inr w3 \<Rightarrow> (Inr (), m1, w3))))"

text \<open>Fresh views: of the plaintext buffer when encrypted, of the mapping otherwise.\<close>

definition rebuildDict :: "bytes \<Rightarrow> unit step" where
  "rebuildDict region m w =
     (case m_crypt m of
        Some _ \<Rightarrow>
          (case parseDict region of
             Inl e \<Rightarrow> (Inl e, m, w)
           | Inr d \<Rightarrow> (Inr (), m\<lparr>m_dict := heap_views region d, m_needFullWriteback := False\<rparr>, w))
      | None \<Rightarrow>
          (case go_slice 4 (4 + length region) (memory (m_data m) w) of
             Inl e \<Rightarrow> (Inl e, m, w)
           | Inr src \<Rightarrow>
               (case parseDict src of
                  Inl e \<Rightarrow> (Inl e, m, w)
                | Inr d \<Rightarrow> (Inr (), m\<lparr>m_dict := mapped_views (mf_gen (m_data m)) d,
                                   m_needFullWriteback := False\<rparr>, w))))"

definition msyncBoth :: "bool \<Rightarrow> unit step" where
  "msyncBoth sync m w =
     (case msync sync (m_data m) w of
        (Inl e, w1) \<Rightarrow> (Inl e, m, w1)
      | (Inr _, w1) \<Rightarrow> (case msync sync (m_meta m) w1 of (r, w2) \<Rightarrow> (r, m, w2)))"

text \<open>Go's statement sequencing with early return on error.\<close>

definition andThen :: "'a step \<Rightarrow> ('a \<Rightarrow> 'b step) \<Rightarrow> 'b step" where
  "andThen f g m w = (case f m w of (Inl e, m1, w1) \<Rightarrow> (Inl e, m1, w1) | (Inr x, m1, w1) \<Rightarrow> g x m1 w1)"

definition fullWritebackGrow :: "bool \<Rightarrow> nat \<Rightarrow> unit step" where
  "fullWritebackGrow needSync incoming m w =
     (if \<not> dict_live (m_data m) w (m_dict m) then (Inl Panic, m, w)
      else
        let keys = sort_Strings (gm_keys (m_dict m));
            region = encodeRegion keys (dict_bytes (m_data m) w (m_dict m))
        in andThen (sealRegion region) (\<lambda>payload.
           andThen (growFile needSync incoming (length payload)) (\<lambda>_.
           andThen (storeRegion payload) (\<lambda>_.
           andThen (rebuildDict region) (\<lambda>_.
           if needSync then msyncBoth True else (\<lambda>m w. (Inr (), m, w)))))) m w)"

definition fullWriteback :: "unit step" where
  "fullWriteback = fullWritebackGrow True 0"

section \<open>Setting a value\<close>

definition setBlob :: "bytes \<Rightarrow> bytes \<Rightarrow> unit step" where
  "setBlob key blob m w =
     (let wasEmpty = (length (m_dict m) = 0);
          pair = writeData blob (writeData key []);
          fastOK = (Option.is_none (m_crypt m) \<and> \<not> m_needFullWriteback m \<and> mi_version (m_info m) \<ge> versionFlag)
      in if fastOK \<and> \<not> m_multiProcess m \<and>
            4 + length itemSizeHolderBytes + length pair \<le> fileSize (m_data m) \<and>
            (gm_get (m_dict m) key \<noteq> None \<and> length (m_dict m) = 1 \<or> wasEmpty \<and> m_actualSize m > 0)
         then overrideRaw key pair (length blob) m w
         else if fastOK \<and>
            int (length pair) \<le> int (fileSize (m_data m)) - 4 - int (unat (m_actualSize m)) \<and>
            length (m_dict m) > 0
         then let blobStart = 4 + unat (m_actualSize m) + (length pair - length blob)
              in case appendRaw pair m w of
                   (Inl e, m1, w1) \<Rightarrow> (Inl e, m1, w1)
                 | (Inr _, m1, w1) \<Rightarrow>
                     (case go_slice blobStart (blobStart + length blob) (memory (m_data m1) w1) of
                        Inl e \<Rightarrow> (Inl e, m1, w1)
                      | Inr _ \<Rightarrow>
                          (Inr (), m1\<lparr>m_dict := gm_put key (View (mf_gen (m_data m1)) blobStart (length blob))
                                             (m_dict m1)\<rparr>, w1))
         else fullWritebackGrow (\<not> wasEmpty) (length pair)
                (m\<lparr>m_dict := gm_put key (Heap blob) (m_dict m)\<rparr>) w)"

definition appendExpire :: "bytes \<Rightarrow> u32 \<Rightarrow> os \<Rightarrow> bytes" where
  "appendExpire blob seconds w =
     blob @ putUint32 (if seconds \<noteq> 0 then nowUnix w + seconds else 0)"

text \<open>\<^verbatim>\<open>bytes.Equal(old, blob)\<close> reads the stored slice only when the lengths agree.\<close>

definition setValueLocked :: "bytes \<Rightarrow> bytes \<Rightarrow> unit step" where
  "setValueLocked key blob m w =
     (let same = (if m_compareBeforeSet m \<and> \<not> m_enableExpire m
                  then (case gm_get (m_dict m) key of
                          None \<Rightarrow> Inr False
                        | Some old \<Rightarrow>
                            if slice_len old = length blob
                            then (case deref (m_data m) w old of Inl e \<Rightarrow> Inl e | Inr b \<Rightarrow> Inr (b = blob))
                            else Inr False)
                  else Inr False)
      in case same of
           Inl e \<Rightarrow> (Inl e, m, w)
         | Inr True \<Rightarrow> (Inr (), m, w)
         | Inr False \<Rightarrow>
             setBlob key (if m_enableExpire m then appendExpire blob (m_expiredSeconds m) w else blob) m w)"

text \<open>The common frame of the write operations.\<close>

definition writeOp :: "'a step \<Rightarrow> 'a op" where
  "writeOp body =
     withExclusive (\<lambda>m w.
       if m_closed m then (Inl ErrClosed, m, w)
       else if m_readOnly m then (Inl ErrReadOnly, m, w)
       else andThen checkLoadData (\<lambda>_. body) m w)"

definition setValue :: "bytes \<Rightarrow> bytes \<Rightarrow> unit op" where
  "setValue key blob = writeOp (setValueLocked key blob)"

definition SetBool :: "bytes \<Rightarrow> bool \<Rightarrow> unit op" where
  "SetBool key v = setValue key (boolBlob v)"

definition SetInt32 :: "bytes \<Rightarrow> u32 \<Rightarrow> unit op" where
  "SetInt32 key v = setValue key (int32Blob v)"

definition SetInt64 :: "bytes \<Rightarrow> u64 \<Rightarrow> unit op" where
  "SetInt64 key v = setValue key (int64Blob v)"

definition SetUInt32 :: "bytes \<Rightarrow> u32 \<Rightarrow> unit op" where
  "SetUInt32 key v = setValue key (uint32Blob v)"

definition SetUInt64 :: "bytes \<Rightarrow> u64 \<Rightarrow> unit op" where
  "SetUInt64 key v = setValue key (uint64Blob v)"

definition SetFloat32 :: "bytes \<Rightarrow> u32 \<Rightarrow> unit op" where
  "SetFloat32 key v = setValue key (float32Blob v)"

definition SetFloat64 :: "bytes \<Rightarrow> u64 \<Rightarrow> unit op" where
  "SetFloat64 key v = setValue key (float64Blob v)"

definition SetString :: "bytes \<Rightarrow> bytes \<Rightarrow> unit op" where
  "SetString key v = setValue key (stringBlob v)"

definition SetBytes :: "bytes \<Rightarrow> bytes \<Rightarrow> unit op" where
  "SetBytes key v = setValue key (bytesBlob v)"

definition SetStringSlice :: "bytes \<Rightarrow> bytes list \<Rightarrow> unit op" where
  "SetStringSlice key v = setValue key (stringSliceBlob v)"

section \<open>Removing, clearing, trimming, flushing\<close>

definition removeLocked :: "bytes \<Rightarrow> unit step" where
  "removeLocked key m0 w =
     (if gm_get (m_dict m0) key = None then (Inr (), m0, w)
      else
        let m = m0\<lparr>m_dict := gm_del key (m_dict m0)\<rparr>;
            tomb = writeData [] (writeData key [])
        in if int (length tomb) \<le> int (fileSize (m_data m)) - 4 - int (unat (m_actualSize m)) \<and>
              mi_version (m_info m) \<ge> versionFlag \<and> m_actualSize m > 0 \<and> \<not> m_needFullWriteback m
           then appendRaw tomb m w
           else fullWriteback m w)"

definition RemoveValueForKey :: "bytes \<Rightarrow> unit op" where
  "RemoveValueForKey key = writeOp (removeLocked key)"

definition removeKeysLocked :: "bytes list \<Rightarrow> unit step" where
  "removeKeysLocked keys m w =
     (case fold (\<lambda>k (d, removed). if gm_get d k \<noteq> None then (gm_del k d, True) else (d, removed))
             keys (m_dict m, False) of
        (d, removed) \<Rightarrow>
          if \<not> removed then (Inr (), m, w) else fullWriteback (m\<lparr>m_dict := d\<rparr>) w)"

definition RemoveValuesForKeys :: "bytes list \<Rightarrow> unit op" where
  "RemoveValuesForKeys keys = writeOp (removeKeysLocked keys)"

definition clearAllLocked :: "unit step" where
  "clearAllLocked m0 w =
     (case MemFile.truncate 0 (m_data m0) w of
        (Inl e, d, w1) \<Rightarrow> (Inl e, m0\<lparr>m_data := d\<rparr>, w1)
      | (Inr _, d, w1) \<Rightarrow>
          (case mem_put d 0 (replicate 4 0) w1 of
             Inl e \<Rightarrow> (Inl e, m0\<lparr>m_data := d\<rparr>, w1)
           | Inr w2 \<Rightarrow>
               let info = (m_info m0)\<lparr>mi_sequence := mi_sequence (m_info m0) + 1, mi_version := versionFlag,
                            mi_actualSize := 0, mi_crcDigest := 0,
                            mi_lastActualSize := 0, mi_lastCRCDigest := 0\<rparr>;
                   m = m0\<lparr>m_data := d, m_dict := [], m_actualSize := 0, m_crcDigest := 0, m_info := info\<rparr>
               in case mem_copy (m_meta m) 0 (marshal info) w2 of
                    Inl e \<Rightarrow> (Inl e, m, w2)
                  | Inr w3 \<Rightarrow> msyncBoth True (m\<lparr>m_needFullWriteback := False\<rparr>) w3))"

definition ClearAll :: "unit op" where
  "ClearAll = writeOp clearAllLocked"

fun shrinkSize :: "nat \<Rightarrow> nat \<Rightarrow> nat" where
  "shrinkSize limit target = (if target > limit then shrinkSize limit (target div 2) else target)"

declare shrinkSize.simps [simp del]

definition trimLocked :: "unit step" where
  "trimLocked m0 w0 =
     (if m_actualSize m0 = 0 then clearAllLocked m0 w0
      else andThen fullWriteback (\<lambda>_ m w.
        let floor = pageRoundUp (pagesize w) 0;
            target = max (shrinkSize ((unat (m_actualSize m) + 4) * 2) (fileSize (m_data m))) floor
        in if target \<ge> fileSize (m_data m) then (Inr (), m, w)
           else (case MemFile.truncate target (m_data m) w of
                   (Inl e, d, w1) \<Rightarrow> (Inl e, m\<lparr>m_data := d\<rparr>, w1)
                 | (Inr _, d, w1) \<Rightarrow>
                     (case decodeRegion (m_actualSize m) (m_crcDigest m) (m\<lparr>m_data := d\<rparr>) w1 of
                        (Inl e, m1) \<Rightarrow> (Inl e, m1, w1)
                      | (Inr _, m1) \<Rightarrow> (case msync True (m_meta m1) w1 of (r, w2) \<Rightarrow> (r, m1, w2))))) m0 w0)"

definition Trim :: "unit op" where
  "Trim = writeOp trimLocked"

definition syncFlush :: "bool \<Rightarrow> unit op" where
  "syncFlush sync =
     withExclusive (\<lambda>m w.
       if m_closed m then (Inl ErrClosed, m, w)
       else if m_readOnly m then (Inr (), m, w)
       else msyncBoth sync m w)"

definition Sync :: "unit op" where
  "Sync = syncFlush True"

definition Async :: "unit op" where
  "Async = syncFlush False"

end
