(* ===== verification/StoreInv.thy ===== *)
theory StoreInv
  imports MmkvIO
begin

text \<open>
  The invariant of an open instance and how loading and the three write primitives relate to it.
  \<open>on_disk\<close> says what the two files hold: a valid meta record and a region that is the log \<open>ps\<close>.
  \<open>loaded\<close> adds that the in-memory dictionary denotes the replay of that log, through slices of the
  live mapping.  The abstract state of a store is the map \<open>content\<close>.
\<close>

section \<open>Content\<close>

definition dict_map :: "memoryFile \<Rightarrow> os \<Rightarrow> slice gomap \<Rightarrow> (bytes \<rightharpoonup> bytes)" where
  "dict_map mf w d =
     (\<lambda>k. case gm_get d k of
            None \<Rightarrow> None
          | Some s \<Rightarrow> (case deref mf w s of Inl _ \<Rightarrow> None | Inr b \<Rightarrow> Some b))"

definition content :: "mmkv \<Rightarrow> os \<Rightarrow> (bytes \<rightharpoonup> bytes)" where
  "content m w = dict_map (m_data m) w (m_dict m)"

definition plain_region :: "block option \<Rightarrow> bytes \<Rightarrow> bytes \<Rightarrow> goerr + bytes" where
  "plain_region c iv region = (case c of None \<Rightarrow> Inr region | Some a \<Rightarrow> Decrypt a region iv)"

text \<open>A region holds a log: it is empty, or it is the (encrypted) item-size holder and the pairs.\<close>

definition region_log :: "block option \<Rightarrow> bytes \<Rightarrow> bytes \<Rightarrow> kvlog \<Rightarrow> bool" where
  "region_log c iv region ps \<longleftrightarrow>
     region = [] \<and> ps = [] \<or> log_ok ps \<and> plain_region c iv region = Inr (log_region ps)"

definition disk_actual :: "metaInfo \<Rightarrow> bytes \<Rightarrow> u32" where
  "disk_actual mi D = (if mi_version mi \<ge> versionActualSize then mi_actualSize mi else getUint32 D)"

definition region_at :: "u32 \<Rightarrow> bytes \<Rightarrow> bytes" where
  "region_at actual D = take (unat actual) (drop 4 D)"

definition in_file :: "u32 \<Rightarrow> bytes \<Rightarrow> bool" where
  "in_file actual D \<longleftrightarrow> 4 + unat actual \<le> length D \<and> 4 + unat actual < 2 ^ 32"

definition on_disk :: "block option \<Rightarrow> bytes \<Rightarrow> bytes \<Rightarrow> metaInfo \<Rightarrow> kvlog \<Rightarrow> bool" where
  "on_disk c D M mi ps \<longleftrightarrow>
     parseMeta M = Inr mi \<and> mi_version mi \<le> maxSupportedVersion \<and> in_file (disk_actual mi D) D \<and>
     crc32_ChecksumIEEE (region_at (disk_actual mi D) D) = mi_crcDigest mi \<and>
     region_log c (mi_iv mi) (region_at (disk_actual mi D) D) ps"

abbreviation data_file :: "mmkv \<Rightarrow> os \<Rightarrow> bytes" where
  "data_file m w \<equiv> files w (mf_ino (m_data m))"

abbreviation meta_file :: "mmkv \<Rightarrow> os \<Rightarrow> bytes" where
  "meta_file m w \<equiv> files w (mf_ino (m_meta m))"

text \<open>A dictionary slice is heap memory or lies inside the first \<open>n\<close> bytes of the live region.\<close>

fun slice_ok :: "memoryFile \<Rightarrow> nat \<Rightarrow> slice \<Rightarrow> bool" where
  "slice_ok mf n (Heap b) \<longleftrightarrow> True"
| "slice_ok mf n (View g off len) \<longleftrightarrow> g = mf_gen mf \<and> 4 \<le> off \<and> off + len \<le> 4 + n"

definition dict_in :: "memoryFile \<Rightarrow> nat \<Rightarrow> slice gomap \<Rightarrow> bool" where
  "dict_in mf n d \<longleftrightarrow> gm_inv d \<and> (\<forall>k s. gm_get d k = Some s \<longrightarrow> slice_ok mf n s)"

text \<open>The in-memory meta data agree with the files, which hold the log \<open>ps\<close>.\<close>

definition synced :: "mmkv \<Rightarrow> os \<Rightarrow> kvlog \<Rightarrow> bool" where
  "synced m w ps \<longleftrightarrow>
     mf_mapped (m_data m) w \<and> mf_mapped (m_meta m) w \<and>
     on_disk (m_crypt m) (data_file m w) (meta_file m w) (m_info m) ps \<and>
     m_actualSize m = disk_actual (m_info m) (data_file m w) \<and>
     m_crcDigest m = mi_crcDigest (m_info m) \<and>
     m_enableExpire m = (mi_version (m_info m) \<ge> versionFlag \<and> expireEnabled (m_info m))"

definition loaded :: "mmkv \<Rightarrow> os \<Rightarrow> kvlog \<Rightarrow> bool" where
  "loaded m w ps \<longleftrightarrow>
     synced m w ps \<and> dict_in (m_data m) (unat (m_actualSize m)) (m_dict m) \<and> content m w = log_map ps"

text \<open>What a writable instance needs of its mappings and of the operating system.\<close>

definition writable :: "mmkv \<Rightarrow> os \<Rightarrow> bool" where
  "writable m w \<longleftrightarrow>
     mf_ok (m_data m) w \<and> mf_ok (m_meta m) w \<and> mf_ino (m_data m) \<noteq> mf_ino (m_meta m) \<and>
     metaSize \<le> mf_size (m_meta m) \<and> 4 \<le> mf_size (m_data m) \<and> 4 \<le> pagesize w \<and> faults w = [] \<and>
     \<not> m_closed m \<and> \<not> m_readOnly m \<and> \<not> m_needLoad m"

text \<open>The expiration flag of the record is only set in records that define it (version 4).\<close>

definition store_inv :: "mmkv \<Rightarrow> os \<Rightarrow> kvlog \<Rightarrow> bool" where
  "store_inv m w ps \<longleftrightarrow> writable m w \<and> loaded m w ps \<and> \<not> m_needFullWriteback m \<and>
     m_enableExpire m = expireEnabled (m_info m)"

text \<open>What the write paths leave alone, in the instance and in the system.\<close>

definition same_config :: "mmkv \<Rightarrow> mmkv \<Rightarrow> bool" where
  "same_config m m' \<longleftrightarrow>
     m_multiProcess m' = m_multiProcess m \<and> m_readOnly m' = m_readOnly m \<and> m_fl m' = m_fl m \<and>
     m_meta m' = m_meta m \<and> m_crypt m' = m_crypt m \<and> m_needLoad m' = m_needLoad m \<and>
     m_closed m' = m_closed m \<and> m_lastErr m' = m_lastErr m \<and> m_enableExpire m' = m_enableExpire m \<and>
     m_expiredSeconds m' = m_expiredSeconds m \<and> m_compareBeforeSet m' = m_compareBeforeSet m \<and>
     m_onContentChanged m' = m_onContentChanged m \<and> m_recover m' = m_recover m \<and>
     mf_ino (m_data m') = mf_ino (m_data m) \<and> mf_ofd (m_data m') = mf_ofd (m_data m) \<and>
     mf_open (m_data m') = mf_open (m_data m) \<and> mi_flags (m_info m') = mi_flags (m_info m)"

definition os_frame :: "nat set \<Rightarrow> os \<Rightarrow> os \<Rightarrow> bool" where
  "os_frame is w w' \<longleftrightarrow>
     (\<forall>i. i \<notin> is \<longrightarrow> files w' i = files w i) \<and> dirent w' = dirent w \<and> nextIno w' = nextIno w \<and>
     nextOfd w' = nextOfd w \<and> flocks w' = flocks w \<and> faults w' = faults w \<and> nowUnix w' = nowUnix w \<and>
     notified w' = notified w \<and> pagesize w' = pagesize w \<and> closedOfds w' = closedOfds w \<and> cwd w' = cwd w"

lemma same_config_refl [simp]: "same_config m m"
  by (simp add: same_config_def)

lemma same_config_trans: "same_config m m1 \<Longrightarrow> same_config m1 m2 \<Longrightarrow> same_config m m2"
  by (simp add: same_config_def)

lemma os_frame_refl [simp]: "os_frame is w w"
  by (simp add: os_frame_def)

lemma os_frame_files: "(\<And>i. i \<notin> is \<Longrightarrow> f i = files w i) \<Longrightarrow> os_frame is w (w\<lparr>files := f\<rparr>)"
  by (simp add: os_frame_def)

lemma os_frame_set_file: "i \<in> is \<Longrightarrow> os_frame is w (set_file i b w)"
  by (auto simp: os_frame_def)

lemma os_frame_mono: "os_frame is w w' \<Longrightarrow> is \<subseteq> js \<Longrightarrow> os_frame js w w'"
  by (auto simp: os_frame_def)

lemma os_frame_trans: "os_frame is w w1 \<Longrightarrow> os_frame is w1 w2 \<Longrightarrow> os_frame is w w2"
  by (simp add: os_frame_def)

section \<open>Slices of the mapping\<close>

lemma dict_map_Nil [simp]: "dict_map mf w [] = Map.empty"
  by (simp add: dict_map_def fun_eq_iff)

lemma dict_map_del: "dict_map mf w (gm_del k d) = (dict_map mf w d)(k := None)"
  by (auto simp: dict_map_def gm.get_del fun_eq_iff)

lemma dict_map_put:
  "deref mf w s = Inr b \<Longrightarrow> dict_map mf w (gm_put k s d) = (dict_map mf w d)(k \<mapsto> b)"
  by (auto simp: dict_map_def gm.get_put fun_eq_iff)

lemma dict_in_Nil [simp]: "dict_in mf n []"
  by (simp add: dict_in_def gm.inv_empty)

lemma dict_in_put: "dict_in mf n d \<Longrightarrow> slice_ok mf n s \<Longrightarrow> dict_in mf n (gm_put k s d)"
  by (auto simp: dict_in_def gm.get_put gm.inv_put split: if_splits)

lemma dict_in_del: "dict_in mf n d \<Longrightarrow> dict_in mf n (gm_del k d)"
  by (auto simp: dict_in_def gm.get_del gm.inv_del split: if_splits)

lemma slice_ok_mono: "slice_ok mf n s \<Longrightarrow> n \<le> n' \<Longrightarrow> slice_ok mf n' s"
  by (cases s) auto

lemma dict_in_mono: "dict_in mf n d \<Longrightarrow> n \<le> n' \<Longrightarrow> dict_in mf n' d"
  unfolding dict_in_def using slice_ok_mono by blast

text \<open>The bytes of a slice are determined by the region it lies in.\<close>

fun slice_bytes :: "bytes \<Rightarrow> slice \<Rightarrow> bytes" where
  "slice_bytes R (Heap b) = b"
| "slice_bytes R (View g off n) = take n (drop (off - 4) R)"

lemma deref_slice_ok:
  assumes "mf_mapped mf w" "4 + n \<le> mf_size mf" "slice_ok mf n s"
  shows "deref mf w s = Inr (slice_bytes (take n (drop 4 (files w (mf_ino mf)))) s)"
proof (cases s)
  case (View g off len)
  then have "off + len \<le> length (files w (mf_ino mf))" "4 \<le> off" "off + len \<le> 4 + n" "g = mf_gen mf"
    using assms by (auto simp: mf_mapped_def)
  then show ?thesis
    using View memory_ok [OF assms(1)] by (simp add: go_slice_def drop_take min_def)
qed simp

lemma dict_in_live:
  assumes "mf_mapped mf w" "4 + n \<le> mf_size mf" "dict_in mf n d"
  shows "dict_live mf w d"
proof -
  have "\<not> isl (deref mf w s)" if "(k, s) \<in> set d" for k s
  proof -
    have "gm_get d k = Some s" using that assms(3) by (simp add: dict_in_def gm_get_def gm_inv_def)
    then show ?thesis using deref_slice_ok [OF assms(1,2)] assms(3) by (simp add: dict_in_def)
  qed
  then show ?thesis by (auto simp: dict_live_def list_all_iff)
qed

lemma dict_map_in:
  assumes "mf_mapped mf w" "4 + n \<le> mf_size mf" "dict_in mf n d"
  shows "dict_map mf w d =
    (\<lambda>k. map_option (slice_bytes (take n (drop 4 (files w (mf_ino mf))))) (gm_get d k))"
  using deref_slice_ok [OF assms(1,2)] assms(3)
  by (auto simp: dict_map_def dict_in_def fun_eq_iff split: option.split)

lemma dict_bytes_map:
  "dict_live mf w d \<Longrightarrow> k \<in> set (gm_keys d) \<Longrightarrow> gm_inv d \<Longrightarrow>
   dict_map mf w d k = Some (dict_bytes mf w d k)"
  by (auto simp: gm_keys_def dict_map_def dict_bytes_def gm_get_def gm_inv_def dict_live_def list_all_iff
      split: sum.split)
    (metis (no_types, lifting) case_prodD isl_def)

lemma dom_dict_map: "dict_live mf w d \<Longrightarrow> gm_inv d \<Longrightarrow> dom (dict_map mf w d) = set (gm_keys d)"
proof -
  assume a: "dict_live mf w d" "gm_inv d"
  have "k \<in> set (gm_keys d)" if "dict_map mf w d k = Some b" for k b
    using that by (auto simp: dict_map_def gm.set_keys split: option.splits)
  then show ?thesis using dict_bytes_map [OF a(1) _ a(2)] by blast
qed

lemma mapped_views_ok:
  assumes "mf_mapped mf w" "4 + n \<le> mf_size mf"
    and "views_ok (take n (drop 4 (files w (mf_ino mf)))) d"
  shows "dict_in mf n (mapped_views (mf_gen mf) d)"
    "dict_map mf w (mapped_views (mf_gen mf) d) = view_map (take n (drop 4 (files w (mf_ino mf)))) d"
proof -
  let ?R = "take n (drop 4 (files w (mf_ino mf)))"
  have len: "length ?R = n" using assms(1,2) by (simp add: mf_mapped_def)
  have get: "gm_get (mapped_views g d) k = map_option (\<lambda>v. View g (4 + fst v) (snd v)) (gm_get d k)" for g k
    by (simp add: mapped_views_def gm_get_map)
  show din: "dict_in mf n (mapped_views (mf_gen mf) d)"
    using assms(3) unfolding dict_in_def get
    by (auto simp: views_ok_def len mapped_views_def gm_inv_map)
  show "dict_map mf w (mapped_views (mf_gen mf) d) = view_map ?R d"
    unfolding dict_map_in [OF assms(1,2) din] view_map_def get
    by (auto simp: fun_eq_iff view_bytes_def option.map_comp comp_def intro!: option.map_cong)
qed

lemma heap_views_ok:
  assumes "gm_inv d"
  shows "dict_in mf n (heap_views plain d)" "dict_map mf w (heap_views plain d) = view_map plain d"
  using assms
  by (auto simp: heap_views_def dict_in_def gm_inv_map dict_map_def gm_get_map view_map_def
      fun_eq_iff split: option.split)

section \<open>Loading\<close>

lemma parseDict_Nil [simp]: "parseDict [] = Inr []"
  by (simp add: parseDict_def atEnd_def newCodedInput_def)

lemma unat_add4: "4 + unat a < 2 ^ 32 \<Longrightarrow> unat (4 + a) = 4 + unat (a :: u32)"
  using unat_add_lem [of "4 :: u32" a] by simp

lemma go_slice_region:
  assumes "mf_mapped mf w" "in_file actual (files w (mf_ino mf))"
  shows "go_slice 4 (unat (4 + actual)) (memory mf w) = Inr (region_at actual (files w (mf_ino mf)))"
  using assms by (simp add: memory_ok in_file_def go_slice_def region_at_def unat_add4)

text \<open>A region that holds a log decrypts, and parses to its replay.\<close>

lemma region_log_parse:
  assumes "length iv = 16" "region_log c iv R ps"
  obtains plain d where "plain_region c iv R = Inr plain" "parseDict plain = Inr d" "views_ok plain d"
    "view_map plain d = log_map ps"
proof (cases "R = [] \<and> ps = []")
  case True
  have "plain_region c iv R = Inr []"
    using assms(1) True by (simp add: plain_region_def Decrypt_def split: option.split)
  then show thesis using True by (intro that [of "[]" "[]"]) auto
next
  case False
  then have "log_ok ps" "plain_region c iv R = Inr (log_region ps)"
    using assms(2) by (auto simp: region_log_def)
  then show thesis
    using parseDict_log_region(1) [of ps] log_region_views [of ps "[]"] by (intro that) auto
qed

text \<open>Decoding a region that holds a log yields a live dictionary that denotes its replay.\<close>

lemma decodeRegion_log:
  assumes "mf_mapped (m_data m) w" "in_file actual (data_file m w)" "meta_wf (m_info m)"
    and "region_log (m_crypt m) (mi_iv (m_info m)) (region_at actual (data_file m w)) ps"
  obtains d where
    "decodeRegion actual crc m w = (Inr (), m\<lparr>m_dict := d, m_actualSize := actual, m_crcDigest := crc\<rparr>)"
    "dict_in (m_data m) (unat actual) d" "dict_map (m_data m) w d = log_map ps"
proof -
  let ?D = "data_file m w"
  let ?R = "region_at actual ?D"
  have size: "4 + unat actual \<le> mf_size (m_data m)"
    using assms(1,2) by (simp add: in_file_def mf_mapped_def)
  have iv: "length (mi_iv (m_info m)) = 16" using assms(3) by (simp add: meta_wf_def)
  obtain plain d where plain: "plain_region (m_crypt m) (mi_iv (m_info m)) ?R = Inr plain"
    and d: "parseDict plain = Inr d" "views_ok plain d" "view_map plain d = log_map ps"
    by (rule region_log_parse [OF iv assms(4)])
  note slice = go_slice_region [OF assms(1,2)]
  show thesis
  proof (cases "m_crypt m")
    case None
    then have "plain = ?R" using plain by (simp add: plain_region_def)
    then show thesis
      using None slice d mapped_views_ok [OF assms(1) size, of d]
      by (intro that [of "mapped_views (mf_gen (m_data m)) d"]) (auto simp: decodeRegion_def region_at_def)
  next
    case (Some a)
    then show thesis
      using slice d plain heap_views_ok [where plain = plain and d = d]
      by (intro that [of "heap_views plain d"]) (auto simp: decodeRegion_def plain_region_def views_ok_def)
  qed
qed

text \<open>The content of a pair of files is unique.\<close>

lemma on_disk_unique:
  assumes "on_disk c D M mi ps" "on_disk c D M mi ps'"
  shows "log_map ps = log_map ps'"
proof -
  let ?R = "region_at (disk_actual mi D) D"
  have l: "region_log c (mi_iv mi) ?R ps" "region_log c (mi_iv mi) ?R ps'" and iv: "length (mi_iv mi) = 16"
    using assms parseMeta_wf [of M mi] by (auto simp: on_disk_def meta_wf_def)
  have e: "plain_region c (mi_iv mi) [] = Inr []"
    using iv by (simp add: plain_region_def Decrypt_def split: option.split)
  have eq: "log_map qs = log_map qs'" if a: "log_ok qs" "log_ok qs'" "log_region qs = log_region qs'" for qs qs'
  proof -
    have "log_views 4 qs [] = log_views 4 qs' []"
      using parseDict_log_region(1) [OF a(1)] parseDict_log_region(1) [OF a(2)] unfolding a(3) by simp
    then show ?thesis
      using log_region_views(1) [OF a(1), of "[]"] log_region_views(1) [OF a(2), of "[]"] unfolding a(3) by simp
  qed
  have nonempty: "?R \<noteq> []" if "plain_region c (mi_iv mi) ?R = Inr (log_region qs)" for qs
    using that e log_region_nonempty [of qs] by (metis sum.inject(2))
  show ?thesis
  proof (cases "?R = []")
    case True
    then have "ps = []" "ps' = []" using l nonempty [of ps] nonempty [of ps'] unfolding region_log_def by blast+
    then show ?thesis by simp
  next
    case False
    then have "log_ok ps" "log_ok ps'" "log_region ps = log_region ps'" using l unfolding region_log_def by auto
    then show ?thesis by (rule eq)
  qed
qed

lemma regionValid_ok:
  assumes "mf_mapped (m_data m) w" "in_file actual (data_file m w)"
  shows "regionValid actual want m w =
    Inr (crc32_ChecksumIEEE (region_at actual (data_file m w)) = want)"
  using assms go_slice_region [OF assms]
  by (simp add: regionValid_def Let_def crcValid_def memory_ok in_file_def)

lemma readActualSize_disk:
  assumes "mf_mapped (m_data m) w" "4 \<le> length (data_file m w)"
  shows "readActualSize m w = disk_actual (m_info m) (data_file m w)"
  using assms by (simp add: readActualSize_def disk_actual_def memory_ok Let_def)

text \<open>Loading an instance from files that hold the log \<open>ps\<close>, whatever it had in memory.\<close>

lemma loadData_on_disk:
  assumes "mf_mapped (m_data m) w" "mf_mapped (m_meta m) w"
    and "on_disk (m_crypt m) (data_file m w) (meta_file m w) mi ps"
  obtains m' d where "loadData m w = (Inr (), m')"
    "m' = m\<lparr>m_info := mi, m_enableExpire := (mi_version mi \<ge> versionFlag \<and> expireEnabled mi),
            m_dict := d, m_actualSize := disk_actual mi (data_file m w), m_crcDigest := mi_crcDigest mi\<rparr>"
    "loaded m' w ps"
proof -
  let ?D = "data_file m w"
  let ?m = "m\<lparr>m_info := mi, m_enableExpire := (mi_version mi \<ge> versionFlag \<and> expireEnabled mi)\<rparr>"
  have pm: "parseMeta (memory (m_meta m) w) = Inr mi"
    using assms(2,3) by (simp add: on_disk_def memory_ok)
  have v: "mi_version mi \<le> maxSupportedVersion" and inf: "in_file (disk_actual mi ?D) ?D"
    and crc: "crc32_ChecksumIEEE (region_at (disk_actual mi ?D) ?D) = mi_crcDigest mi"
    and log: "region_log (m_crypt m) (mi_iv mi) (region_at (disk_actual mi ?D) ?D) ps"
    using assms(3) by (simp_all add: on_disk_def)
  have ras: "readActualSize ?m w = disk_actual mi ?D"
    using inf assms(1) by (subst readActualSize_disk) (simp_all add: in_file_def)
  have valid: "regionValid (disk_actual mi ?D) (mi_crcDigest mi) ?m w = Inr True"
    using inf assms(1) crc by (subst regionValid_ok) simp_all
  have wf: "meta_wf mi" using pm by (rule parseMeta_wf)
  obtain d where d: "decodeRegion (disk_actual mi ?D) (mi_crcDigest mi) ?m w =
      (Inr (), ?m\<lparr>m_dict := d, m_actualSize := disk_actual mi ?D, m_crcDigest := mi_crcDigest mi\<rparr>)"
    and ok: "dict_in (m_data ?m) (unat (disk_actual mi ?D)) d" "dict_map (m_data ?m) w d = log_map ps"
    using decodeRegion_log [of ?m w "disk_actual mi ?D" ps "mi_crcDigest mi"] assms(1) inf wf log
    by auto
  let ?m' = "?m\<lparr>m_dict := d, m_actualSize := disk_actual mi ?D, m_crcDigest := mi_crcDigest mi\<rparr>"
  have "loadData m w = (Inr (), ?m')"
    using pm v ras valid d by (simp add: loadData_def Let_def not_less [symmetric])
  moreover have "loaded ?m' w ps"
    using assms ok by (simp add: loaded_def synced_def content_def)
  ultimately show thesis by (intro that) auto
qed

section \<open>Appending\<close>

lemma set_file_twice [simp]: "set_file i b (set_file i a w) = set_file i b w"
  by (simp add: set_file_def)

lemma putMeta_ok:
  assumes "mf_ok (m_meta m) w" "metaSize \<le> mf_size (m_meta m)"
  shows "putMeta m w = (Inr (), m, set_file (mf_ino (m_meta m))
    (overwrite offActualSize (putUint32 (m_actualSize m))
      (overwrite offCRC (putUint32 (m_crcDigest m)) (meta_file m w))) w)"
proof -
  let ?w = "set_file (mf_ino (m_meta m)) (overwrite offCRC (putUint32 (m_crcDigest m)) (meta_file m w)) w"
  have 1: "mem_put (m_meta m) offCRC (putUint32 (m_crcDigest m)) w = Inr ?w"
    using assms by (intro mem_put_ok) (auto simp: meta_offsets)
  have "mf_ok (m_meta m) ?w"
    using assms by (intro mf_ok_put) (auto simp: meta_offsets)
  then have 2: "mem_put (m_meta m) offActualSize (putUint32 (m_actualSize m)) ?w =
      Inr (set_file (mf_ino (m_meta m)) (overwrite offActualSize (putUint32 (m_actualSize m))
        (files ?w (mf_ino (m_meta m)))) ?w)"
    using assms by (intro mem_put_ok) (auto simp: meta_offsets)
  show ?thesis by (simp add: putMeta_def 1 2)
qed

lemma length_region_at: "in_file a D \<Longrightarrow> length (region_at a D) = unat a"
  by (auto simp: in_file_def region_at_def)

lemma region_at_nonempty: "in_file a D \<Longrightarrow> a \<noteq> 0 \<Longrightarrow> region_at a D \<noteq> []"
  using length_region_at [of a D] by (auto simp: unat_eq_zero)

lemma versionFlag_actual: "versionFlag \<le> v \<Longrightarrow> versionActualSize \<le> v"
  by (rule order_trans [of _ versionFlag]) (simp_all add: meta_versions)

lemma writable_mapped: "writable m w \<Longrightarrow> mf_mapped (m_data m) w \<and> mf_mapped (m_meta m) w"
  by (simp add: writable_def mf_ok_def)

lemma region_log_plain:
  assumes "region_log None iv R ps" "R \<noteq> []"
  shows "log_ok ps" "R = log_region ps"
  using assms by (auto simp: region_log_def plain_region_def)

lemma region_log_plainI: "log_ok ps \<Longrightarrow> region_log None iv (log_region ps) ps"
  by (simp add: region_log_def plain_region_def)

text \<open>
  Appending a pair behind a plaintext region: the files then hold the longer log, and everything in
  the old region is untouched.
\<close>

lemma appendRaw_run:
  assumes "writable m w" "4 + unat (m_actualSize m) + length bs \<le> mf_size (m_data m)"
    and "actual = m_actualSize m + of_nat (length bs)" "crc = crc32_Update (m_crcDigest m) bs"
  shows "appendRaw bs m w =
    (Inr (), m\<lparr>m_actualSize := actual, m_crcDigest := crc,
               m_info := (m_info m)\<lparr>mi_actualSize := actual, mi_crcDigest := crc\<rparr>\<rparr>,
     set_file (mf_ino (m_meta m))
       (overwrite offActualSize (putUint32 actual) (overwrite offCRC (putUint32 crc) (meta_file m w)))
       (set_file (mf_ino (m_data m)) (overwrite (4 + unat (m_actualSize m)) bs (data_file m w)) w))"
    (is "_ = (_, ?m', ?w')")
proof -
  let ?w1 = "set_file (mf_ino (m_data m)) (overwrite (4 + unat (m_actualSize m)) bs (data_file m w)) w"
  have ok: "mf_ok (m_data m) w" "mf_ok (m_meta m) w" "mf_ino (m_data m) \<noteq> mf_ino (m_meta m)"
      "metaSize \<le> mf_size (m_meta m)"
    using assms(1) by (auto simp: writable_def)
  have "mem_put (m_data m) (4 + unat (m_actualSize m)) bs w = Inr ?w1"
    using ok(1) assms(2) by (intro mem_put_ok) auto
  moreover have "putMeta ?m' ?w1 = (Inr (), ?m', ?w')"
    using ok putMeta_ok [of ?m' ?w1] by (simp add: mf_ok_frame)
  ultimately show ?thesis by (simp add: appendRaw_def Let_def assms(3,4))
qed

lemma appendRaw_synced:
  assumes w: "writable m w" and s: "synced m w ps"
    and plain: "m_crypt m = None" "versionFlag \<le> mi_version (m_info m)" "m_actualSize m \<noteq> 0"
    and p: "pair_ok p" and fits: "4 + unat (m_actualSize m) + length (encode_pair p) \<le> mf_size (m_data m)"
    and small: "4 + unat (m_actualSize m) + length (encode_pair p) < 2 ^ 32"
  obtains m' w' actual crc where
    "appendRaw (encode_pair p) m w = (Inr (), m', w')"
    "m' = m\<lparr>m_actualSize := actual, m_crcDigest := crc,
            m_info := (m_info m)\<lparr>mi_actualSize := actual, mi_crcDigest := crc\<rparr>\<rparr>"
    "unat actual = unat (m_actualSize m) + length (encode_pair p)"
    "data_file m w' = overwrite (4 + unat (m_actualSize m)) (encode_pair p) (data_file m w)"
    "w' = w\<lparr>files := files w'\<rparr>" "os_frame {mf_ino (m_data m), mf_ino (m_meta m)} w w'"
    "writable m' w'" "synced m' w' (ps @ [p])"
proof -
  let ?a = "unat (m_actualSize m)" and ?bs = "encode_pair p" and ?D = "data_file m w"
  let ?actual = "m_actualSize m + of_nat (length ?bs)" and ?crc = "crc32_Update (m_crcDigest m) ?bs"
  let ?D' = "overwrite (4 + ?a) ?bs ?D"
  let ?M' = "overwrite offActualSize (putUint32 ?actual) (overwrite offCRC (putUint32 ?crc) (meta_file m w))"
  let ?m' = "m\<lparr>m_actualSize := ?actual, m_crcDigest := ?crc,
            m_info := (m_info m)\<lparr>mi_actualSize := ?actual, mi_crcDigest := ?crc\<rparr>\<rparr>"
  let ?w1 = "set_file (mf_ino (m_data m)) ?D' w"
  let ?w' = "set_file (mf_ino (m_meta m)) ?M' ?w1"
  have ok: "mf_ok (m_data m) w" "mf_ok (m_meta m) w" "mf_ino (m_data m) \<noteq> mf_ino (m_meta m)"
      "metaSize \<le> mf_size (m_meta m)"
    using w by (auto simp: writable_def)
  have len: "length ?D = mf_size (m_data m)" "length (meta_file m w) = mf_size (m_meta m)"
    using ok by (auto simp: mf_ok_def mf_mapped_def)
  have v: "versionActualSize \<le> mi_version (m_info m)"
    using plain(2) by (rule versionFlag_actual)
  have act: "m_actualSize m = mi_actualSize (m_info m)"
    using s v by (simp add: synced_def disk_actual_def)
  have ua: "unat ?actual = ?a + length ?bs"
    using small unat_add_lem [of "m_actualSize m" "of_nat (length ?bs)"]
    by (simp add: unat_of_nat_small)
  have reg: "region_at (m_actualSize m) ?D = log_region ps" and lok: "log_ok ps"
  proof -
    have "in_file (m_actualSize m) ?D" using s by (simp add: synced_def on_disk_def)
    then have "region_at (m_actualSize m) ?D \<noteq> []" using plain(3) by (rule region_at_nonempty)
    moreover have "region_log None (mi_iv (m_info m)) (region_at (m_actualSize m) ?D) ps"
      using s plain(1) by (simp add: synced_def on_disk_def)
    ultimately show "region_at (m_actualSize m) ?D = log_region ps" "log_ok ps"
      using region_log_plain by blast+
  qed
  have reg': "region_at ?actual ?D' = log_region (ps @ [p])"
    using fits len(1) reg ua
    by (simp add: region_at_def log_region_snoc take_drop_overwrite_extend)
  have crc: "?crc = crc32_ChecksumIEEE (log_region (ps @ [p]))"
    using s reg by (simp add: synced_def on_disk_def log_region_snoc crc32_incremental [symmetric])
  have pm: "parseMeta ?M' = Inr (m_info ?m')"
    using s parseMeta_put_crc_actual [of "meta_file m w" "m_info m" ?actual ?crc]
    by (simp add: synced_def on_disk_def)
  have run: "appendRaw ?bs m w = (Inr (), ?m', ?w')" by (rule appendRaw_run [OF w fits refl refl])
  have "mf_ok (m_data m) ?w'" "mf_ok (m_meta m) ?w'"
    using ok fits len by (auto simp: mf_ok_def mf_mapped_def meta_offsets)
  then have wr: "writable ?m' ?w'" using w by (simp add: writable_def)
  have sy: "synced ?m' ?w' (ps @ [p])"
    using s wr ok(3) v pm reg' crc ua small fits len lok p plain(1)
    by (simp add: synced_def on_disk_def writable_def mf_ok_def disk_actual_def in_file_def
        region_log_plainI expireEnabled_def)
  show thesis
    by (rule that [OF run refl ua _ _ _ wr sy]) (simp_all add: ok(3) os_frame_def set_file_def)
qed

section \<open>The full write-back\<close>

lemma growSize_gt: "0 < n \<Longrightarrow> target < growSize target n"
proof (induction target n rule: growSize.induct)
  case (1 target n)
  then show ?case by (subst growSize.simps) auto
qed

lemma growSize_least: "0 < n \<Longrightarrow> growSize target n \<le> max n (2 * target)"
proof (induction target n rule: growSize.induct)
  case (1 target n)
  then show ?case by (subst growSize.simps) (auto simp: max_def split: if_splits)
qed

lemma growTarget_len: "growTarget ns inc pl dl fs = (g, t) \<Longrightarrow> 4 + pl + inc \<le> t \<and> (\<not> g \<longrightarrow> 4 + pl + inc < fs)"
  by (auto simp: growTarget_def Let_def split: if_splits)

text \<open>The reserve for later pairs is at most eight times what is needed now, and the number of keys.\<close>

lemma growTarget_le:
  assumes "growTarget ns inc pl dl fs = (g, t)"
  shows "t \<le> 9 * (4 + pl + inc) + dl" "g \<Longrightarrow> fs \<le> t"
proof -
  let ?n = "4 + pl + inc"
  let ?avg = "(?n + dl) div (dl + 1)"
  have "?n + dl < Suc ?n * (dl + 1)" by (simp add: algebra_simps)
  then have "?avg < Suc ?n" by (simp add: less_mult_imp_div_less)
  then have "?avg * 8 \<le> 8 * ?n" by simp
  moreover have "?avg * ((dl + 1) div 2) \<le> ?avg * (dl + 1)" by (intro mult_le_mono) simp_all
  then have "?avg * ((dl + 1) div 2) \<le> ?n + dl" using div_times_less_eq_dividend [of "?n + dl" "dl + 1"] by linarith
  ultimately have "?avg * max 8 ((dl + 1) div 2) \<le> 8 * ?n + dl" by (auto simp: max_def)
  then show "t \<le> 9 * ?n + dl" using assms by (auto simp: growTarget_def Let_def add.assoc split: if_splits)
  show "g \<Longrightarrow> fs \<le> t" using assms by (auto simp: growTarget_def Let_def split: if_splits)
qed

lemma pageRoundUp_le: "0 < p \<Longrightarrow> pageRoundUp p n \<le> n + p"
  using pageRoundUp_spec [of p n] by (cases "n \<le> p") (auto simp: pageRoundUp_def)

lemma growth_le:
  assumes "growTarget ns inc pl dl fs = (g, t)" g "0 < p"
  shows "pageRoundUp p (growSize t (max 1 fs)) \<le> 18 * (4 + pl + inc) + 2 * dl + p"
proof -
  note t = growTarget_le [OF assms(1)] and l = growTarget_len [OF assms(1)]
  have "growSize t (max 1 fs) \<le> max (max 1 fs) (2 * t)" by (rule growSize_least) simp
  then have "growSize t (max 1 fs) \<le> 2 * t" using t(2) [OF assms(2)] l by auto
  then show ?thesis using pageRoundUp_le [OF assms(3), of "growSize t (max 1 fs)"] t(1) by linarith
qed

lemma growFile_ok:
  assumes "mf_ok (m_data m) w" "faults w = []" "0 < pagesize w"
  obtains d w' where "growFile ns inc pl m w = (Inr (), m\<lparr>m_data := d\<rparr>, w')"
    "mf_ok d w'" "mf_ino d = mf_ino (m_data m)" "mf_ofd d = mf_ofd (m_data m)" "mf_open d = mf_open (m_data m)"
    "4 + pl + inc < mf_size d" "mf_size (m_data m) \<le> mf_size d \<or> pagesize w \<le> mf_size d"
    "os_frame {mf_ino (m_data m)} w w'" "ivs w' = ivs w"
    "mf_size d \<le> max (mf_size (m_data m)) (18 * (4 + pl + inc) + 2 * length (m_dict m) + pagesize w)"
proof -
  obtain g t where gt: "growTarget ns inc pl (length (m_dict m)) (fileSize (m_data m)) = (g, t)"
    by (cases "growTarget ns inc pl (length (m_dict m)) (fileSize (m_data m))")
  note len = growTarget_len [OF gt]
  show thesis
  proof (cases g)
    case False
    then show thesis
      using gt len assms by (intro that [of "m_data m" w]) (simp_all add: growFile_def fileSize_def)
  next
    case True
    let ?n = "growSize t (max 1 (fileSize (m_data m)))"
    obtain r d w' where t: "MemFile.truncate ?n (m_data m) w = (r, d, w')"
      by (cases "MemFile.truncate ?n (m_data m) w") auto
    note tr = truncate_ok [OF assms(2,1) t]
    have "t < ?n" by (rule growSize_gt) simp
    then have "4 + pl + inc < mf_size d"
      using len pageRoundUp_ge [OF assms(3), of ?n] tr(6) by linarith
    moreover have "os_frame {mf_ino (m_data m)} w w'" "ivs w' = ivs w"
      by (subst tr(8), rule os_frame_files, simp add: tr(7)) (subst tr(8), simp)
    moreover have "mf_size d \<le> 18 * (4 + pl + inc) + 2 * length (m_dict m) + pagesize w"
      using growth_le [OF gt True assms(3)] tr(6) by simp
    ultimately show thesis
      using True gt t tr pageRoundUp_page [of "pagesize w" ?n]
      by (intro that [of d w']) (auto simp: growFile_def)
  qed
qed

lemma randomIV_ok:
  assumes "faults w = []"
  obtains iv w' where "randomIV w = (Inr iv, w')" "length iv = 16" "os_frame {} w w'" "files w' = files w"
  using assms
  by (cases "ivs w") (auto simp: randomIV_def os_frame_def intro!: that)

lemma sealRegion_ok:
  assumes "faults w = []" "meta_wf (m_info m)"
  obtains payload iv w' where
    "sealRegion region m w = (Inr payload, m\<lparr>m_info := (m_info m)\<lparr>mi_iv := iv\<rparr>\<rparr>, w')"
    "length iv = 16" "length payload = length region"
    "plain_region (m_crypt m) iv payload = Inr region"
    "os_frame {} w w'" "files w' = files w"
proof (cases "m_crypt m")
  case None
  have "m\<lparr>m_info := (m_info m)\<lparr>mi_iv := mi_iv (m_info m)\<rparr>\<rparr> = m" by simp
  then show thesis
    using None assms(2)
    by (intro that [of region "mi_iv (m_info m)" w]) (simp_all add: sealRegion_def plain_region_def meta_wf_def)
next
  case (Some a)
  obtain iv w' where iv: "randomIV w = (Inr iv, w')" "length iv = 16" "os_frame {} w w'" "files w' = files w"
    by (rule randomIV_ok [OF assms(1)])
  obtain ct where ct: "Encrypt a region iv = Inr ct" "Decrypt a ct iv = Inr region" "length ct = length region"
    by (rule cfb.encrypt_obtain [OF iv(2)])
  show thesis
    using Some iv ct by (intro that [of ct iv w']) (simp_all add: sealRegion_def plain_region_def)
qed

text \<open>Storing a payload makes it the region of the files, under a meta record with a new sequence.\<close>

definition stored_info :: "bytes \<Rightarrow> metaInfo \<Rightarrow> metaInfo" where
  "stored_info payload mi =
     mi\<lparr>mi_sequence := mi_sequence mi + 1, mi_version := versionFlag,
        mi_actualSize := of_nat (length payload), mi_crcDigest := crc32_ChecksumIEEE payload,
        mi_lastActualSize := of_nat (length payload), mi_lastCRCDigest := crc32_ChecksumIEEE payload\<rparr>"

lemma meta_wf_stored [simp]: "meta_wf (stored_info payload mi) = meta_wf mi"
  by (simp add: meta_wf_def stored_info_def)

lemma mem_copy_meta:
  assumes "mf_ok mf w" "metaSize \<le> mf_size mf" "meta_wf mi"
  shows "mem_copy mf 0 (marshal mi) w =
    Inr (set_file (mf_ino mf) (overwrite 0 (marshal mi) (files w (mf_ino mf))) w)"
  using assms mem_put_ok [OF assms(1), of 0 "marshal mi"]
  by (simp add: mem_copy_def mf_ok_def memory_ok) (simp add: mf_mapped_def)

lemma storeRegion_ok:
  assumes "mf_ok (m_data m) w" "mf_ok (m_meta m) w" "mf_ino (m_data m) \<noteq> mf_ino (m_meta m)"
    and "metaSize \<le> mf_size (m_meta m)" "meta_wf (m_info m)"
    and "4 + length payload \<le> mf_size (m_data m)" "4 + length payload < 2 ^ 32"
  obtains m' w' where "storeRegion payload m w = (Inr (), m', w')"
    "m' = m\<lparr>m_actualSize := of_nat (length payload), m_crcDigest := crc32_ChecksumIEEE payload,
            m_info := stored_info payload (m_info m)\<rparr>"
    "mf_ok (m_data m) w'" "mf_ok (m_meta m) w'"
    "take (length payload) (drop 4 (data_file m w')) = payload"
    "parseMeta (meta_file m w') = Inr (m_info m')"
    "os_frame {mf_ino (m_data m), mf_ino (m_meta m)} w w'"
proof -
  let ?i = "mf_ino (m_data m)" and ?j = "mf_ino (m_meta m)"
  let ?D1 = "overwrite 0 (replicate 4 0) (data_file m w)"
  let ?D2 = "overwrite 4 payload ?D1"
  let ?w1 = "set_file ?i ?D1 w"
  let ?w2 = "set_file ?i ?D2 ?w1"
  let ?info = "stored_info payload (m_info m)"
  let ?w3 = "set_file ?j (overwrite 0 (marshal ?info) (meta_file m w)) ?w2"
  let ?m' = "m\<lparr>m_actualSize := of_nat (length payload), m_crcDigest := crc32_ChecksumIEEE payload,
            m_info := ?info\<rparr>"
  have len: "length (data_file m w) = mf_size (m_data m)" "length (meta_file m w) = mf_size (m_meta m)"
    using assms(1,2) by (auto simp: mf_ok_def mf_mapped_def)
  have 1: "mem_put (m_data m) 0 (replicate 4 0) w = Inr ?w1"
    using assms(1,6) by (intro mem_put_ok) auto
  have ok1: "mf_ok (m_data m) ?w1" using assms(1,6) by (intro mf_ok_put) auto
  have 2: "mem_put (m_data m) 4 payload ?w1 = Inr ?w2"
    using mem_put_ok [OF ok1, of 4 payload] assms(6) by simp
  have ok2: "mf_ok (m_data m) ?w2"
    using mf_ok_put [OF ok1, of 4 payload] assms(6) by simp
  have reg: "take (length payload) (drop 4 ?D2) = payload"
    using assms(6) len by (intro take_drop_overwrite_same) simp
  have 3: "go_slice 4 (4 + length payload) (memory (m_data m) ?w2) = Inr payload"
    using ok2 reg assms(6) len by (simp add: mf_ok_def memory_ok go_slice_def)
  have 4: "mem_copy (m_meta m) 0 (marshal ?info) ?w2 = Inr ?w3"
    using mem_copy_meta [of "m_meta m" ?w2 ?info] assms(2-5) by (simp add: mf_ok_frame)
  have run: "storeRegion payload m w = (Inr (), ?m', ?w3)"
    using 1 2 3 4 by (simp add: storeRegion_def Let_def stored_info_def)
  have ok: "mf_ok (m_data m) ?w3" "mf_ok (m_meta m) ?w3"
    using ok2 assms(2-5) len by (simp_all add: mf_ok_frame mf_ok_def mf_mapped_def)
  have pm: "parseMeta (overwrite 0 (marshal ?info) (meta_file m w)) = Inr ?info"
    using assms(4,5) len by (intro parse_marshal_copy) auto
  show thesis
    by (rule that [OF run refl ok])
      (use reg pm assms(3) in \<open>auto intro!: os_frame_trans [OF os_frame_set_file os_frame_set_file]\<close>)
qed

lemma rebuildDict_ok:
  assumes "mf_mapped (m_data m) w" "log_ok ps" "4 + length (log_region ps) \<le> mf_size (m_data m)"
    and "m_crypt m = None \<Longrightarrow>
      take (length (log_region ps)) (drop 4 (data_file m w)) = log_region ps"
  obtains d where
    "rebuildDict (log_region ps) m w = (Inr (), m\<lparr>m_dict := d, m_needFullWriteback := False\<rparr>, w)"
    "dict_in (m_data m) (length (log_region ps)) d" "dict_map (m_data m) w d = log_map ps"
proof -
  note p = parseDict_log_region(1) [OF assms(2)] log_region_views [OF assms(2), of "[]"]
  show thesis
  proof (cases "m_crypt m")
    case None
    have "go_slice 4 (4 + length (log_region ps)) (memory (m_data m) w) = Inr (log_region ps)"
      using assms(1,3) assms(4) [OF None] by (simp add: memory_ok go_slice_def mf_mapped_def)
    then show thesis
      using None p assms(4) [OF None] mapped_views_ok [OF assms(1,3), of "log_views 4 ps []"]
      by (intro that [of "mapped_views (mf_gen (m_data m)) (log_views 4 ps [])"])
        (simp_all add: rebuildDict_def)
  next
    case (Some a)
    then show thesis
      using p heap_views_ok [of "log_views 4 ps []" "m_data m" _ "log_region ps"]
      by (intro that [of "heap_views (log_region ps) (log_views 4 ps [])"])
        (simp_all add: rebuildDict_def views_ok_def)
  qed
qed

text \<open>The log a write-back packs: one pair per key, in ascending order of the keys.\<close>

definition packed_log :: "(bytes \<rightharpoonup> bytes) \<Rightarrow> kvlog" where
  "packed_log c = map (\<lambda>k. (k, the (c k))) (sorted_list_of_set (dom c))"

definition packed_size :: "(bytes \<rightharpoonup> bytes) \<Rightarrow> nat" where
  "packed_size c = length (log_region (packed_log c))"

text \<open>Content a write-back can pack: finitely many non-empty keys with non-empty values.\<close>

definition content_ok :: "(bytes \<rightharpoonup> bytes) \<Rightarrow> bool" where
  "content_ok c \<longleftrightarrow> finite (dom c) \<and> (\<forall>k v. c k = Some v \<longrightarrow> pair_ok (k, v) \<and> v \<noteq> [])"

lemma log_map_distinct:
  "distinct ks \<Longrightarrow> (\<And>k. k \<in> set ks \<Longrightarrow> f k \<noteq> []) \<Longrightarrow>
   log_map (map (\<lambda>k. (k, f k)) ks) = (\<lambda>k. if k \<in> set ks then Some (f k) else None)"
proof (induction ks rule: rev_induct)
  case (snoc k ks)
  then have "log_map (map (\<lambda>k. (k, f k)) ks) = (\<lambda>k. if k \<in> set ks then Some (f k) else None)" by simp
  then show ?case using snoc.prems by (auto simp: fun_eq_iff entry_value_def)
qed (auto simp: fun_eq_iff)

lemma packed_log_map: "content_ok c \<Longrightarrow> log_map (packed_log c) = c"
proof -
  assume c: "content_ok c"
  have "log_map (packed_log c) = (\<lambda>k. if k \<in> dom c then Some (the (c k)) else None)"
    using c unfolding packed_log_def by (subst log_map_distinct) (auto simp: content_ok_def)
  then show ?thesis by (auto simp: fun_eq_iff domIff)
qed

lemma packed_log_ok: "content_ok c \<Longrightarrow> log_ok (packed_log c)"
  by (auto simp: content_ok_def packed_log_def log_ok_def list_all_iff)

lemma encodeRegion_packed:
  assumes "gm_inv d" "dict_live mf w d"
  shows "encodeRegion (sort_Strings (gm_keys d)) (dict_bytes mf w d) = log_region (packed_log (dict_map mf w d))"
proof -
  have "remdups (gm_keys d) = gm_keys d"
    using gm.distinct_keys [OF assms(1)] by (rule distinct_remdups_id)
  then have keys: "sorted_list_of_set (dom (dict_map mf w d)) = sort_Strings (gm_keys d)"
    unfolding dom_dict_map [OF assms(2,1)] sort_Strings_def sorted_list_of_set_sort_remdups by (rule arg_cong)
  have "map (\<lambda>k. (k, dict_bytes mf w d k)) (sort_Strings (gm_keys d)) =
      map (\<lambda>k. (k, the (dict_map mf w d k))) (sort_Strings (gm_keys d))"
    using dict_bytes_map [OF assms(2) _ assms(1)] by (intro map_cong) auto
  then show ?thesis unfolding encodeRegion_eq log_region_def packed_log_def keys by (simp only:)
qed

lemma log_ok_content: "log_ok ps \<Longrightarrow> content_ok (log_map ps)"
proof -
  assume ok: "log_ok ps"
  have "finite (dom (log_map ps))"
  proof (induction ps rule: rev_induct)
    case (snoc p ps)
    have "dom (log_map (ps @ [p])) \<subseteq> insert (fst p) (dom (log_map ps))"
      by (cases p) (auto split: if_splits)
    then show ?case using snoc finite_subset by blast
  qed simp
  then show ?thesis using log_map_keys [OF ok] by (auto simp: content_ok_def)
qed

text \<open>
  Room for the content: how large the data file may become when it holds \<open>c\<close>.  A write-back grows the
  file only when it has to, and then to a bounded multiple of the packed content and a page.
\<close>

definition size_limit :: "nat \<Rightarrow> (bytes \<rightharpoonup> bytes) \<Rightarrow> nat" where
  "size_limit p c = 64 * packed_size c + p"

lemma length_encode_log: "length ps \<le> length (encode_log ps)" "p \<in> set ps \<Longrightarrow> length (encode_pair p) \<le> length (encode_log ps)"
proof -
  have pos: "0 < length (encode_pair q)" for q by (cases q) (simp add: encode_pair_eq)
  show "length ps \<le> length (encode_log ps)"
  proof (induction ps)
    case (Cons q ps)
    then show ?case using pos [of q] unfolding encode_log_def by (cases "encode_pair q") auto
  qed simp
  show "p \<in> set ps \<Longrightarrow> length (encode_pair p) \<le> length (encode_log ps)"
    by (induction ps) (auto simp: encode_log_def)
qed

lemma packed_size_card: "4 + card (dom c) \<le> packed_size c"
  using length_encode_log(1) [of "packed_log c"]
  by (simp add: packed_size_def log_region_def packed_log_def itemSizeHolderBytes_eq)

lemma packed_size_entry:
  assumes "finite (dom c)" "c k = Some v"
  shows "length (encode_pair (k, v)) \<le> packed_size c"
proof -
  have "(k, v) \<in> set (packed_log c)" using assms by (force simp: packed_log_def)
  from length_encode_log(2) [OF this] show ?thesis by (simp add: packed_size_def log_region_def)
qed

lemma size_limit_grow:
  assumes "inc \<le> packed_size c" "dl \<le> packed_size c"
  shows "18 * (4 + packed_size c + inc) + 2 * dl + p \<le> size_limit p c"
  using assms packed_size_card [of c] by (simp add: size_limit_def)

text \<open>
  The write-back of a dictionary whose content can be packed.  Nothing is assumed of the region that
  was in the file before, so this is also what repairs a salvaged store.
\<close>

lemma fullWritebackGrow_ok:
  assumes w: "writable m w" and wf: "meta_wf (m_info m)"
    and d: "gm_inv (m_dict m)" "dict_live (m_data m) w (m_dict m)"
    and c: "content_ok (content m w)" and small: "4 + packed_size (content m w) < 2 ^ 32"
    and ex: "m_enableExpire m = expireEnabled (m_info m)"
  obtains m' w' where "fullWritebackGrow ns inc m w = (Inr (), m', w')"
    "store_inv m' w' (packed_log (content m w))" "content m' w' = content m w"
    "same_config m m'" "os_frame {mf_ino (m_data m), mf_ino (m_meta m)} w w'"
    "mi_sequence (m_info m') = mi_sequence (m_info m) + 1" "m_actualSize m' \<noteq> 0"
    "mi_version (m_info m') = versionFlag" "4 + packed_size (content m w) + inc < mf_size (m_data m')"
    "unat (m_actualSize m') = packed_size (content m w)"
    "inc \<le> packed_size (content m w) \<longrightarrow>
       mf_size (m_data m') \<le> max (mf_size (m_data m)) (size_limit (pagesize w) (content m w))"
proof -
  let ?c = "content m w" and ?is = "{mf_ino (m_data m), mf_ino (m_meta m)}"
  let ?ps = "packed_log ?c"
  let ?R = "log_region ?ps"
  have region: "encodeRegion (sort_Strings (gm_keys (m_dict m))) (dict_bytes (m_data m) w (m_dict m)) = ?R"
    using encodeRegion_packed [OF d] by (simp add: content_def)
  have log: "log_ok ?ps" "log_map ?ps = ?c" using c by (auto intro: packed_log_ok packed_log_map)
  have ok: "mf_ok (m_data m) w" "mf_ok (m_meta m) w" "mf_ino (m_data m) \<noteq> mf_ino (m_meta m)"
      "metaSize \<le> mf_size (m_meta m)" "faults w = []" "4 \<le> pagesize w"
    using w by (auto simp: writable_def)
  obtain payload iv w1 where seal:
      "sealRegion ?R m w = (Inr payload, m\<lparr>m_info := (m_info m)\<lparr>mi_iv := iv\<rparr>\<rparr>, w1)"
      "length iv = 16" "length payload = length ?R" "plain_region (m_crypt m) iv payload = Inr ?R"
      "os_frame {} w w1" "files w1 = files w"
    by (rule sealRegion_ok [OF ok(5) wf])
  let ?m1 = "m\<lparr>m_info := (m_info m)\<lparr>mi_iv := iv\<rparr>\<rparr>"
  have ok1: "mf_ok (m_data ?m1) w1" "mf_ok (m_meta m) w1" "faults w1 = []" "pagesize w1 = pagesize w"
    using ok seal(5,6) by (auto simp: mf_ok_def mf_mapped_def os_frame_def)
  have pg: "0 < pagesize w1" using ok(6) ok1(4) by simp
  obtain dt w2 where grow0: "growFile ns inc (length payload) ?m1 w1 = (Inr (), ?m1\<lparr>m_data := dt\<rparr>, w2)"
      "mf_ok dt w2" "mf_ino dt = mf_ino (m_data ?m1)" "mf_ofd dt = mf_ofd (m_data ?m1)"
      "mf_open dt = mf_open (m_data ?m1)" "4 + length payload + inc < mf_size dt"
      "mf_size (m_data ?m1) \<le> mf_size dt \<or> pagesize w1 \<le> mf_size dt"
      "os_frame {mf_ino (m_data ?m1)} w1 w2" "ivs w2 = ivs w1"
      "mf_size dt \<le> max (mf_size (m_data ?m1)) (18 * (4 + length payload + inc) + 2 * length (m_dict ?m1) + pagesize w1)"
    by (rule growFile_ok [OF ok1(1,3) pg])
  note grow = grow0(1-6,8,10) [simplified]
  let ?m2 = "?m1\<lparr>m_data := dt\<rparr>"
  have ok2: "mf_ok (m_meta m) w2"
    using ok1(2) grow(7) ok(3) by (simp add: mf_ok_def mf_mapped_def os_frame_def)
  have len: "4 + length payload \<le> mf_size dt" "4 + length payload < 2 ^ 32"
    using grow(6) small seal(3) by (simp_all add: packed_size_def)
  obtain m3 w3 where store: "storeRegion payload ?m2 w2 = (Inr (), m3, w3)"
      "m3 = ?m2\<lparr>m_actualSize := of_nat (length payload), m_crcDigest := crc32_ChecksumIEEE payload,
            m_info := stored_info payload (m_info ?m2)\<rparr>"
      "mf_ok dt w3" "mf_ok (m_meta m) w3" "take (length payload) (drop 4 (data_file m w3)) = payload"
      "parseMeta (meta_file m w3) = Inr (m_info m3)" "os_frame ?is w2 w3"
    using storeRegion_ok [of ?m2 w2 payload] grow(2,3) ok2 ok(3,4) seal(2) len
    by (auto simp: meta_wf_def)
  have plain: "payload = ?R" if "m_crypt m = None" using seal(4) that by (simp add: plain_region_def)
  obtain dc where re: "rebuildDict ?R m3 w3 = (Inr (), m3\<lparr>m_dict := dc, m_needFullWriteback := False\<rparr>, w3)"
      "dict_in dt (length ?R) dc" "dict_map dt w3 dc = log_map ?ps"
    using rebuildDict_ok [of m3 w3 ?ps] log(1) store(2,3,5) len(1) seal(3) grow(3) plain
    by (auto simp: mf_ok_def)
  let ?m4 = "m3\<lparr>m_dict := dc, m_needFullWriteback := False\<rparr>"
  have fr: "os_frame ?is w w3"
    using os_frame_mono [OF seal(5), of ?is] os_frame_mono [OF grow(7), of ?is] store(7)
    by (auto intro: os_frame_trans)
  then have f3: "faults w3 = []" using ok(5) by (simp add: os_frame_def)
  have run: "fullWritebackGrow ns inc m w = (Inr (), ?m4, w3)"
    using d(2) region seal(1) grow(1) store(1) re(1) f3
    by (simp add: fullWritebackGrow_def andThen_def Let_def msyncBoth_def)
  have act: "unat (of_nat (length payload) :: u32) = length payload"
    using len(2) by (simp add: unat_of_nat_small)
  have da: "disk_actual (m_info ?m4) D = of_nat (length payload)" for D
    by (simp add: disk_actual_def store(2) stored_info_def meta_versions)
  have reg: "region_at (of_nat (length payload)) (data_file m w3) = payload"
    using store(5) act by (simp add: region_at_def)
  have dl: "length (data_file m w3) = mf_size dt"
    using store(3) grow(3) by (simp add: mf_ok_def mf_mapped_def)
  have disk: "on_disk (m_crypt m) (data_file m w3) (meta_file m w3) (m_info ?m4) ?ps"
    unfolding on_disk_def da reg
    using store(2,6) log(1) seal(4) len act dl
    by (simp add: in_file_def region_log_def stored_info_def maxSupportedVersion_def)
  have wr: "writable ?m4 w3"
    using w store(2,3,4) grow(3) fr ok(3) len(1) by (simp add: writable_def os_frame_def)
  have sy: "synced ?m4 w3 ?ps"
    using disk da store(2-4) grow(3) ex
    by (simp add: synced_def mf_ok_def stored_info_def expireEnabled_def)
  have ld: "loaded ?m4 w3 ?ps"
    using sy re(2,3) store(2) act seal(3) by (simp add: loaded_def content_def)
  have inv: "store_inv ?m4 w3 ?ps"
    using wr ld ex store(2) by (simp add: store_inv_def stored_info_def expireEnabled_def)
  have nz: "length payload \<noteq> 0" using seal(3) by simp
  show thesis
  proof (rule that [OF run inv])
    show "content ?m4 w3 = ?c" using ld log(2) by (simp add: loaded_def)
    show "same_config m ?m4" using store(2) grow(3-5) by (simp add: same_config_def stored_info_def)
    show "m_actualSize ?m4 \<noteq> 0" using nz act store(2) by (auto simp: unat_eq_zero [symmetric])
    show "4 + packed_size ?c + inc < mf_size (m_data ?m4)"
      using grow(6) seal(3) store(2) by (simp add: packed_size_def)
    show "unat (m_actualSize ?m4) = packed_size ?c" using act seal(3) store(2) by (simp add: packed_size_def)
    have "length (m_dict m) \<le> packed_size ?c"
      using dom_dict_map [OF d(2,1)] gm.keys_card [OF d(1)] gm.set_keys [of "m_dict m"] packed_size_card [of ?c]
      by (simp add: content_def)
    then show "inc \<le> packed_size ?c \<longrightarrow> mf_size (m_data ?m4) \<le> max (mf_size (m_data m)) (size_limit (pagesize w) ?c)"
      using size_limit_grow [of inc ?c "length (m_dict m)" "pagesize w"] grow(8) seal(3) store(2) ok1(4)
      by (auto simp: packed_size_def max_def split: if_splits)
  qed (use fr store(2) in \<open>simp_all add: stored_info_def\<close>)
qed

section \<open>Overriding\<close>

lemma mem_copy_fits:
  assumes "mf_ok mf w" "off + length bs \<le> mf_size mf"
  shows "mem_copy mf off bs w = Inr (set_file (mf_ino mf) (overwrite off bs (files w (mf_ino mf))) w)"
  using assms mem_put_ok [OF assms]
  by (simp add: mem_copy_def mf_ok_def memory_ok) (simp add: mf_mapped_def)

lemma overwrite_overwrite:
  "off + length a = off' \<Longrightarrow> off' + length b \<le> length s \<Longrightarrow>
   overwrite off' b (overwrite off a s) = overwrite off (a @ b) s"
proof -
  assume "off + length a = off'" "off' + length b \<le> length s"
  moreover from this have "min (length s) off = off" by simp
  ultimately show ?thesis by (auto simp: overwrite_def ac_simps)
qed

lemma encode_pair_blob: "length (encode_pair (k, v)) - length v + length v = length (encode_pair (k, v))"
  if "length v < 2 ^ 32"
  using that by (simp add: encode_pair_eq writeData_eq [of v])

lemma encode_pair_tail:
  assumes "length v < 2 ^ 32"
  shows "drop (length (encode_pair (k, v)) - length v) (encode_pair (k, v)) = v"
  using assms by (simp add: encode_pair_eq writeData_eq [of v])

text \<open>The slice of the value at the end of a pair that was just written at \<open>off\<close>.\<close>

lemma deref_written_value:
  assumes "mf_mapped mf w" "length v < 2 ^ 32" "off + length (encode_pair (k, v)) \<le> mf_size mf"
    and "take (length (encode_pair (k, v))) (drop off (files w (mf_ino mf))) = encode_pair (k, v)"
  shows "deref mf w (View (mf_gen mf) (off + (length (encode_pair (k, v)) - length v)) (length v)) = Inr v"
    "go_slice (off + (length (encode_pair (k, v)) - length v))
      (off + (length (encode_pair (k, v)) - length v) + length v) (memory mf w) = Inr v"
proof -
  let ?n = "length (encode_pair (k, v))" and ?D = "files w (mf_ino mf)"
  have "take (length v) (drop (?n - length v) (take ?n (drop off ?D))) = v"
    using assms(2,4) encode_pair_tail [of v k] by simp
  then have "take (length v) (drop (off + (?n - length v)) ?D) = v"
    using encode_pair_blob [OF assms(2), of k] by (simp add: drop_take min_def add.commute)
  moreover have "off + (?n - length v) + length v \<le> length ?D"
    using assms(1,3) encode_pair_blob [OF assms(2), of k] by (simp add: mf_mapped_def)
  ultimately show "go_slice (off + (?n - length v)) (off + (?n - length v) + length v) (memory mf w) = Inr v"
    by (simp add: memory_ok [OF assms(1)] go_slice_def)
  then show "deref mf w (View (mf_gen mf) (off + (?n - length v)) (length v)) = Inr v" by simp
qed

lemma overrideRaw_ok:
  assumes w: "writable m w" and s: "synced m w ps" and nf: "\<not> m_needFullWriteback m"
    and plain: "m_crypt m = None" "versionFlag \<le> mi_version (m_info m)"
    and p: "pair_ok (k, v)" "v \<noteq> []"
    and fits: "8 + length (encode_pair (k, v)) \<le> mf_size (m_data m)"
    and small: "8 + length (encode_pair (k, v)) < 2 ^ 32"
    and dom: "gm_inv (m_dict m)" "dom (gm_get (m_dict m)) \<subseteq> {k}"
  obtains m' w' where "overrideRaw k (encode_pair (k, v)) (length v) m w = (Inr (), m', w')"
    "store_inv m' w' [(k, v)]" "same_config m m'" "os_frame {mf_ino (m_data m), mf_ino (m_meta m)} w w'"
    "m_data m' = m_data m" "mi_sequence (m_info m') = mi_sequence (m_info m)"
proof -
  let ?bs = "encode_pair (k, v)" and ?D = "data_file m w"
  let ?R = "log_region [(k, v)]"
  let ?actual = "of_nat (length ?R) :: u32" and ?crc = "crc32_ChecksumIEEE ?R"
  let ?w1 = "set_file (mf_ino (m_data m)) (overwrite 4 itemSizeHolderBytes ?D) w"
  let ?D' = "overwrite 4 ?R ?D"
  let ?w2 = "set_file (mf_ino (m_data m)) ?D' w"
  let ?M' = "overwrite offActualSize (putUint32 ?actual) (overwrite offCRC (putUint32 ?crc) (meta_file m w))"
  let ?w3 = "set_file (mf_ino (m_meta m)) ?M' ?w2"
  let ?m1 = "m\<lparr>m_actualSize := ?actual, m_crcDigest := ?crc,
            m_info := (m_info m)\<lparr>mi_actualSize := ?actual, mi_crcDigest := ?crc\<rparr>\<rparr>"
  let ?start = "8 + (length ?bs - length v)"
  let ?m' = "?m1\<lparr>m_dict := gm_put k (View (mf_gen (m_data m)) ?start (length v)) (m_dict m)\<rparr>"
  have ok: "mf_ok (m_data m) w" "mf_ok (m_meta m) w" "mf_ino (m_data m) \<noteq> mf_ino (m_meta m)"
      "metaSize \<le> mf_size (m_meta m)"
    using w by (auto simp: writable_def)
  have len: "length ?D = mf_size (m_data m)" "length (meta_file m w) = mf_size (m_meta m)"
    using ok by (auto simp: mf_ok_def mf_mapped_def)
  have R: "?R = itemSizeHolderBytes @ ?bs" by (simp add: log_region_def)
  have ua: "unat ?actual = 4 + length ?bs"
    using small unat_of_nat_small [of "length ?R", where 'a = 32] by (simp add: R)
  have D': "overwrite 8 ?bs (overwrite 4 itemSizeHolderBytes ?D) = ?D'"
    unfolding R using fits len by (intro overwrite_overwrite) auto
  have c1: "mem_copy (m_data m) 4 itemSizeHolderBytes w = Inr ?w1"
    using fits ok(1) by (intro mem_copy_fits) auto
  have "mf_ok (m_data m) ?w1" using fits ok(1) by (intro mf_ok_put) auto
  then have c2: "mem_copy (m_data m) 8 ?bs ?w1 = Inr ?w2"
    using mem_copy_fits [of "m_data m" ?w1 8 ?bs] fits D' by simp
  have okd: "mf_ok (m_data m) ?w3" "mf_ok (m_meta m) ?w3" "mf_mapped (m_data m) ?w2"
    using ok fits len R by (auto simp: mf_ok_def mf_mapped_def meta_offsets)
  have reg: "take (length ?R) (drop 4 ?D') = ?R"
    using fits len R by (intro take_drop_overwrite_same) simp
  have sl: "go_slice 4 (4 + unat ?actual) (memory (m_data m) ?w2) = Inr ?R"
    using okd(3) reg fits len R ua by (simp add: memory_ok go_slice_def)
  have pm: "putMeta ?m1 ?w2 = (Inr (), ?m1, ?w3)"
    using ok putMeta_ok [of ?m1 ?w2] by (simp add: mf_ok_frame)
  have val: "take (length ?bs) (drop 8 (data_file m ?w3)) = ?bs"
    using ok(3) fits len D' by (simp add: take_drop_overwrite_same flip: D')
  have vs: "length v < 2 ^ 32" using p by (simp add: pair_ok_def)
  have okm: "mf_mapped (m_data m) ?w3" using okd(1) by (simp add: mf_ok_def)
  note dv = deref_written_value [OF okm vs fits val]
  have run: "overrideRaw k ?bs (length v) m w = (Inr (), ?m', ?w3)"
    using c1 c2 sl pm dv(2) fits len ok(1) R
    by (simp add: overrideRaw_def Let_def mf_ok_def memory_ok)
  have dm: "content ?m' ?w3 = log_map [(k, v)]"
    using dom(2) p(2) log_map_snoc [of "[]" k v] dict_map_put [OF dv(1), of k "m_dict m"]
    by (auto simp: content_def dict_map_def fun_eq_iff entry_value_def domIff split: option.splits)
  have din: "dict_in (m_data m) (unat ?actual) (m_dict ?m')"
    using dom ua encode_pair_blob [OF vs, of k]
    by (auto simp: dict_in_def gm.get_put gm.inv_put domIff split: if_splits)
  have v: "versionActualSize \<le> mi_version (m_info m)" using plain(2) by (rule versionFlag_actual)
  have pmeta: "parseMeta ?M' = Inr (m_info ?m')"
    using s parseMeta_put_crc_actual [of "meta_file m w" "m_info m" ?actual ?crc]
    by (simp add: synced_def on_disk_def)
  have wr: "writable ?m' ?w3" using w okd(1,2) by (simp add: writable_def)
  have "synced ?m' ?w3 [(k, v)]"
    using s wr ok(3) v pmeta reg ua small fits len plain(1) p(1) R region_log_plainI [of "[(k, v)]"]
    by (simp add: synced_def on_disk_def writable_def mf_ok_def disk_actual_def in_file_def region_at_def
        expireEnabled_def)
  then have "store_inv ?m' ?w3 [(k, v)]"
    using wr din dm nf s plain(2) by (simp add: store_inv_def loaded_def synced_def expireEnabled_def)
  moreover have "os_frame {mf_ino (m_data m), mf_ino (m_meta m)} w ?w3"
    by (intro os_frame_trans [OF os_frame_set_file os_frame_set_file]) auto
  ultimately show thesis by (intro that [OF run]) (auto simp: same_config_def)
qed

end
