(* ===== verification/Store.thy ===== *)
theory Store
  imports StoreInv
begin

text \<open>
  The operations of an instance refine a map.  Under the invariant, and while no system call fails,
  setting a value updates \<open>content\<close> at the key, removing deletes it, clearing empties it, and every
  other operation leaves it alone; the invariant is kept, so the files always hold the same map.
\<close>

section \<open>Setting a value\<close>

lemma store_inv_facts:
  assumes "store_inv m w ps"
  shows "writable m w" "synced m w ps" "dict_in (m_data m) (unat (m_actualSize m)) (m_dict m)"
    "content m w = log_map ps" "mf_mapped (m_data m) w" "mf_mapped (m_meta m) w"
    "in_file (m_actualSize m) (data_file m w)" "4 + unat (m_actualSize m) \<le> mf_size (m_data m)"
    "dict_live (m_data m) w (m_dict m)" "gm_inv (m_dict m)" "meta_wf (m_info m)" "faults w = []"
proof -
  show 1: "writable m w" "synced m w ps" "dict_in (m_data m) (unat (m_actualSize m)) (m_dict m)"
    "content m w = log_map ps" and 2: "mf_mapped (m_data m) w" "mf_mapped (m_meta m) w"
    and inf: "in_file (m_actualSize m) (data_file m w)"
    using assms by (auto simp: store_inv_def loaded_def synced_def on_disk_def)
  then show 3: "4 + unat (m_actualSize m) \<le> mf_size (m_data m)"
    by (simp add: in_file_def mf_mapped_def)
  show "dict_live (m_data m) w (m_dict m)" using dict_in_live [OF 2(1) 3 1(3)] .
  show "gm_inv (m_dict m)" using 1(3) by (simp add: dict_in_def)
  show "meta_wf (m_info m)" using 1(2) by (auto simp: synced_def on_disk_def intro: parseMeta_wf)
  show "faults w = []" using 1(1) by (simp add: writable_def)
qed

lemma store_inv_log_ok:
  assumes "store_inv m w ps"
  shows "log_ok ps"
  using assms by (auto simp: store_inv_def loaded_def synced_def on_disk_def region_log_def)

lemma store_inv_dom:
  assumes "store_inv m w ps"
  shows "dom (gm_get (m_dict m)) = dom (log_map ps)"
proof -
  note f = store_inv_facts [OF assms]
  show ?thesis
    using dom_dict_map [OF f(9,10)] f(4) by (simp add: content_def gm.set_keys)
qed

lemma store_inv_nonempty:
  assumes "store_inv m w ps" "0 < length (m_dict m)"
  shows "m_actualSize m \<noteq> 0"
proof
  assume z: "m_actualSize m = 0"
  note f = store_inv_facts [OF assms(1)]
  have "region_at (m_actualSize m) (data_file m w) = []" by (simp add: z region_at_def)
  then have "region_log (m_crypt m) (mi_iv (m_info m)) [] ps"
    using f(2) by (simp add: synced_def on_disk_def)
  moreover have "plain_region (m_crypt m) (mi_iv (m_info m)) [] = Inr []"
    using f(11) by (simp add: plain_region_def Decrypt_def meta_wf_def split: option.split)
  ultimately have "ps = []" using log_region_nonempty [of ps] by (auto simp: region_log_def dest: sym)
  then have "gm_get (m_dict m) = Map.empty" using store_inv_dom [OF assms(1)] by simp
  then show False using assms(2) gm.len_zero_iff [of "m_dict m"] by simp
qed

text \<open>The bounds under which no 32-bit size wraps: a file and a packed region below 4 GiB.\<close>

definition sizes_ok :: "mmkv \<Rightarrow> (bytes \<rightharpoonup> bytes) \<Rightarrow> bool" where
  "sizes_ok m c \<longleftrightarrow> mf_size (m_data m) < 2 ^ 32 \<and> 4 + packed_size c < 2 ^ 32"

definition entry_ok :: "bytes \<Rightarrow> bytes \<Rightarrow> bool" where
  "entry_ok k v \<longleftrightarrow> pair_ok (k, v) \<and> v \<noteq> []"

lemma content_ok_update: "content_ok c \<Longrightarrow> entry_ok k v \<Longrightarrow> content_ok (c(k \<mapsto> v))"
  by (auto simp: content_ok_def entry_ok_def)

lemma content_ok_delete: "content_ok c \<Longrightarrow> content_ok (c(k := None))"
  by (auto simp: content_ok_def split: if_splits)

lemma encode_pair_nonempty [simp]: "encode_pair (k, v) \<noteq> []"
  by (simp add: encode_pair_eq writeData_def writeRawData_def writeRawVarint32_eq)

text \<open>
  How a write shows in the files: it rewrites the region under the next sequence number, in a file no
  larger than its content needs or than it was, or it keeps sequence and file size and changes nothing
  or appends.  Only an instance that no other process shares overwrites a region in place.
\<close>

definition progress :: "mmkv \<Rightarrow> os \<Rightarrow> mmkv \<Rightarrow> os \<Rightarrow> bool" where
  "progress m w m' w' \<longleftrightarrow>
     mi_sequence (m_info m') = mi_sequence (m_info m) + 1 \<and>
       mf_size (m_data m') \<le> max (mf_size (m_data m)) (size_limit (pagesize w) (content m' w')) \<or>
     mi_sequence (m_info m') = mi_sequence (m_info m) \<and> mf_size (m_data m') = mf_size (m_data m) \<and>
       (\<not> m_multiProcess m \<or> files w' = files w \<or>
        versionFlag \<le> mi_version (m_info m') \<and> mi_version (m_info m') = mi_version (m_info m) \<and>
        m_actualSize m < m_actualSize m')"

lemma progress_refl [simp]: "progress m w m w"
  by (simp add: progress_def)

lemma progress_rewrite:
  assumes "mi_sequence (m_info m') = mi_sequence (m_info m) + 1" "content m' w' = c"
    and "mf_size (m_data m') \<le> max (mf_size (m_data m)) (size_limit (pagesize w) c)"
  shows "progress m w m' w'"
  using assms by (simp add: progress_def)

lemma progress_size:
  "progress m w m' w' \<Longrightarrow> mf_size (m_data m') \<le> max (mf_size (m_data m)) (size_limit (pagesize w) (content m' w'))"
  by (auto simp: progress_def)

lemma setBlob_override:
  assumes inv: "store_inv m w ps" and e: "entry_ok k v" and sz: "mf_size (m_data m) < 2 ^ 32"
    and plain: "m_crypt m = None" "versionFlag \<le> mi_version (m_info m)"
    and fits: "8 + length (encode_pair (k, v)) \<le> mf_size (m_data m)"
    and dom: "dom (log_map ps) \<subseteq> {k}"
  obtains m' w' where "overrideRaw k (encode_pair (k, v)) (length v) m w = (Inr (), m', w')"
    "store_inv m' w' [(k, v)]" "log_map [(k, v)] = (log_map ps)(k \<mapsto> v)"
    "same_config m m'" "os_frame {mf_ino (m_data m), mf_ino (m_meta m)} w w'"
    "m_data m' = m_data m" "mi_sequence (m_info m') = mi_sequence (m_info m)"
proof -
  note f = store_inv_facts [OF inv]
  have nf: "\<not> m_needFullWriteback m" using inv by (simp add: store_inv_def)
  have p: "pair_ok (k, v)" "v \<noteq> []" using e by (simp_all add: entry_ok_def)
  have small: "8 + length (encode_pair (k, v)) < 2 ^ 32" using fits sz by simp
  have d: "dom (gm_get (m_dict m)) \<subseteq> {k}" using dom store_inv_dom [OF inv] by simp
  obtain m' w' where o: "overrideRaw k (encode_pair (k, v)) (length v) m w = (Inr (), m', w')"
    "store_inv m' w' [(k, v)]" "same_config m m'" "os_frame {mf_ino (m_data m), mf_ino (m_meta m)} w w'"
    "m_data m' = m_data m" "mi_sequence (m_info m') = mi_sequence (m_info m)"
    by (rule overrideRaw_ok [OF f(1,2) nf plain p fits small f(10) d])
  have "log_map ps x = None" if "x \<noteq> k" for x using dom that by (auto simp: domIff)
  then have "log_map [(k, v)] = (log_map ps)(k \<mapsto> v)"
    using p(2) log_map_snoc [of "[]" k v] by (auto simp: entry_value_def fun_eq_iff)
  then show thesis using that o by blast
qed

lemma setBlob_append:
  assumes inv: "store_inv m w ps" and e: "entry_ok k v" and sz: "mf_size (m_data m) < 2 ^ 32"
    and plain: "m_crypt m = None" "versionFlag \<le> mi_version (m_info m)" "m_actualSize m \<noteq> 0"
    and fits: "4 + unat (m_actualSize m) + length (encode_pair (k, v)) \<le> mf_size (m_data m)"
  obtains m1 w' where "appendRaw (encode_pair (k, v)) m w = (Inr (), m1, w')"
    "go_slice (4 + unat (m_actualSize m) + (length (encode_pair (k, v)) - length v))
       (4 + unat (m_actualSize m) + (length (encode_pair (k, v)) - length v) + length v)
       (memory (m_data m1) w') = Inr v"
    "store_inv (m1\<lparr>m_dict := gm_put k (View (mf_gen (m_data m1))
       (4 + unat (m_actualSize m) + (length (encode_pair (k, v)) - length v)) (length v)) (m_dict m1)\<rparr>)
       w' (ps @ [(k, v)])"
    "same_config m m1" "os_frame {mf_ino (m_data m), mf_ino (m_meta m)} w w'"
    "\<forall>d. progress m w (m1\<lparr>m_dict := d\<rparr>) w'"
proof -
  note f = store_inv_facts [OF inv]
  let ?bs = "encode_pair (k, v)" and ?n = "unat (m_actualSize m)"
  have p: "pair_ok (k, v)" "v \<noteq> []" using e by (simp_all add: entry_ok_def)
  have small: "4 + ?n + length ?bs < 2 ^ 32" using fits sz by simp
  obtain m1 w' actual crc where a: "appendRaw ?bs m w = (Inr (), m1, w')"
    "m1 = m\<lparr>m_actualSize := actual, m_crcDigest := crc,
            m_info := (m_info m)\<lparr>mi_actualSize := actual, mi_crcDigest := crc\<rparr>\<rparr>"
    "unat actual = ?n + length ?bs" "data_file m w' = overwrite (4 + ?n) ?bs (data_file m w)"
    "w' = w\<lparr>files := files w'\<rparr>" "os_frame {mf_ino (m_data m), mf_ino (m_meta m)} w w'"
    "writable m1 w'" "synced m1 w' (ps @ [(k, v)])"
    by (rule appendRaw_synced [OF f(1,2) plain p(1) fits small])
  have len: "length (data_file m w) = mf_size (m_data m)" using f(5) by (simp add: mf_mapped_def)
  have map': "mf_mapped (m_data m) w'" using a(2,7) by (simp add: writable_def mf_ok_def)
  have val: "take (length ?bs) (drop (4 + ?n) (data_file m w')) = ?bs"
    using a(4) fits len by (simp add: take_drop_overwrite_same)
  have vs: "length v < 2 ^ 32" using p by (simp add: pair_ok_def)
  note dv = deref_written_value [OF map' vs fits val]
  have keep: "dict_map (m_data m) w' (m_dict m) = log_map ps"
  proof -
    have "take ?n (drop 4 (data_file m w')) = take ?n (drop 4 (data_file m w))"
      using a(4) fits len by (simp add: take_drop_overwrite_before)
    then show ?thesis
      using dict_map_in [OF map' f(8,3)] dict_map_in [OF f(5,8,3)] f(4) by (simp add: content_def)
  qed
  let ?s = "View (mf_gen (m_data m)) (4 + ?n + (length ?bs - length v)) (length v)"
  let ?m' = "m1\<lparr>m_dict := gm_put k ?s (m_dict m1)\<rparr>"
  have "dict_in (m_data m) (unat actual) (gm_put k ?s (m_dict m))"
    using a(3) encode_pair_blob [OF vs, of k] dict_in_mono [OF f(3), of "unat actual"]
    by (intro dict_in_put) auto
  moreover have "dict_map (m_data m) w' (gm_put k ?s (m_dict m)) = log_map (ps @ [(k, v)])"
    using dict_map_put [OF dv(1)] keep p(2) by (simp add: entry_value_def)
  ultimately have "store_inv ?m' w' (ps @ [(k, v)])"
    using a(2,7,8) inv
    by (simp add: store_inv_def loaded_def content_def synced_def writable_def expireEnabled_def)
  moreover have "\<forall>d. progress m w (m1\<lparr>m_dict := d\<rparr>) w'"
    using a(2,3) plain(2) by (simp add: progress_def word_less_nat_alt)
  ultimately show thesis
    using a(1,2,6) dv(2) by (intro that [of m1 w']) (simp_all add: same_config_def)
qed

text \<open>A full write-back of any dictionary over the current region.\<close>

lemma writeback_with:
  assumes inv: "store_inv m w ps" and d: "dict_in (m_data m) (unat (m_actualSize m)) d"
    and c: "content_ok (dict_map (m_data m) w d)" and small: "4 + packed_size (dict_map (m_data m) w d) < 2 ^ 32"
  obtains m' w' where "fullWritebackGrow ns inc (m\<lparr>m_dict := d\<rparr>) w = (Inr (), m', w')"
    "store_inv m' w' (packed_log (dict_map (m_data m) w d))"
    "log_map (packed_log (dict_map (m_data m) w d)) = dict_map (m_data m) w d" "same_config m m'"
    "os_frame {mf_ino (m_data m), mf_ino (m_meta m)} w w'" "mi_version (m_info m') = versionFlag"
    "unat (m_actualSize m') = packed_size (dict_map (m_data m) w d)" "m_actualSize m' \<noteq> 0"
    "mi_sequence (m_info m') = mi_sequence (m_info m) + 1"
    "4 + packed_size (dict_map (m_data m) w d) + inc < mf_size (m_data m')"
    "inc \<le> packed_size (dict_map (m_data m) w d) \<longrightarrow> progress m w m' w'"
proof -
  note f = store_inv_facts [OF inv]
  let ?m0 = "m\<lparr>m_dict := d\<rparr>"
  have c0: "content ?m0 w = dict_map (m_data m) w d" by (simp add: content_def)
  have d0: "gm_inv (m_dict ?m0)" "dict_live (m_data ?m0) w (m_dict ?m0)"
    using d dict_in_live [OF f(5,8)] by (simp_all add: dict_in_def)
  have pre: "writable ?m0 w" "meta_wf (m_info ?m0)" and ex: "m_enableExpire ?m0 = expireEnabled (m_info ?m0)"
    using f(1,11) inv by (simp_all add: writable_def store_inv_def)
  obtain m' w' where g: "fullWritebackGrow ns inc ?m0 w = (Inr (), m', w')"
    "store_inv m' w' (packed_log (content ?m0 w))" "content m' w' = content ?m0 w"
    "same_config ?m0 m'" "os_frame {mf_ino (m_data ?m0), mf_ino (m_meta ?m0)} w w'"
    "mi_sequence (m_info m') = mi_sequence (m_info ?m0) + 1" "m_actualSize m' \<noteq> 0"
    "mi_version (m_info m') = versionFlag" "4 + packed_size (content ?m0 w) + inc < mf_size (m_data m')"
    "unat (m_actualSize m') = packed_size (content ?m0 w)"
    "inc \<le> packed_size (content ?m0 w) \<longrightarrow>
       mf_size (m_data m') \<le> max (mf_size (m_data ?m0)) (size_limit (pagesize w) (content ?m0 w))"
    by (rule fullWritebackGrow_ok [OF pre d0 c [folded c0] small [folded c0] ex])
  have "inc \<le> packed_size (dict_map (m_data m) w d) \<longrightarrow> progress m w m' w'"
    using g(3,6,11) c0 by (simp add: progress_def)
  then show thesis
    by (intro that [OF g(1) g(2) [unfolded c0] packed_log_map [OF c]])
      (use g(4-10) c0 in \<open>simp_all add: same_config_def\<close>)
qed

lemma setBlob_ok:
  assumes inv: "store_inv m w ps" and e: "entry_ok k v" and sz: "sizes_ok m ((log_map ps)(k \<mapsto> v))"
  obtains m' w' ps' where "setBlob k v m w = (Inr (), m', w')" "store_inv m' w' ps'"
    "log_map ps' = (log_map ps)(k \<mapsto> v)" "same_config m m'"
    "os_frame {mf_ino (m_data m), mf_ino (m_meta m)} w w'" "progress m w m' w'"
proof -
  note f = store_inv_facts [OF inv]
  let ?bs = "encode_pair (k, v)"
  have bs: "writeData v (writeData k []) = ?bs" by (simp add: encode_pair_def)
  have fsz: "mf_size (m_data m) < 2 ^ 32" using sz by (simp add: sizes_ok_def)
  let ?fast = "m_crypt m = None \<and> versionFlag \<le> mi_version (m_info m)"
  have fast: "(Option.is_none (m_crypt m) \<and> \<not> m_needFullWriteback m \<and> mi_version (m_info m) \<ge> versionFlag)
      = ?fast"
    using inv by (simp add: store_inv_def Option.is_none_def)
  let ?over = "?fast \<and> \<not> m_multiProcess m \<and> 8 + length ?bs \<le> mf_size (m_data m) \<and>
    (gm_get (m_dict m) k \<noteq> None \<and> length (m_dict m) = 1 \<or> length (m_dict m) = 0 \<and> m_actualSize m > 0)"
  let ?app = "?fast \<and> 4 + unat (m_actualSize m) + length ?bs \<le> mf_size (m_data m) \<and> 0 < length (m_dict m)"
  let ?m0 = "m\<lparr>m_dict := gm_put k (Heap v) (m_dict m)\<rparr>"
  let ?start = "4 + unat (m_actualSize m) + (length ?bs - length v)"
  have room: "int (length ?bs) \<le> int (mf_size (m_data m)) - 4 - int (unat (m_actualSize m)) \<longleftrightarrow>
      4 + unat (m_actualSize m) + length ?bs \<le> mf_size (m_data m)" by linarith
  have run: "setBlob k v m w =
      (if ?over then overrideRaw k ?bs (length v) m w
       else if ?app then
         (case appendRaw ?bs m w of
            (Inl e, m1, w1) \<Rightarrow> (Inl e, m1, w1)
          | (Inr _, m1, w1) \<Rightarrow>
              (case go_slice ?start (?start + length v) (memory (m_data m1) w1) of
                 Inl e \<Rightarrow> (Inl e, m1, w1)
               | Inr _ \<Rightarrow> (Inr (), m1\<lparr>m_dict := gm_put k (View (mf_gen (m_data m1)) ?start (length v))
                                          (m_dict m1)\<rparr>, w1)))
       else fullWritebackGrow (length (m_dict m) \<noteq> 0) (length ?bs) ?m0 w)"
    unfolding setBlob_def Let_def bs fast fileSize_def room length_itemSizeHolderBytes by simp
  consider "?over" | "\<not> ?over" "?app" | "\<not> ?over" "\<not> ?app" by blast
  then show thesis
  proof cases
    case 1
    have "dom (log_map ps) \<subseteq> {k}"
      using 1 gm.len_one_iff [OF f(10), of k] gm.len_zero_iff [of "m_dict m"] store_inv_dom [OF inv]
      by auto
    then obtain m' w' where o: "overrideRaw k ?bs (length v) m w = (Inr (), m', w')"
      "store_inv m' w' [(k, v)]" "log_map [(k, v)] = (log_map ps)(k \<mapsto> v)"
      "same_config m m'" "os_frame {mf_ino (m_data m), mf_ino (m_meta m)} w w'"
      "m_data m' = m_data m" "mi_sequence (m_info m') = mi_sequence (m_info m)"
      using setBlob_override [OF inv e fsz] 1 by blast
    have "setBlob k v m w = (Inr (), m', w')" unfolding run if_P [OF 1] by (rule o(1))
    moreover have "progress m w m' w'" using o(6,7) 1 by (simp add: progress_def)
    ultimately show thesis using o(2-5) by (intro that)
  next
    case 2
    then have nz: "m_actualSize m \<noteq> 0" using store_inv_nonempty [OF inv] by blast
    obtain m1 w' where a: "appendRaw ?bs m w = (Inr (), m1, w')"
      "go_slice ?start (?start + length v) (memory (m_data m1) w') = Inr v"
      "store_inv (m1\<lparr>m_dict := gm_put k (View (mf_gen (m_data m1)) ?start (length v)) (m_dict m1)\<rparr>)
         w' (ps @ [(k, v)])"
      "same_config m m1" "os_frame {mf_ino (m_data m), mf_ino (m_meta m)} w w'"
      "\<forall>d. progress m w (m1\<lparr>m_dict := d\<rparr>) w'"
      using setBlob_append [OF inv e fsz _ _ nz] 2 by blast
    have r: "setBlob k v m w =
        (Inr (), m1\<lparr>m_dict := gm_put k (View (mf_gen (m_data m1)) ?start (length v)) (m_dict m1)\<rparr>, w')"
      unfolding run if_not_P [OF 2(1)] if_P [OF 2(2)] by (simp add: a(1,2))
    have "v \<noteq> []" using e by (simp add: entry_ok_def)
    then have lm: "log_map (ps @ [(k, v)]) = (log_map ps)(k \<mapsto> v)" by (simp add: entry_value_def)
    have "same_config m (m1\<lparr>m_dict := d\<rparr>)" "progress m w (m1\<lparr>m_dict := d\<rparr>) w'" for d
      using a(4,6) by (simp_all add: same_config_def)
    then show thesis by (rule that [OF r a(3) lm _ a(5)])
  next
    case 3
    let ?d = "gm_put k (Heap v) (m_dict m)"
    have c0: "dict_map (m_data m) w ?d = (log_map ps)(k \<mapsto> v)"
      using dict_map_put [of "m_data m" w "Heap v" v k "m_dict m"] f(4) by (simp add: content_def)
    have c: "content_ok (dict_map (m_data m) w ?d)"
      unfolding c0 using log_ok_content [OF store_inv_log_ok [OF inv]] e by (rule content_ok_update)
    have d: "dict_in (m_data m) (unat (m_actualSize m)) ?d" using f(3) by (simp add: dict_in_put)
    have small: "4 + packed_size (dict_map (m_data m) w ?d) < 2 ^ 32" using sz c0 by (simp add: sizes_ok_def)
    obtain m' w' where g:
      "fullWritebackGrow (length (m_dict m) \<noteq> 0) (length ?bs) ?m0 w = (Inr (), m', w')"
      "store_inv m' w' (packed_log (dict_map (m_data m) w ?d))"
      "log_map (packed_log (dict_map (m_data m) w ?d)) = dict_map (m_data m) w ?d" "same_config m m'"
      "os_frame {mf_ino (m_data m), mf_ino (m_meta m)} w w'" "mi_version (m_info m') = versionFlag"
      "unat (m_actualSize m') = packed_size (dict_map (m_data m) w ?d)" "m_actualSize m' \<noteq> 0"
      "length ?bs \<le> packed_size (dict_map (m_data m) w ?d) \<longrightarrow> progress m w m' w'"
      by (rule writeback_with [OF inv d c small])
    have "length ?bs \<le> packed_size (dict_map (m_data m) w ?d)"
      using c unfolding c0 by (intro packed_size_entry) (simp_all add: content_ok_def)
    with g(9) have pr: "progress m w m' w'" ..
    have r: "setBlob k v m w = (Inr (), m', w')"
      unfolding run if_not_P [OF 3(1)] if_not_P [OF 3(2)] by (rule g(1))
    show thesis using r g(2) [unfolded c0] g(3) [unfolded c0] g(4,5) pr by (rule that)
  qed
qed

section \<open>Removing\<close>

lemma removeLocked_ok:
  assumes inv: "store_inv m w ps" and plain: "m_crypt m = None"
    and sz: "sizes_ok m ((log_map ps)(k := None))"
  obtains m' w' ps' where "removeLocked k m w = (Inr (), m', w')" "store_inv m' w' ps'"
    "log_map ps' = (log_map ps)(k := None)" "same_config m m'"
    "os_frame {mf_ino (m_data m), mf_ino (m_meta m)} w w'" "progress m w m' w'"
proof (cases "gm_get (m_dict m) k")
  case None
  then have "log_map ps k = None" using store_inv_dom [OF inv] by (auto simp: domIff)
  then show thesis
    using None inv by (intro that [of m w ps]) (auto simp: removeLocked_def fun_upd_idem)
next
  case (Some s)
  note f = store_inv_facts [OF inv]
  let ?d = "gm_del k (m_dict m)" and ?bs = "encode_pair (k, [])"
  let ?m0 = "m\<lparr>m_dict := ?d\<rparr>"
  have bs: "writeData [] (writeData k []) = ?bs" by (simp add: encode_pair_def)
  have "log_map ps k \<noteq> None" using Some store_inv_dom [OF inv] by blast
  then have p: "pair_ok (k, [])"
    using log_map_keys [OF store_inv_log_ok [OF inv]] by (auto simp: pair_ok_def)
  have d: "dict_in (m_data m) (unat (m_actualSize m)) ?d" using f(3) by (rule dict_in_del)
  have dm: "dict_map (m_data m) w ?d = (log_map ps)(k := None)"
    using f(4) by (simp add: dict_map_del content_def)
  let ?app = "4 + unat (m_actualSize m) + length ?bs \<le> mf_size (m_data m) \<and>
    mi_version (m_info m) \<ge> versionFlag \<and> m_actualSize m > 0 \<and> \<not> m_needFullWriteback m"
  have room: "int (length ?bs) \<le> int (mf_size (m_data m)) - 4 - int (unat (m_actualSize m)) \<longleftrightarrow>
      4 + unat (m_actualSize m) + length ?bs \<le> mf_size (m_data m)" by linarith
  have run: "removeLocked k m w = (if ?app then appendRaw ?bs ?m0 w else fullWriteback ?m0 w)"
    using Some room unfolding removeLocked_def Let_def bs fileSize_def by simp
  show thesis
  proof (cases ?app)
    case True
    have w0: "writable ?m0 w" "synced ?m0 w ps" "m_crypt ?m0 = None" "versionFlag \<le> mi_version (m_info ?m0)"
      "m_actualSize ?m0 \<noteq> 0" "4 + unat (m_actualSize ?m0) + length ?bs \<le> mf_size (m_data ?m0)"
      "4 + unat (m_actualSize ?m0) + length ?bs < 2 ^ 32"
      using f(1,2) plain True sz by (auto simp: writable_def synced_def sizes_ok_def)
    obtain m' w' actual crc where a: "appendRaw ?bs ?m0 w = (Inr (), m', w')"
      "m' = ?m0\<lparr>m_actualSize := actual, m_crcDigest := crc,
            m_info := (m_info ?m0)\<lparr>mi_actualSize := actual, mi_crcDigest := crc\<rparr>\<rparr>"
      "unat actual = unat (m_actualSize ?m0) + length ?bs"
      "data_file ?m0 w' = overwrite (4 + unat (m_actualSize ?m0)) ?bs (data_file ?m0 w)"
      "w' = w\<lparr>files := files w'\<rparr>" "os_frame {mf_ino (m_data ?m0), mf_ino (m_meta ?m0)} w w'"
      "writable m' w'" "synced m' w' (ps @ [(k, [])])"
      by (rule appendRaw_synced [OF w0(1-5) p w0(6,7)])
    have len: "length (data_file m w) = mf_size (m_data m)" using f(5) by (simp add: mf_mapped_def)
    have map': "mf_mapped (m_data m) w'" using a(2,7) by (simp add: writable_def mf_ok_def)
    have "take (unat (m_actualSize m)) (drop 4 (data_file m w')) = take (unat (m_actualSize m)) (drop 4 (data_file m w))"
      using a(4) True len by (simp add: take_drop_overwrite_before)
    then have "dict_map (m_data m) w' ?d = (log_map ps)(k := None)"
      using dict_map_in [OF map' f(8) d] dict_map_in [OF f(5,8) d] dm by simp
    moreover have "dict_in (m_data m) (unat actual) ?d" using dict_in_mono [OF d] a(3) by simp
    moreover have lm: "log_map (ps @ [(k, [])]) = (log_map ps)(k := None)" by (simp add: entry_value_def)
    ultimately have i: "store_inv m' w' (ps @ [(k, [])])"
      using a(2,7,8) inv by (simp add: store_inv_def loaded_def content_def expireEnabled_def)
    have r: "removeLocked k m w = (Inr (), m', w')" unfolding run if_P [OF True] by (rule a(1))
    have "same_config m m'" "progress m w m' w'"
      using a(2,3) True
      by (simp_all add: same_config_def progress_def word_less_nat_alt)
    then show thesis using a(6) by (intro that [OF r i lm]) simp_all
  next
    case False
    have c: "content_ok (dict_map (m_data m) w ?d)"
      unfolding dm using log_ok_content [OF store_inv_log_ok [OF inv]] by (rule content_ok_delete)
    have small: "4 + packed_size (dict_map (m_data m) w ?d) < 2 ^ 32" using sz dm by (simp add: sizes_ok_def)
    obtain m' w' where g: "fullWritebackGrow True 0 ?m0 w = (Inr (), m', w')"
      "store_inv m' w' (packed_log (dict_map (m_data m) w ?d))"
      "log_map (packed_log (dict_map (m_data m) w ?d)) = dict_map (m_data m) w ?d" "same_config m m'"
      "os_frame {mf_ino (m_data m), mf_ino (m_meta m)} w w'" "mi_version (m_info m') = versionFlag"
      "unat (m_actualSize m') = packed_size (dict_map (m_data m) w ?d)" "m_actualSize m' \<noteq> 0"
      "progress m w m' w'"
      by (rule writeback_with [OF inv d c small, of True 0]) simp
    have r: "removeLocked k m w = (Inr (), m', w')"
      unfolding run if_not_P [OF False] fullWriteback_def by (rule g(1))
    show thesis using r g(2) [unfolded dm] g(3) [unfolded dm] g(4,5,9) by (rule that)
  qed
qed

text \<open>Deleting a list of keys, as the loop of \<^verbatim>\<open>RemoveValuesForKeys\<close> does.\<close>

lemma remove_keys_fold:
  assumes "dict_in mf n d"
    and "fold (\<lambda>k (d, r). if gm_get d k \<noteq> None then (gm_del k d, True) else (d, r)) keys (d, r) = (d', r')"
  shows "dict_in mf n d' \<and> dict_map mf w d' = dict_map mf w d |` (- set keys) \<and> (\<not> r' \<longrightarrow> d' = d \<and> \<not> r)"
  using assms
proof (induction keys arbitrary: d r)
  case Nil
  then show ?case by (auto simp: restrict_map_def fun_eq_iff)
next
  case (Cons k keys)
  show ?case
  proof (cases "gm_get d k = None")
    case True
    then have "dict_map mf w d k = None" by (simp add: dict_map_def)
    then have "dict_map mf w d |` (- set keys) = dict_map mf w d |` (- set (k # keys))"
      by (auto simp: restrict_map_def fun_eq_iff)
    then show ?thesis using Cons.IH [OF Cons.prems(1), of r] Cons.prems(2) True by simp
  next
    case False
    then have "fold (\<lambda>k (d, r). if gm_get d k \<noteq> None then (gm_del k d, True) else (d, r)) keys (gm_del k d, True) = (d', r')"
      using Cons.prems(2) by simp
    note ih = Cons.IH [OF dict_in_del [OF Cons.prems(1)] this]
    have e: "dict_map mf w (gm_del k d) |` (- set keys) = dict_map mf w d |` (- set (k # keys))"
      by (auto simp: dict_map_del restrict_map_def fun_eq_iff)
    show ?thesis using ih unfolding e by blast
  qed
qed

lemma content_ok_restrict: "content_ok c \<Longrightarrow> content_ok (c |` S)"
  by (auto simp: content_ok_def restrict_map_def split: if_splits intro: rev_finite_subset)

lemma removeKeysLocked_ok:
  assumes inv: "store_inv m w ps" and sz: "sizes_ok m (log_map ps |` (- set keys))"
  obtains m' w' ps' where "removeKeysLocked keys m w = (Inr (), m', w')" "store_inv m' w' ps'"
    "log_map ps' = log_map ps |` (- set keys)" "same_config m m'"
    "os_frame {mf_ino (m_data m), mf_ino (m_meta m)} w w'" "progress m w m' w'"
proof -
  note f = store_inv_facts [OF inv]
  obtain d r where fold: "fold (\<lambda>k (d, r). if gm_get d k \<noteq> None then (gm_del k d, True) else (d, r))
      keys (m_dict m, False) = (d, r)"
    by (cases "fold (\<lambda>k (d, r). if gm_get d k \<noteq> None then (gm_del k d, True) else (d, r)) keys (m_dict m, False)")
  note k = remove_keys_fold [OF f(3) fold, of w]
  have dm: "dict_map (m_data m) w d = log_map ps |` (- set keys)" using k f(4) by (simp add: content_def)
  have d: "dict_in (m_data m) (unat (m_actualSize m)) d" using k by blast
  show thesis
  proof (cases r)
    case False
    then have "d = m_dict m" using k by blast
    then have "log_map ps = log_map ps |` (- set keys)" using dm f(4) by (simp add: content_def)
    then show thesis
      using False fold inv by (intro that [of m w ps]) (auto simp: removeKeysLocked_def)
  next
    case True
    have c: "content_ok (dict_map (m_data m) w d)"
      unfolding dm using log_ok_content [OF store_inv_log_ok [OF inv]] by (rule content_ok_restrict)
    have small: "4 + packed_size (dict_map (m_data m) w d) < 2 ^ 32" using sz dm by (simp add: sizes_ok_def)
    obtain m' w' where g: "fullWritebackGrow True 0 (m\<lparr>m_dict := d\<rparr>) w = (Inr (), m', w')"
      "store_inv m' w' (packed_log (dict_map (m_data m) w d))"
      "log_map (packed_log (dict_map (m_data m) w d)) = dict_map (m_data m) w d" "same_config m m'"
      "os_frame {mf_ino (m_data m), mf_ino (m_meta m)} w w'" "mi_version (m_info m') = versionFlag"
      "unat (m_actualSize m') = packed_size (dict_map (m_data m) w d)" "m_actualSize m' \<noteq> 0"
      "progress m w m' w'"
      by (rule writeback_with [OF inv d c small, of True 0]) simp
    have r: "removeKeysLocked keys m w = (Inr (), m', w')"
      using fold True g(1) by (simp add: removeKeysLocked_def fullWriteback_def)
    show thesis using r g(2) [unfolded dm] g(3) [unfolded dm] g(4,5,9) by (rule that)
  qed
qed

section \<open>Clearing and trimming\<close>

lemma pageRoundUp_mono: "a \<le> b \<Longrightarrow> pageRoundUp p a \<le> pageRoundUp p b"
proof -
  assume ab: "a \<le> b"
  have "(a + p - 1) div p * p \<le> (b + p - 1) div p * p"
    using ab by (intro mult_le_mono1 div_le_mono) simp
  then show ?thesis
    using pageRoundUp_page [of p b] ab by (auto simp: pageRoundUp_def split: if_splits)
qed

lemma pageRoundUp_idem: "0 < p \<Longrightarrow> pageRoundUp p (pageRoundUp p n) = pageRoundUp p n"
  by (intro pageRoundUp_id pageRoundUp_dvd pageRoundUp_page)

lemma pageRoundUp_zero [simp]: "pageRoundUp p 0 = p"
  by (simp add: pageRoundUp_def)

lemma clearAllLocked_ok:
  assumes w: "writable m w" and wf: "meta_wf (m_info m)" and ex: "m_enableExpire m = expireEnabled (m_info m)"
  obtains m' w' where "clearAllLocked m w = (Inr (), m', w')" "store_inv m' w' []" "same_config m m'"
    "os_frame {mf_ino (m_data m), mf_ino (m_meta m)} w w'" "mf_size (m_data m') = pagesize w"
    "progress m w m' w'"
proof -
  have ok: "mf_ok (m_data m) w" "mf_ok (m_meta m) w" "mf_ino (m_data m) \<noteq> mf_ino (m_meta m)"
      "metaSize \<le> mf_size (m_meta m)" "faults w = []" "4 \<le> pagesize w"
    using w by (auto simp: writable_def)
  obtain r d w1 where t: "MemFile.truncate 0 (m_data m) w = (r, d, w1)"
    by (cases "MemFile.truncate 0 (m_data m) w") auto
  note tr = truncate_ok [OF ok(5,1) t]
  let ?w2 = "set_file (mf_ino d) (overwrite 0 (replicate 4 0) (files w1 (mf_ino d))) w1"
  let ?info = "(m_info m)\<lparr>mi_sequence := mi_sequence (m_info m) + 1, mi_version := versionFlag,
      mi_actualSize := 0, mi_crcDigest := 0, mi_lastActualSize := 0, mi_lastCRCDigest := 0\<rparr>"
  let ?w3 = "set_file (mf_ino (m_meta m)) (overwrite 0 (marshal ?info) (files w1 (mf_ino (m_meta m)))) ?w2"
  let ?m' = "m\<lparr>m_data := d, m_dict := [], m_actualSize := 0, m_crcDigest := 0, m_info := ?info,
      m_needFullWriteback := False\<rparr>"
  have f1: "os_frame {mf_ino (m_data m)} w w1"
    by (subst tr(8), rule os_frame_files) (simp add: tr(7))
  have size: "mf_size d = pagesize w" using tr(6) by simp
  have put: "mem_put d 0 (replicate 4 0) w1 = Inr ?w2"
    using tr(2) size ok(6) by (intro mem_put_ok) auto
  have ok2: "mf_ok d ?w2" using tr(2) size ok(6) by (intro mf_ok_put) auto
  have okm1: "mf_ok (m_meta m) w1" using ok(2,3) f1 by (simp add: mf_ok_def mf_mapped_def os_frame_def)
  have okm: "mf_ok (m_meta m) ?w2" using okm1 ok(3) tr(3) by (simp add: mf_ok_frame)
  have wfi: "meta_wf ?info" using wf by (simp add: meta_wf_def)
  have copy: "mem_copy (m_meta m) 0 (marshal ?info) ?w2 = Inr ?w3"
    using mem_copy_meta [OF okm ok(4) wfi] ok(3) tr(3) by simp
  have fr: "os_frame {mf_ino (m_data m), mf_ino (m_meta m)} w ?w3"
    using os_frame_mono [OF f1, of "{mf_ino (m_data m), mf_ino (m_meta m)}"] tr(3)
    by (auto intro!: os_frame_trans [OF _ os_frame_set_file])
  have run: "clearAllLocked m w = (Inr (), ?m', ?w3)"
    using t tr(1) put copy fr ok(5) by (simp add: clearAllLocked_def Let_def msyncBoth_def os_frame_def)
  have okd3: "mf_ok d ?w3" using ok2 ok(3) tr(3) by (simp add: mf_ok_frame)
  have okm3: "mf_ok (m_meta m) ?w3"
    using okm1 wfi ok(4) by (simp add: mf_ok_def mf_mapped_def)
  have pm: "parseMeta (meta_file m ?w3) = Inr ?info"
    using wfi ok(4) okm1 by (simp add: parse_marshal_copy mf_ok_def mf_mapped_def)
  have da: "disk_actual ?info D = 0" for D by (simp add: disk_actual_def meta_versions)
  have "4 \<le> length (data_file m ?w3)"
    using okd3 size ok(6) tr(3) by (simp add: mf_ok_def mf_mapped_def)
  then have disk: "on_disk (m_crypt m) (data_file m ?w3) (meta_file m ?w3) ?info []"
    unfolding on_disk_def da
    using pm by (simp add: in_file_def region_at_def region_log_def maxSupportedVersion_def)
  have wr: "writable ?m' ?w3"
    using w okd3 okm3 ok tr(3) fr size by (simp add: writable_def os_frame_def)
  have "synced ?m' ?w3 []"
    using disk da okd3 okm3 tr(3) ex by (simp add: synced_def mf_ok_def expireEnabled_def)
  then have inv: "store_inv ?m' ?w3 []"
    using wr ex by (simp add: store_inv_def loaded_def content_def expireEnabled_def)
  have "progress m w ?m' ?w3"
    by (rule progress_rewrite [OF _ store_inv_facts(4) [OF inv]]) (simp_all add: size size_limit_def)
  then show thesis
    by (intro that [OF run inv _ fr]) (use tr(3-5) size in \<open>simp_all add: same_config_def\<close>)
qed

lemma shrinkSize_le: "shrinkSize limit target \<le> target"
proof (induction limit target rule: shrinkSize.induct)
  case (1 limit target)
  then show ?case by (subst shrinkSize.simps) auto
qed

lemma shrinkSize_limit: "shrinkSize limit target \<le> limit"
proof (induction limit target rule: shrinkSize.induct)
  case (1 limit target)
  then show ?case by (subst shrinkSize.simps) auto
qed

lemma shrinkSize_ge: "shrinkSize (2 * n) target = target \<or> n \<le> shrinkSize (2 * n) target"
proof (induction "2 * n" target rule: shrinkSize.induct)
  case (1 target)
  show ?case
  proof (cases "2 * n < target")
    case True
    then have "shrinkSize (2 * n) target = shrinkSize (2 * n) (target div 2)"
      by (subst shrinkSize.simps) simp
    moreover have "n \<le> target div 2" using True by linarith
    ultimately show ?thesis using "1.hyps" [OF True] by auto
  qed (subst shrinkSize.simps, simp)
qed

text \<open>Shrinking the file behind the region and rebuilding the views.\<close>

lemma shrink_ok:
  assumes inv: "store_inv m w ps" and t: "MemFile.truncate n (m_data m) w = (r, d, w1)"
    and fits: "4 + unat (m_actualSize m) \<le> n"
  obtains m' where "r = Inr ()"
    "decodeRegion (m_actualSize m) (m_crcDigest m) (m\<lparr>m_data := d\<rparr>) w1 = (Inr (), m')"
    "store_inv m' w1 ps" "same_config m m'" "os_frame {mf_ino (m_data m)} w w1"
    "mf_size (m_data m') = pageRoundUp (pagesize w) n" "m_actualSize m' = m_actualSize m"
    "m_info m' = m_info m"
proof -
  note f = store_inv_facts [OF inv]
  have ok: "mf_ok (m_data m) w" "mf_ok (m_meta m) w" "mf_ino (m_data m) \<noteq> mf_ino (m_meta m)" "4 \<le> pagesize w"
    using f(1) by (auto simp: writable_def)
  note tr = truncate_ok [OF f(12) ok(1) t]
  let ?a = "m_actualSize m" and ?m1 = "m\<lparr>m_data := d\<rparr>"
  have big: "4 + unat ?a \<le> mf_size d"
    using fits tr(6) pageRoundUp_ge [of "pagesize w" n] ok(4) by linarith
  have D1: "data_file m w1 = resize (mf_size d) (data_file m w)" using tr(7) by simp
  have len: "4 + unat ?a \<le> length (data_file m w)" using f(7) by (simp add: in_file_def)
  have reg: "region_at ?a (data_file m w1) = region_at ?a (data_file m w)"
    unfolding region_at_def D1 using big len by (intro take_drop_resize) auto
  have head: "getUint32 (data_file m w1) = getUint32 (data_file m w)"
    unfolding getUint32_def D1 using big len by (subst take_resize) auto
  have inf: "in_file ?a (data_file m w1)" using f(7) big D1 by (simp add: in_file_def)
  have da: "disk_actual (m_info m) (data_file m w1) = ?a"
    using f(2) head by (simp add: synced_def disk_actual_def)
  have fr: "os_frame {mf_ino (m_data m)} w w1"
    by (subst tr(8), rule os_frame_files) (simp add: tr(7))
  have okm: "mf_ok (m_meta m) w1" using ok(2,3) fr by (simp add: mf_ok_def mf_mapped_def os_frame_def)
  have meta: "meta_file m w1 = meta_file m w" using fr ok(3) by (simp add: os_frame_def)
  have disk: "on_disk (m_crypt m) (data_file m w1) (meta_file m w1) (m_info m) ps"
    using f(2) inf reg da meta by (simp add: synced_def on_disk_def)
  have rl: "region_log (m_crypt m) (mi_iv (m_info m)) (region_at ?a (data_file m w1)) ps"
    using disk da by (simp add: on_disk_def)
  obtain dd where dd: "decodeRegion ?a (m_crcDigest m) ?m1 w1 =
      (Inr (), ?m1\<lparr>m_dict := dd, m_actualSize := ?a, m_crcDigest := m_crcDigest m\<rparr>)"
    "dict_in (m_data ?m1) (unat ?a) dd" "dict_map (m_data ?m1) w1 dd = log_map ps"
    by (rule decodeRegion_log [of ?m1 w1 ?a ps "m_crcDigest m"])
      (use tr(2,3) inf rl f(11) in \<open>simp_all add: mf_ok_def\<close>)
  let ?m' = "?m1\<lparr>m_dict := dd, m_actualSize := ?a, m_crcDigest := m_crcDigest m\<rparr>"
  have wr: "writable ?m' w1"
    using f(1) tr(2,3) okm big fr by (simp add: writable_def os_frame_def)
  have "synced ?m' w1 ps"
    using disk da f(2) tr(2,3) okm by (simp add: synced_def mf_ok_def)
  then have inv': "store_inv ?m' w1 ps"
    using wr dd inv by (simp add: store_inv_def loaded_def content_def)
  show thesis
    by (rule that [OF tr(1) dd(1) inv' _ fr]) (use tr(3-6) in \<open>simp_all add: same_config_def\<close>)
qed

text \<open>Cutting the file down after the write-back: to the limit, and never below the region.\<close>

lemma trim_cut:
  assumes wb: "m_actualSize m\<^sub>0 \<noteq> 0" "fullWriteback m\<^sub>0 w\<^sub>0 = (Inr (), m, w)"
    and inv: "store_inv m w ps"
  defines "n \<equiv> unat (m_actualSize m) + 4"
  obtains m' w' where "trimLocked m\<^sub>0 w\<^sub>0 = (Inr (), m', w')" "store_inv m' w' ps" "same_config m m'"
    "os_frame {mf_ino (m_data m)} w w'" "mf_size (m_data m') \<le> pageRoundUp (pagesize w) (2 * n)"
    "m_info m' = m_info m"
proof -
  let ?t = "max (shrinkSize (n * 2) (mf_size (m_data m))) (pagesize w)"
  note run = wb n_def trimLocked_def andThen_def Let_def fileSize_def
  have pg: "0 < pagesize w" using store_inv_facts(1) [OF inv] by (simp add: writable_def)
  have le: "?t \<le> pageRoundUp (pagesize w) (2 * n)"
    using shrinkSize_limit [of "n * 2" "mf_size (m_data m)"] pageRoundUp_ge [OF pg, of "2 * n"]
      pageRoundUp_page [of "pagesize w" "2 * n"] by (auto simp: mult.commute)
  show thesis
  proof (cases "mf_size (m_data m) \<le> ?t")
    case True
    then show thesis using inv order_trans [OF True le] by (intro that [of m w]) (simp_all add: run same_config_def os_frame_def)
  next
    case False
    have fits: "4 + unat (m_actualSize m) \<le> ?t"
      using shrinkSize_ge [of n "mf_size (m_data m)"] False by (auto simp: n_def mult.commute)
    obtain r d w1 where t: "MemFile.truncate ?t (m_data m) w = (r, d, w1)" by (cases "MemFile.truncate ?t (m_data m) w") auto
    obtain m1 where s: "r = Inr ()"
      "decodeRegion (m_actualSize m) (m_crcDigest m) (m\<lparr>m_data := d\<rparr>) w1 = (Inr (), m1)"
      "store_inv m1 w1 ps" "same_config m m1" "os_frame {mf_ino (m_data m)} w w1"
      "mf_size (m_data m1) = pageRoundUp (pagesize w) ?t" "m_actualSize m1 = m_actualSize m" "m_info m1 = m_info m"
      by (rule shrink_ok [OF inv t fits])
    have "mf_size (m_data m1) \<le> pageRoundUp (pagesize w) (2 * n)"
      using pageRoundUp_mono [OF le, of "pagesize w"] pageRoundUp_idem [OF pg] s(6) by simp
    then show thesis
      using False t s store_inv_facts(12) [OF s(3)] by (intro that [of m1 w1]) (simp_all add: run)
  qed
qed

lemma trim_size_limit: "0 < p \<Longrightarrow> pageRoundUp p (2 * (packed_size c + 4)) \<le> size_limit p c"
  using pageRoundUp_le [of p "2 * (packed_size c + 4)"] packed_size_card [of c] by (simp add: size_limit_def)

lemma trimLocked_ok:
  assumes inv: "store_inv m w ps" and sz: "sizes_ok m (log_map ps)"
  obtains m' w' ps' where "trimLocked m w = (Inr (), m', w')" "store_inv m' w' ps'" "log_map ps' = log_map ps"
    "same_config m m'" "os_frame {mf_ino (m_data m), mf_ino (m_meta m)} w w'"
    "mf_size (m_data m') \<le> pageRoundUp (pagesize w) (2 * (packed_size (log_map ps) + 4))"
    "progress m w m' w'"
proof (cases "m_actualSize m = 0")
  case True
  note f = store_inv_facts [OF inv]
  have ex: "m_enableExpire m = expireEnabled (m_info m)" using inv by (simp add: store_inv_def)
  obtain m' w' where c: "clearAllLocked m w = (Inr (), m', w')" "store_inv m' w' []" "same_config m m'"
    "os_frame {mf_ino (m_data m), mf_ino (m_meta m)} w w'" "mf_size (m_data m') = pagesize w" "progress m w m' w'"
    by (rule clearAllLocked_ok [OF f(1,11) ex])
  have "length (m_dict m) = 0" using store_inv_nonempty [OF inv] True by blast
  then have "dom (log_map ps) = {}"
    using store_inv_dom [OF inv] gm.len_zero_iff [of "m_dict m"] by simp
  then have "log_map ps = Map.empty" by simp
  then show thesis
    using True c pageRoundUp_page [of "pagesize w"] by (intro that [of m' w' "[]"]) (simp_all add: trimLocked_def)
next
  case False
  note f = store_inv_facts [OF inv]
  let ?c = "log_map ps" and ?is = "{mf_ino (m_data m), mf_ino (m_meta m)}"
  have dm: "dict_map (m_data m) w (m_dict m) = ?c" using f(4) by (simp add: content_def)
  have c: "content_ok (dict_map (m_data m) w (m_dict m))"
    unfolding dm by (rule log_ok_content [OF store_inv_log_ok [OF inv]])
  have small: "4 + packed_size (dict_map (m_data m) w (m_dict m)) < 2 ^ 32" using sz dm by (simp add: sizes_ok_def)
  obtain m1 w1 where g: "fullWriteback m w = (Inr (), m1, w1)" "store_inv m1 w1 (packed_log ?c)"
    "log_map (packed_log ?c) = ?c" "same_config m m1" "os_frame ?is w w1" "unat (m_actualSize m1) = packed_size ?c"
    "mi_sequence (m_info m1) = mi_sequence (m_info m) + 1"
    by (rule writeback_with [OF inv f(3) c small, of True 0, unfolded dm]) (simp add: fullWriteback_def)
  obtain m' w' where t: "trimLocked m w = (Inr (), m', w')"
    "store_inv m' w' (packed_log ?c)" "same_config m1 m'" "os_frame {mf_ino (m_data m1)} w1 w'"
    "mf_size (m_data m') \<le> pageRoundUp (pagesize w1) (2 * (unat (m_actualSize m1) + 4))" "m_info m' = m_info m1"
    by (rule trim_cut [OF False g(1,2)])
  have pg: "pagesize w1 = pagesize w" "0 < pagesize w" using g(5) f(1) by (simp_all add: os_frame_def writable_def)
  have size: "mf_size (m_data m') \<le> pageRoundUp (pagesize w) (2 * (packed_size ?c + 4))" using t(5) g(6) pg(1) by simp
  have "progress m w m' w'"
    by (rule progress_rewrite [OF _ store_inv_facts(4) [OF t(2)]])
      (use g(3,7) t(6) order_trans [OF size trim_size_limit [OF pg(2)]] in simp_all)
  moreover have "os_frame ?is w w'"
    using g(4,5) os_frame_mono [OF t(4), of ?is] by (auto simp: same_config_def intro: os_frame_trans)
  ultimately show thesis using that [OF t(1,2) g(3) same_config_trans [OF g(4) t(3)]] size by blast
qed

end
