(* ===== verification/StoreRead.thy ===== *)
theory StoreRead
  imports Store
begin

text \<open>
  Reading values from a loaded instance (\<^verbatim>\<open>value\<close>, \<^verbatim>\<open>bytesValue\<close> and the typed getters): what a getter
  returns is a function of the content, the expiration flag and the clock, and every slice handed out
  lies in the live mapping.
\<close>

section \<open>Reading under the invariant\<close>

text \<open>The value a stored blob shows at a time: the expiration stamp is stripped and checked.\<close>

definition live_value :: "bool \<Rightarrow> u32 \<Rightarrow> bytes \<Rightarrow> bytes option" where
  "live_value expire now b =
     (if expire \<and> 4 \<le> length b
      then let t = getUint32 (drop (length b - 4) b)
           in if t \<noteq> 0 \<and> t \<le> now then None else Some (take (length b - 4) b)
      else Some b)"

definition visible :: "mmkv \<Rightarrow> os \<Rightarrow> (bytes \<rightharpoonup> bytes)" where
  "visible m w = (\<lambda>k. Option.bind (content m w k) (live_value (m_enableExpire m) (nowUnix w)))"

definition decode_with :: "(codedInput \<Rightarrow> (goerr + 'a) \<times> codedInput) \<Rightarrow> bytes \<Rightarrow> 'a option" where
  "decode_with reader b = (case fst (reader (newCodedInput b)) of Inl _ \<Rightarrow> None | Inr x \<Rightarrow> Some x)"

text \<open>A dictionary all of whose slices lie in the live region.\<close>

definition readable :: "mmkv \<Rightarrow> os \<Rightarrow> bool" where
  "readable m w \<longleftrightarrow> mf_mapped (m_data m) w \<and>
     (\<exists>n. 4 + n \<le> mf_size (m_data m) \<and> dict_in (m_data m) n (m_dict m))"

lemma loaded_readable: "loaded m w ps \<Longrightarrow> readable m w"
  unfolding readable_def loaded_def synced_def on_disk_def in_file_def mf_mapped_def by metis

lemma slice_ok_subslice:
  assumes "slice_ok mf n s" "lo \<le> hi" "hi \<le> slice_len s"
  shows "slice_ok mf n (subslice lo hi s)" "slice_bytes R (subslice lo hi s) = take (hi - lo) (drop lo (slice_bytes R s))"
    "slice_len (subslice lo hi s) = hi - lo"
  using assms by (cases s; auto simp: drop_take min_def add.commute add.left_commute)+

lemma length_slice_bytes: "slice_ok mf n s \<Longrightarrow> length R = n \<Longrightarrow> length (slice_bytes R s) = slice_len s"
  by (cases s) auto

text \<open>\<^verbatim>\<open>value\<close> returns a live slice of exactly the visible bytes.\<close>

lemma mmkv_value_ok:
  assumes "readable m w"
  shows "case visible m w k of
      None \<Rightarrow> mmkv_value k m w = Inr None
    | Some b \<Rightarrow> \<exists>s. mmkv_value k m w = Inr (Some s) \<and> deref (m_data m) w s = Inr b \<and> slice_len s = length b \<and>
        (\<exists>n. 4 + n \<le> mf_size (m_data m) \<and> slice_ok (m_data m) n s)"
proof -
  obtain n where n: "mf_mapped (m_data m) w" "4 + n \<le> mf_size (m_data m)" "dict_in (m_data m) n (m_dict m)"
    using assms by (auto simp: readable_def)
  let ?R = "take n (drop 4 (data_file m w))"
  have len: "length ?R = n" using n(1,2) by (simp add: mf_mapped_def)
  have c: "content m w k = map_option (slice_bytes ?R) (gm_get (m_dict m) k)"
    using dict_map_in [OF n] by (simp add: content_def)
  show ?thesis
  proof (cases "gm_get (m_dict m) k")
    case None
    then show ?thesis using c by (simp add: visible_def mmkv_value_def)
  next
    case (Some s)
    have ok: "slice_ok (m_data m) n s" using n(3) Some by (simp add: dict_in_def)
    let ?b = "slice_bytes ?R s"
    have l: "length ?b = slice_len s" using length_slice_bytes [OF ok len] .
    show ?thesis
    proof (cases "m_enableExpire m \<and> 4 \<le> slice_len s")
      case False
      then show ?thesis
        using Some c l deref_slice_ok [OF n(1,2) ok] ok n(2)
        by (auto simp: visible_def live_value_def mmkv_value_def)
    next
      case True
      note tail = slice_ok_subslice [OF ok, of "slice_len s - 4" "slice_len s"]
      note init = slice_ok_subslice [OF ok, of 0 "slice_len s - 4"]
      have dt: "deref (m_data m) w (subslice (slice_len s - 4) (slice_len s) s) = Inr (drop (length ?b - 4) ?b)"
        using deref_slice_ok [OF n(1,2) tail(1)] tail(2) [of ?R] True l by simp
      have di: "deref (m_data m) w (subslice 0 (slice_len s - 4) s) = Inr (take (length ?b - 4) ?b)"
        using deref_slice_ok [OF n(1,2) init(1)] init(2) [of ?R] True l by simp
      show ?thesis
        using Some c True dt di init(1,3) l n(2)
        by (auto simp: visible_def live_value_def mmkv_value_def Let_def)
    qed
  qed
qed

lemma scalarValue_ok:
  assumes "readable m w"
  shows "scalarValue reader k m w = Inr (Option.bind (visible m w k) (decode_with reader))"
  using mmkv_value_ok [OF assms, of k]
  by (auto simp: scalarValue_def decode_with_def split: option.splits sum.splits)

lemma bytesValue_ok:
  assumes "readable m w"
  shows "case Option.bind (visible m w k) (decode_with readBytes) of
      None \<Rightarrow> bytesValue k m w = Inr None
    | Some b \<Rightarrow> \<exists>s. bytesValue k m w = Inr (Some s) \<and> deref (m_data m) w s = Inr b \<and> slice_len s = length b"
proof (cases "visible m w k")
  case None
  then show ?thesis using mmkv_value_ok [OF assms, of k] by (simp add: bytesValue_def)
next
  case (Some v)
  then obtain s n where s: "mmkv_value k m w = Inr (Some s)" "deref (m_data m) w s = Inr v" "slice_len s = length v"
    "4 + n \<le> mf_size (m_data m)" "slice_ok (m_data m) n s"
    using mmkv_value_ok [OF assms, of k] by auto
  have mapped: "mf_mapped (m_data m) w" using assms by (simp add: readable_def)
  show ?thesis
  proof (cases "fst (readView (newCodedInput v))")
    case (Inl e)
    then show ?thesis
      using Some s by (auto simp: bytesValue_def decode_with_def readBytes_def split: prod.splits)
  next
    case (Inr fv)
    obtain off l where fv: "fv = (off, l)" by (cases fv)
    obtain ci where rv: "readView (newCodedInput v) = (Inr (off, l), ci)"
      using Inr fv by (cases "readView (newCodedInput v)") auto
    have rng: "off + l \<le> length v"
      using readView_frame [OF rv] by (simp add: newCodedInput_def)
    note sub = slice_ok_subslice [OF s(5), of off "off + l"]
    have "deref (m_data m) w (subslice off (off + l) s) = Inr (view_bytes v (off, l))"
      using deref_slice_ok [OF mapped s(4) sub(1)] deref_slice_ok [OF mapped s(4,5)] s(2,3) rng sub(2)
      by (simp add: view_bytes_def)
    then show ?thesis
      using Some s rv rng sub(3)
      by (auto simp: bytesValue_def decode_with_def readBytes_def newCodedInput_def view_bytes_def)
  qed
qed

end
