(* ===== verification/MmkvOps.thy ===== *)
theory MmkvOps
  imports MmkvIO
begin

text \<open>
  The remaining operations of the instance: the public lock (\<^verbatim>\<open>mmkv_lock.go\<close>), re-keying
  (\<^verbatim>\<open>mmkv_crypt.go\<close>), expiration (\<^verbatim>\<open>mmkv_expire.go\<close>), compare-before-set (\<^verbatim>\<open>mmkv_compare.go\<close>),
  \<^verbatim>\<open>ImportFrom\<close>, and opening, caching and closing instances (\<^verbatim>\<open>MMKVWithID\<close>, \<^verbatim>\<open>open\<close>, \<^verbatim>\<open>Close\<close>).
\<close>

section \<open>The public lock\<close>

definition Lock :: "mmkv \<Rightarrow> os \<Rightarrow> (mmkv \<times> os) option" where
  "Lock m w =
     (if m_multiProcess m
      then (case lock ExclusiveLock (m_fl m) w of
              None \<Rightarrow> None | Some (_, l, w1) \<Rightarrow> Some (m\<lparr>m_fl := l\<rparr>, w1))
      else Some (m, w))"

definition Unlock :: "mmkv \<Rightarrow> os \<Rightarrow> (mmkv \<times> os) option" where
  "Unlock m w =
     (if m_multiProcess m
      then (case unlock ExclusiveLock (m_fl m) w of
              None \<Rightarrow> None | Some (_, l, w1) \<Rightarrow> Some (m\<lparr>m_fl := l\<rparr>, w1))
      else Some (m, w))"

definition TryLock :: "mmkv \<Rightarrow> os \<Rightarrow> (bool \<times> mmkv \<times> os) option" where
  "TryLock m w =
     (if \<not> m_multiProcess m then Some (True, m, w)
      else (case tryLock ExclusiveLock (m_fl m) w of
              None \<Rightarrow> None
            | Some (r, l, w1) \<Rightarrow> Some (case r of Inl _ \<Rightarrow> False | Inr ok \<Rightarrow> ok, m\<lparr>m_fl := l\<rparr>, w1)))"

section \<open>Encryption\<close>

text \<open>A panic in the write-back unwinds past the statement that restores the previous key.\<close>

definition rekeyLocked :: "bytes \<Rightarrow> unit step" where
  "rekeyLocked newKey m w =
     (let prev = m_crypt m;
          m1 = m\<lparr>m_crypt := (if newKey = [] then None else Some (newAESCFB newKey))\<rparr>
      in case fullWriteback m1 w of
           (Inl e, m2, w2) \<Rightarrow> (Inl e, if e = Panic then m2 else m2\<lparr>m_crypt := prev\<rparr>, w2)
         | (Inr _, m2, w2) \<Rightarrow> (Inr (), m2, w2))"

definition ReKey :: "bytes \<Rightarrow> unit op" where
  "ReKey newKey = writeOp (rekeyLocked newKey)"

definition IsEncryptionEnabled :: "bool op" where
  "IsEncryptionEnabled = withShared (\<lambda>m w. (Inr (\<not> Option.is_none (m_crypt m)), m, w))"

section \<open>Expiration\<close>

definition enableExpireLocked :: "u32 \<Rightarrow> unit step" where
  "enableExpireLocked seconds m w =
     (let wasEnabled = m_enableExpire m;
          m1 = m\<lparr>m_expiredSeconds := seconds, m_enableExpire := True, m_compareBeforeSet := False,
                 m_info := (m_info m)\<lparr>mi_flags := mi_flags (m_info m) OR flagEnableExpire\<rparr>\<rparr>
      in if wasEnabled then fullWriteback m1 w
         else if \<not> dict_live (m_data m1) w (m_dict m1) then (Inl Panic, m1, w)
         else fullWriteback
                (m1\<lparr>m_dict := map (\<lambda>(k, s). (k, Heap (dict_bytes (m_data m1) w (m_dict m1) k @ replicate 4 0)))
                               (m_dict m1)\<rparr>) w)"

definition EnableAutoKeyExpire :: "u32 \<Rightarrow> unit op" where
  "EnableAutoKeyExpire seconds = writeOp (enableExpireLocked seconds)"

fun stripValues :: "bytes list \<Rightarrow> mmkv \<Rightarrow> os \<Rightarrow> goerr + slice gomap" where
  "stripValues [] m w = Inr []"
| "stripValues (k # ks) m w =
     (case mmkv_value k m w of
        Inl e \<Rightarrow> Inl e
      | Inr None \<Rightarrow> stripValues ks m w
      | Inr (Some v) \<Rightarrow>
          (case deref (m_data m) w v of
             Inl e \<Rightarrow> Inl e
           | Inr b \<Rightarrow>
               (case stripValues ks m w of Inl e \<Rightarrow> Inl e | Inr d \<Rightarrow> Inr ((k, Heap b) # d))))"

definition disableExpireLocked :: "unit step" where
  "disableExpireLocked m w =
     (if \<not> m_enableExpire m then (Inr (), m, w)
      else (case stripValues (gm_keys (m_dict m)) m w of
              Inl e \<Rightarrow> (Inl e, m, w)
            | Inr d \<Rightarrow>
                fullWriteback
                  (m\<lparr>m_dict := d, m_enableExpire := False, m_expiredSeconds := 0,
                     m_info := (m_info m)\<lparr>mi_flags := mi_flags (m_info m) AND NOT flagEnableExpire\<rparr>\<rparr>) w))"

definition DisableAutoKeyExpire :: "unit op" where
  "DisableAutoKeyExpire = writeOp disableExpireLocked"

definition IsExpirationEnabled :: "bool op" where
  "IsExpirationEnabled = withShared (\<lambda>m w. (Inr (m_enableExpire m), m, w))"

section \<open>Compare before set\<close>

definition EnableCompareBeforeSet :: "unit op" where
  "EnableCompareBeforeSet =
     withExclusive (\<lambda>m w. (Inr (), if m_enableExpire m then m else m\<lparr>m_compareBeforeSet := True\<rparr>, w))"

definition DisableCompareBeforeSet :: "unit op" where
  "DisableCompareBeforeSet = withExclusive (\<lambda>m w. (Inr (), m\<lparr>m_compareBeforeSet := False\<rparr>, w))"

definition IsCompareBeforeSetEnabled :: "bool op" where
  "IsCompareBeforeSetEnabled = withShared (\<lambda>m w. (Inr (m_compareBeforeSet m), m, w))"

section \<open>ImportFrom\<close>

text \<open>
  Go ranges over a map in an unspecified order: \<open>order\<close> gives the order in which the keys of the
  source dictionary are visited.  The result is the number of keys imported and the error, if any.
\<close>

fun importLoop :: "(bytes \<times> bytes) list \<Rightarrow> nat \<Rightarrow> mmkv \<Rightarrow> os \<Rightarrow> (nat \<times> goerr option) \<times> mmkv \<times> os" where
  "importLoop [] n m w = ((n, None), m, w)"
| "importLoop ((k, v) # kvs) n m w =
     (case setValueLocked k v m w of
        (Inl e, m1, w1) \<Rightarrow> ((n, Some e), m1, w1)
      | (Inr _, m1, w1) \<Rightarrow> importLoop kvs (n + 1) m1 w1)"

fun snapshotValues :: "bytes list \<Rightarrow> mmkv \<Rightarrow> os \<Rightarrow> goerr + (bytes \<times> bytes) list" where
  "snapshotValues [] m w = Inr []"
| "snapshotValues (k # ks) m w =
     (case mmkv_value k m w of
        Inl e \<Rightarrow> Inl e
      | Inr None \<Rightarrow> snapshotValues ks m w
      | Inr (Some v) \<Rightarrow>
          (case deref (m_data m) w v of
             Inl e \<Rightarrow> Inl e
           | Inr b \<Rightarrow>
               (case snapshotValues ks m w of Inl e \<Rightarrow> Inl e | Inr kvs \<Rightarrow> Inr ((k, b) # kvs))))"

definition importSource :: "(slice gomap \<Rightarrow> bytes list) \<Rightarrow> (bytes \<times> bytes) list op" where
  "importSource order =
     withShared (\<lambda>src w.
       if m_closed src then (Inl ErrClosed, src, w)
       else (case checkLoadData src w of
               (Inl e, src1, w1) \<Rightarrow> (Inl e, src1, w1)
             | (Inr _, src1, w1) \<Rightarrow> (snapshotValues (order (m_dict src1)) src1 w1, src1, w1)))"

definition importInto :: "(bytes \<times> bytes) list \<Rightarrow> (nat \<times> goerr option) op" where
  "importInto kvs =
     withExclusive (\<lambda>m w.
       if m_closed m then (Inr (0, Some ErrClosed), m, w)
       else if m_readOnly m then (Inr (0, Some ErrReadOnly), m, w)
       else (case checkLoadData m w of
               (Inl e, m1, w1) \<Rightarrow> (Inl e, m1, w1)
             | (Inr _, m1, w1) \<Rightarrow> (case importLoop kvs 0 m1 w1 of (r, m2, w2) \<Rightarrow> (Inr r, m2, w2))))"

text \<open>For an instance other than the source; importing from itself (or nil) imports nothing.\<close>

definition ImportFrom ::
    "(slice gomap \<Rightarrow> bytes list) \<Rightarrow> mmkv \<Rightarrow> mmkv \<Rightarrow> os \<Rightarrow> ((goerr + nat \<times> goerr option) \<times> mmkv \<times> mmkv \<times> os) option" where
  "ImportFrom order src m w =
     (case importSource order src w of
        None \<Rightarrow> None
      | Some (Inl e, src1, w1) \<Rightarrow>
          Some (if e = ErrClosed then Inr (0, Some ErrClosed) else Inl e, src1, m, w1)
      | Some (Inr kvs, src1, w1) \<Rightarrow>
          (case importInto kvs m w1 of
             None \<Rightarrow> None
           | Some (r, m1, w2) \<Rightarrow> Some (r, src1, m1, w2)))"

section \<open>Opening and closing\<close>

record mmkvConfig =
  c_multiProcess :: bool
  c_readOnly :: bool
  c_cryptKey :: bytes
  c_onContentChanged :: bool
  c_recover :: bool

definition emptyConfig :: mmkvConfig where
  "emptyConfig = \<lparr>c_multiProcess = False, c_readOnly = False, c_cryptKey = [],
     c_onContentChanged = False, c_recover = False\<rparr>"

definition WithMultiProcess :: "mmkvConfig \<Rightarrow> mmkvConfig" where
  "WithMultiProcess c = c\<lparr>c_multiProcess := True\<rparr>"

definition WithReadOnly :: "mmkvConfig \<Rightarrow> mmkvConfig" where
  "WithReadOnly c = c\<lparr>c_readOnly := True\<rparr>"

definition WithCryptKey :: "bytes \<Rightarrow> mmkvConfig \<Rightarrow> mmkvConfig" where
  "WithCryptKey key c = c\<lparr>c_cryptKey := key\<rparr>"

definition WithContentChangedHandler :: "bool \<Rightarrow> mmkvConfig \<Rightarrow> mmkvConfig" where
  "WithContentChangedHandler fn c = c\<lparr>c_onContentChanged := fn\<rparr>"

definition WithRecoverOnError :: "mmkvConfig \<Rightarrow> mmkvConfig" where
  "WithRecoverOnError c = c\<lparr>c_recover := True\<rparr>"

text \<open>The zero value of the struct's pointers and of its meta record.\<close>

definition nil_file :: memoryFile where
  "nil_file = \<lparr>mf_ino = 0, mf_ofd = 0, mf_open = False, mf_data = None, mf_size = 0, mf_gen = 0,
     mf_readOnly = False\<rparr>"

definition zero_info :: metaInfo where
  "zero_info = \<lparr>mi_crcDigest = 0, mi_version = 0, mi_sequence = 0, mi_iv = replicate 16 0,
     mi_actualSize = 0, mi_lastActualSize = 0, mi_lastCRCDigest = 0, mi_flags = 0\<rparr>"

definition newMMKV :: "string \<Rightarrow> string \<Rightarrow> string \<Rightarrow> mmkvConfig \<Rightarrow> mmkv" where
  "newMMKV rootDir mmapID key cfg =
     \<lparr>m_rootDir = rootDir, m_mmapID = mmapID, m_key = key, m_multiProcess = c_multiProcess cfg,
      m_readOnly = c_readOnly cfg, m_fl = newFileLock 0 0, m_data = nil_file, m_meta = nil_file,
      m_crypt = (if c_cryptKey cfg = [] then None else Some (newAESCFB (c_cryptKey cfg))),
      m_info = zero_info, m_dict = [], m_actualSize = 0, m_crcDigest = 0, m_needLoad = False,
      m_closed = False, m_lastErr = None, m_needFullWriteback = False, m_enableExpire = False,
      m_expiredSeconds = 0, m_compareBeforeSet = False,
      m_onContentChanged = c_onContentChanged cfg, m_recover = c_recover cfg\<rparr>"

definition openFiles :: "mmkv \<Rightarrow> os \<Rightarrow> (goerr + memoryFile \<times> memoryFile) \<times> os" where
  "openFiles m w =
     (let dataPath = dataPathFor (m_rootDir m) (m_mmapID m)
      in if m_readOnly m
         then (case openMemoryFileReadOnly dataPath w of
                 (Inl e, w1) \<Rightarrow> (Inl e, w1)
               | (Inr d, w1) \<Rightarrow>
                   (case openMemoryFileReadOnly (dataPath @ crcSuffix) w1 of
                      (Inl e, w2) \<Rightarrow> (Inl e, snd (snd (mf_close d w2)))
                    | (Inr mt, w2) \<Rightarrow> (Inr (d, mt), w2)))
         else (case syscall w of
                 (False, w1) \<Rightarrow> (Inl ErrMkdir, w1)
               | (True, w1) \<Rightarrow>
                   (case openMemoryFile dataPath 0 w1 of
                      (Inl e, w2) \<Rightarrow> (Inl e, w2)
                    | (Inr d, w2) \<Rightarrow>
                        (case openMemoryFile (dataPath @ crcSuffix) metaSize w2 of
                           (Inl e, w3) \<Rightarrow> (Inl e, snd (snd (mf_close d w3)))
                         | (Inr mt, w3) \<Rightarrow> (Inr (d, mt), w3)))))"

definition mmkv_open :: "unit op" where
  "mmkv_open m0 w =
     (case openFiles m0 w of
        (Inl e, w1) \<Rightarrow> Some (Inl e, m0, w1)
      | (Inr (d, mt), w1) \<Rightarrow>
          (case loadData (m0\<lparr>m_data := d, m_meta := mt, m_fl := newFileLock (mf_ino mt) (mf_ofd mt)\<rparr>) w1 of
             (Inl e, m) \<Rightarrow> Some (Inl e, m, w1)
           | (Inr _, m) \<Rightarrow>
               if \<not> m_readOnly m \<and> m_needFullWriteback m then withExclusive fullWriteback m w1
               else Some (Inr (), m, w1)))"

text \<open>
  The instances of a process and its registry (\<^verbatim>\<open>gInstances\<close>): a pointer to an instance is an index
  into \<open>p_heap\<close>.
\<close>

record process =
  p_heap :: "nat \<Rightarrow> mmkv"
  p_next :: nat
  p_reg :: "string \<Rightarrow> nat option"

definition registryKey :: "string \<Rightarrow> string \<Rightarrow> os \<Rightarrow> string \<times> os" where
  "registryKey rootDir mmapID w =
     (let p = dataPathFor rootDir mmapID
      in case (if is_abs p then (True, w) else syscall w) of
           (ok, w1) \<Rightarrow> (if ok then filepath_Abs (cwd w1) p else filepath_Clean p, w1))"

definition MMKVWithID ::
    "string \<Rightarrow> string \<Rightarrow> (mmkvConfig \<Rightarrow> mmkvConfig) list \<Rightarrow> process \<Rightarrow> os \<Rightarrow> ((goerr + nat) \<times> process \<times> os) option" where
  "MMKVWithID rootDir mmapID opts p w =
     (case registryKey rootDir mmapID w of (key, w0) \<Rightarrow>
        let cfg = fold (\<lambda>opt c. opt c) opts emptyConfig;
            cached = (case p_reg p key of
                        None \<Rightarrow> None
                      | Some i \<Rightarrow> if m_closed (p_heap p i) then None else Some i)
        in case cached of
             Some i \<Rightarrow> Some (Inr i, p, w0)
           | None \<Rightarrow>
               (case mmkv_open (newMMKV rootDir mmapID key cfg) w0 of
                  None \<Rightarrow> None
                | Some (Inl e, _, w1) \<Rightarrow> Some (Inl e, p, w1)
                | Some (Inr _, m, w1) \<Rightarrow>
                    let i = p_next p
                    in Some (Inr i, p\<lparr>p_heap := (p_heap p)(i := m), p_next := i + 1,
                                     p_reg := (p_reg p)(key \<mapsto> i)\<rparr>, w1)))"

definition closeFiles :: "unit step" where
  "closeFiles m w =
     (case mf_close (m_data m) w of (e1, d, w1) \<Rightarrow>
        (case mf_close (m_meta m) w1 of (e2, mt, w2) \<Rightarrow>
           ((case e1 of Inl e \<Rightarrow> Inl e | Inr _ \<Rightarrow> e2), m\<lparr>m_data := d, m_meta := mt\<rparr>, w2)))"

text \<open>
  \<^verbatim>\<open>Close\<close> first takes the instance out of the registry, under the registry's mutex, and then closes it,
  under its own.
\<close>

definition unregister :: "nat \<Rightarrow> process \<Rightarrow> process" where
  "unregister i p =
     (let key = m_key (p_heap p i)
      in if p_reg p key = Some i then p\<lparr>p_reg := (p_reg p)(key := None)\<rparr> else p)"

definition shutdown :: "nat \<Rightarrow> process \<Rightarrow> os \<Rightarrow> (goerr + unit) \<times> process \<times> os" where
  "shutdown i p w =
     (if m_closed (p_heap p i) then (Inr (), p, w)
      else (case closeFiles ((p_heap p i)\<lparr>m_closed := True\<rparr>) w of
              (r, m1, w1) \<Rightarrow> (r, p\<lparr>p_heap := (p_heap p)(i := m1)\<rparr>, w1)))"

definition Close :: "nat \<Rightarrow> process \<Rightarrow> os \<Rightarrow> (goerr + unit) \<times> process \<times> os" where
  "Close i p w = shutdown i (unregister i p) w"

end
