(* ===== verification/StoreCfg.thy ===== *)
theory StoreCfg
  imports StoreRead MmkvOps
begin

text \<open>
  The locked bodies of \<^verbatim>\<open>setValue\<close> (with compare-before-set and expiration), \<^verbatim>\<open>ReKey\<close>,
  \<^verbatim>\<open>EnableAutoKeyExpire\<close> and \<^verbatim>\<open>DisableAutoKeyExpire\<close> as updates of the content.
\<close>

section \<open>Setting a value\<close>

definition stamp :: "u32 \<Rightarrow> u32 \<Rightarrow> bytes" where
  "stamp seconds now = putUint32 (if seconds \<noteq> 0 then now + seconds else 0)"

definition stored_value :: "bool \<Rightarrow> u32 \<Rightarrow> u32 \<Rightarrow> bytes \<Rightarrow> bytes" where
  "stored_value expire seconds now v = (if expire then v @ stamp seconds now else v)"

lemma appendExpire_stamp: "appendExpire v seconds w = v @ stamp seconds (nowUnix w)"
  by (simp add: appendExpire_def stamp_def)

lemma length_stamp [simp]: "length (stamp seconds now) = 4"
  by (simp add: stamp_def)

lemma setValueLocked_run:
  assumes inv: "store_inv m w ps"
  shows "setValueLocked k v m w =
    (if m_compareBeforeSet m \<and> \<not> m_enableExpire m \<and> log_map ps k = Some v then (Inr (), m, w)
     else setBlob k (stored_value (m_enableExpire m) (m_expiredSeconds m) (nowUnix w) v) m w)"
proof -
  note f = store_inv_facts [OF inv]
  have live: "case gm_get (m_dict m) k of None \<Rightarrow> log_map ps k = None
      | Some s \<Rightarrow> \<exists>b. deref (m_data m) w s = Inr b \<and> slice_len s = length b \<and> log_map ps k = Some b"
  proof (cases "gm_get (m_dict m) k")
    case (Some s)
    then have ok: "slice_ok (m_data m) (unat (m_actualSize m)) s" using f(3) by (simp add: dict_in_def)
    note d = deref_slice_ok [OF f(5,8) ok]
    have "length (take (unat (m_actualSize m)) (drop 4 (data_file m w))) = unat (m_actualSize m)"
      using f(5,8) by (simp add: mf_mapped_def)
    note l = length_slice_bytes [OF ok this]
    show ?thesis using Some d l f(4) by (auto simp: content_def dict_map_def fun_eq_iff dest!: spec [of _ k])
  qed (use f(4) in \<open>auto simp: content_def dict_map_def fun_eq_iff dest!: spec [of _ k]\<close>)
  then show ?thesis
    by (auto simp: setValueLocked_def Let_def stored_value_def appendExpire_stamp split: option.splits sum.splits)
qed

lemma setValueLocked_ok:
  assumes inv: "store_inv m w ps"
    and v': "v' = stored_value (m_enableExpire m) (m_expiredSeconds m) (nowUnix w) v"
    and e: "entry_ok k v'" and sz: "sizes_ok m ((log_map ps)(k \<mapsto> v'))"
  obtains m' w' ps' where "setValueLocked k v m w = (Inr (), m', w')" "store_inv m' w' ps'"
    "log_map ps' = (log_map ps)(k \<mapsto> v')" "same_config m m'"
    "os_frame {mf_ino (m_data m), mf_ino (m_meta m)} w w'" "progress m w m' w'"
proof (cases "m_compareBeforeSet m \<and> \<not> m_enableExpire m \<and> log_map ps k = Some v")
  case True
  then have "(log_map ps)(k \<mapsto> v') = log_map ps" using v' by (auto simp: stored_value_def)
  then show thesis using True setValueLocked_run [OF inv] inv by (intro that [of m w ps]) simp_all
next
  case False
  then show thesis using setValueLocked_run [OF inv, of k v] v' setBlob_ok [OF inv e sz] that by metis
qed

section \<open>Rewriting under a changed configuration\<close>

lemma rewrite_ok:
  assumes w: "writable m w" and wf: "meta_wf (m_info m)" and ex: "m_enableExpire m = expireEnabled (m_info m)"
    and d: "gm_inv (m_dict m)" "dict_live (m_data m) w (m_dict m)"
    and c: "content m w = c" "content_ok c" "4 + packed_size c < 2 ^ 32"
  obtains m' w' where "fullWriteback m w = (Inr (), m', w')" "store_inv m' w' (packed_log c)"
    "log_map (packed_log c) = c" "same_config m m'" "os_frame {mf_ino (m_data m), mf_ino (m_meta m)} w w'"
    "progress m w m' w'"
proof -
  have c': "content_ok (content m w)" "4 + packed_size (content m w) < 2 ^ 32" using c by simp_all
  obtain m' w' where g: "fullWritebackGrow True 0 m w = (Inr (), m', w')"
    "store_inv m' w' (packed_log (content m w))" "content m' w' = content m w"
    "same_config m m'" "os_frame {mf_ino (m_data m), mf_ino (m_meta m)} w w'"
    "mi_sequence (m_info m') = mi_sequence (m_info m) + 1"
    "mf_size (m_data m') \<le> max (mf_size (m_data m)) (size_limit (pagesize w) (content m w))"
    by (rule fullWritebackGrow_ok [OF w wf d c' ex, of True 0]) simp
  have "progress m w m' w'" by (rule progress_rewrite [OF g(6,3,7)])
  then show thesis
    by (intro that [of m' w']) (use g c packed_log_map [OF c(2)] in \<open>simp_all add: fullWriteback_def\<close>)
qed

lemma rekeyLocked_ok:
  assumes inv: "store_inv m w ps" and sz: "4 + packed_size (log_map ps) < 2 ^ 32"
  obtains m' w' ps' where "rekeyLocked key m w = (Inr (), m', w')" "store_inv m' w' ps'"
    "log_map ps' = log_map ps"
    "same_config (m\<lparr>m_crypt := if key = [] then None else Some (newAESCFB key)\<rparr>) m'"
    "os_frame {mf_ino (m_data m), mf_ino (m_meta m)} w w'"
    "progress m w m' w'"
proof -
  note f = store_inv_facts [OF inv]
  let ?m = "m\<lparr>m_crypt := if key = [] then None else Some (newAESCFB key)\<rparr>"
  have pre: "writable ?m w" "meta_wf (m_info ?m)" "m_enableExpire ?m = expireEnabled (m_info ?m)"
    "gm_inv (m_dict ?m)" "dict_live (m_data ?m) w (m_dict ?m)" "content ?m w = log_map ps"
    using f inv by (simp_all add: writable_def store_inv_def content_def)
  obtain m' w' where r: "fullWriteback ?m w = (Inr (), m', w')" "store_inv m' w' (packed_log (log_map ps))"
    "log_map (packed_log (log_map ps)) = log_map ps" "same_config ?m m'"
    "os_frame {mf_ino (m_data ?m), mf_ino (m_meta ?m)} w w'"
    "progress ?m w m' w'"
    by (rule rewrite_ok [OF pre log_ok_content [OF store_inv_log_ok [OF inv]] sz])
  have run: "rekeyLocked key m w = (Inr (), m', w')" using r(1) by (simp add: rekeyLocked_def Let_def)
  show thesis by (rule that [OF run r(2-4)]) (use r(5,6) in \<open>simp_all add: progress_def\<close>)
qed

section \<open>Expiration\<close>

lemma expireEnabled_bit: "expireEnabled mi \<longleftrightarrow> odd (mi_flags mi)"
  by (simp add: expireEnabled_def flagEnableExpire_def and_one_eq odd_iff_mod_2_eq_one)

lemma expireEnabled_set: "expireEnabled (mi\<lparr>mi_flags := mi_flags mi OR flagEnableExpire\<rparr>)"
  by (simp add: expireEnabled_bit flagEnableExpire_def even_or_iff)

lemma expireEnabled_clear: "\<not> expireEnabled (mi\<lparr>mi_flags := mi_flags mi AND NOT flagEnableExpire\<rparr>)"
  by (simp add: expireEnabled_bit flagEnableExpire_def even_and_iff even_not_iff)

text \<open>Turning expiration on appends an empty stamp to every value, unless it was on already.\<close>

definition expire_on :: "bool \<Rightarrow> (bytes \<rightharpoonup> bytes) \<Rightarrow> (bytes \<rightharpoonup> bytes)" where
  "expire_on was c = (if was then c else (\<lambda>k. map_option (\<lambda>b. b @ replicate 4 0) (c k)))"

lemma stamped_dict:
  assumes "dict_live mf w d" "gm_inv d"
  shows "gm_inv (map (\<lambda>(k, s). (k, Heap (dict_bytes mf w d k @ z))) d)"
    "dict_live mf w (map (\<lambda>(k, s). (k, Heap (dict_bytes mf w d k @ z))) d)"
    "dict_map mf w (map (\<lambda>(k, s). (k, Heap (dict_bytes mf w d k @ z))) d) =
       (\<lambda>k. map_option (\<lambda>b. b @ z) (dict_map mf w d k))"
proof -
  let ?d = "map (\<lambda>(k, s). (k, Heap (dict_bytes mf w d k @ z))) d"
  have keys: "map fst (map (\<lambda>(k, s). (k, g k)) e) = map fst e" for g :: "bytes \<Rightarrow> slice" and e :: "slice gomap"
    by (induction e) auto
  show "gm_inv ?d" using assms(2) unfolding gm_inv_def keys .
  show "dict_live mf w ?d" by (auto simp: dict_live_def list_all_iff)
  have get: "gm_get (map (\<lambda>(k, s). (k, g k)) e) k = (if gm_get e k = None then None else Some (g k))"
    for g :: "bytes \<Rightarrow> slice" and e :: "slice gomap" and k
    unfolding gm_get_def by (induction e) auto
  have "dict_map mf w d k = Some (dict_bytes mf w d k)" if "gm_get d k = Some s" for k s
    using that dict_bytes_map [OF assms(1) _ assms(2), of k] by (auto simp: gm.set_keys)
  then show "dict_map mf w ?d = (\<lambda>k. map_option (\<lambda>b. b @ z) (dict_map mf w d k))"
    by (auto simp: fun_eq_iff dict_map_def [of mf w ?d] get) (auto simp: dict_map_def)
qed

lemma enableExpireLocked_ok:
  assumes inv: "store_inv m w ps" and c: "c = expire_on (m_enableExpire m) (log_map ps)"
    and ok: "content_ok c" and sz: "4 + packed_size c < 2 ^ 32"
  obtains m' w' ps' where "enableExpireLocked seconds m w = (Inr (), m', w')" "store_inv m' w' ps'"
    "log_map ps' = c"
    "same_config (m\<lparr>m_expiredSeconds := seconds, m_enableExpire := True, m_compareBeforeSet := False,
       m_info := (m_info m)\<lparr>mi_flags := mi_flags (m_info m) OR flagEnableExpire\<rparr>\<rparr>) m'"
    "os_frame {mf_ino (m_data m), mf_ino (m_meta m)} w w'"
    "progress m w m' w'"
proof -
  note f = store_inv_facts [OF inv]
  let ?m1 = "m\<lparr>m_expiredSeconds := seconds, m_enableExpire := True, m_compareBeforeSet := False,
       m_info := (m_info m)\<lparr>mi_flags := mi_flags (m_info m) OR flagEnableExpire\<rparr>\<rparr>"
  let ?d = "map (\<lambda>(k, s). (k, Heap (dict_bytes (m_data m) w (m_dict m) k @ replicate 4 0))) (m_dict m)"
  let ?m = "if m_enableExpire m then ?m1 else ?m1\<lparr>m_dict := ?d\<rparr>"
  note st = stamped_dict [OF f(9,10), of "replicate 4 0"]
  have pre: "writable ?m w" "meta_wf (m_info ?m)" "m_enableExpire ?m = expireEnabled (m_info ?m)"
    "gm_inv (m_dict ?m)" "dict_live (m_data ?m) w (m_dict ?m)" "content ?m w = c"
    using f st c by (auto simp: writable_def content_def meta_wf_def expireEnabled_set expire_on_def)
  obtain m' w' where r: "fullWriteback ?m w = (Inr (), m', w')" "store_inv m' w' (packed_log c)"
    "log_map (packed_log c) = c" "same_config ?m m'" "os_frame {mf_ino (m_data ?m), mf_ino (m_meta ?m)} w w'"
    "progress ?m w m' w'"
    by (rule rewrite_ok [OF pre ok sz])
  have run: "enableExpireLocked seconds m w = fullWriteback ?m w"
    using f(9) by (simp add: enableExpireLocked_def Let_def)
  show thesis
    by (rule that [OF run [unfolded r(1)] r(2,3)])
      (use r(4-6) in \<open>simp_all add: same_config_def progress_def split: if_splits\<close>)
qed

text \<open>Turning expiration off keeps the values that are still visible, without their stamps.\<close>

lemma stripValues_ok:
  assumes "readable m w" "distinct ks"
  shows "\<exists>d. stripValues ks m w = Inr d \<and> gm_inv d \<and> dict_live mf w d \<and> set (map fst d) \<subseteq> set ks \<and>
    dict_map mf w d = visible m w |` set ks"
  using assms(2)
proof (induction ks)
  case Nil
  then show ?case by (auto simp: gm_inv_def dict_live_def restrict_map_def fun_eq_iff)
next
  case (Cons k ks)
  then obtain d where d: "stripValues ks m w = Inr d" "gm_inv d" "dict_live mf w d"
    "set (map fst d) \<subseteq> set ks" "dict_map mf w d = visible m w |` set ks" by auto
  note v = mmkv_value_ok [OF assms(1), of k]
  show ?case
  proof (cases "visible m w k")
    case None
    then have "visible m w |` set (k # ks) = visible m w |` set ks"
      by (auto simp: restrict_map_def fun_eq_iff)
    then show ?thesis using None v d by auto
  next
    case (Some b)
    then obtain s where "mmkv_value k m w = Inr (Some s)" "deref (m_data m) w s = Inr b" using v by auto
    moreover have "k \<notin> set (map fst d)" using Cons.prems d(4) by auto
    moreover have "dict_map mf w ((k, Heap b) # d) = visible m w |` set (k # ks)"
      using Some d(5) by (auto simp: dict_map_def gm_get_def restrict_map_def fun_eq_iff dest!: fun_cong)
    ultimately show ?thesis using d by (auto simp: gm_inv_def dict_live_def)
  qed
qed

lemma disableExpireLocked_ok:
  assumes inv: "store_inv m w ps" and on: "m_enableExpire m"
    and ok: "content_ok (visible m w)" and sz: "4 + packed_size (visible m w) < 2 ^ 32"
  obtains m' w' ps' where "disableExpireLocked m w = (Inr (), m', w')" "store_inv m' w' ps'"
    "log_map ps' = visible m w"
    "same_config (m\<lparr>m_enableExpire := False, m_expiredSeconds := 0,
       m_info := (m_info m)\<lparr>mi_flags := mi_flags (m_info m) AND NOT flagEnableExpire\<rparr>\<rparr>) m'"
    "os_frame {mf_ino (m_data m), mf_ino (m_meta m)} w w'"
    "progress m w m' w'"
proof -
  note f = store_inv_facts [OF inv]
  have "readable m w" using inv loaded_readable by (auto simp: store_inv_def)
  moreover have "distinct (gm_keys (m_dict m))" using f(10) by (simp add: gm_inv_def gm_keys_def)
  ultimately obtain d where d: "stripValues (gm_keys (m_dict m)) m w = Inr d" "gm_inv d"
    "dict_live (m_data m) w d" "dict_map (m_data m) w d = visible m w |` set (gm_keys (m_dict m))"
    using stripValues_ok by blast
  have "dict_map (m_data m) w (m_dict m) k = None" if "k \<notin> set (gm_keys (m_dict m))" for k
    using that dom_dict_map [OF f(9,10)] by blast
  then have "visible m w |` set (gm_keys (m_dict m)) = visible m w"
    by (auto simp: restrict_map_def fun_eq_iff visible_def content_def)
  note dm = d(4) [unfolded this]
  let ?m = "m\<lparr>m_dict := d, m_enableExpire := False, m_expiredSeconds := 0,
       m_info := (m_info m)\<lparr>mi_flags := mi_flags (m_info m) AND NOT flagEnableExpire\<rparr>\<rparr>"
  have pre: "writable ?m w" "meta_wf (m_info ?m)" "m_enableExpire ?m = expireEnabled (m_info ?m)"
    "gm_inv (m_dict ?m)" "dict_live (m_data ?m) w (m_dict ?m)" "content ?m w = visible m w"
    using f d dm by (auto simp: writable_def content_def meta_wf_def expireEnabled_clear)
  obtain m' w' where r: "fullWriteback ?m w = (Inr (), m', w')" "store_inv m' w' (packed_log (visible m w))"
    "log_map (packed_log (visible m w)) = visible m w" "same_config ?m m'"
    "os_frame {mf_ino (m_data ?m), mf_ino (m_meta ?m)} w w'"
    "progress ?m w m' w'"
    by (rule rewrite_ok [OF pre ok sz])
  have run: "disableExpireLocked m w = (Inr (), m', w')"
    using on d(1) r(1) by (simp add: disableExpireLocked_def)
  show thesis by (rule that [OF run r(2,3)]) (use r(4-6) in \<open>simp_all add: same_config_def progress_def\<close>)
qed

end
