(* ===== verification/Session.thy ===== *)
theory Session
  imports StoreCfg
begin

text \<open>
  The public operations as a client sees them: each takes the file lock, checks whether the files
  changed, reloads if they did, runs its body and releases the lock.  \<open>attached\<close> says what an instance
  needs so that the freshness check of \<^verbatim>\<open>checkLoadData\<close> finds every change: its cache is current, or the
  sequence number or the actual size on disk gives the change away.  The contract \<open>write_body\<close> lifts
  the lemmas on locked bodies to the public write operations.
\<close>

section \<open>Nothing depends on the lock table\<close>

lemma memory_cong: "files w' = files w \<Longrightarrow> memory mf w' = memory mf w"
  by (simp add: memory_def split: option.split)

lemma deref_file_cong:
  "files w' (mf_ino mf) = files w (mf_ino mf) \<Longrightarrow> deref mf w' s = deref mf w s"
  by (cases s) (simp_all add: memory_def split: option.split)

lemma deref_cong: "files w' = files w \<Longrightarrow> deref mf w' s = deref mf w s"
  by (rule deref_file_cong) simp

lemma content_cong:
  assumes "files w' = files w"
  shows "content m w' = content m w"
  unfolding content_def dict_map_def deref_cong [OF assms] ..

lemma mf_cong:
  assumes "files w' = files w"
  shows "mf_mapped mf w' = mf_mapped mf w" "mf_ok mf w' = mf_ok mf w"
  using assms by (simp_all add: mf_mapped_def mf_ok_def)

lemma loaded_cong:
  assumes "files w' = files w"
  shows "loaded m w' ps = loaded m w ps"
  unfolding loaded_def synced_def content_cong [OF assms] mf_cong [OF assms] assms ..

lemma loaded_fl [simp]: "loaded (m\<lparr>m_fl := l\<rparr>) w ps = loaded m w ps"
  by (simp add: loaded_def synced_def content_def)

lemma store_inv_fl [simp]: "store_inv (m\<lparr>m_fl := l\<rparr>) w ps = store_inv m w ps"
  by (simp add: store_inv_def writable_def)

lemma store_inv_cong:
  assumes "files w' = files w" "pagesize w' = pagesize w" "faults w' = faults w"
  shows "store_inv m w' ps = store_inv m w ps"
  unfolding store_inv_def writable_def loaded_cong [OF assms(1)] mf_cong [OF assms(1)] assms(2,3) ..

lemma lock_frame_fields:
  assumes "lock_frame l w w'"
  shows "files w' = files w" "faults w' = faults w" "pagesize w' = pagesize w" "nowUnix w' = nowUnix w"
    "closedOfds w' = closedOfds w" "dirent w' = dirent w" "notified w' = notified w"
  using assms by (cases w; cases w'; auto simp: lock_frame_def)+

section \<open>Taking the lock\<close>

definition can_lock :: "lockType \<Rightarrow> mmkv \<Rightarrow> os \<Rightarrow> bool" where
  "can_lock t m w \<longleftrightarrow> (m_multiProcess m \<longrightarrow> fl_inv (m_fl m) w \<and> lock t (m_fl m) w \<noteq> None)"

definition acquire :: "lockType \<Rightarrow> mmkv \<Rightarrow> os \<Rightarrow> (mmkv \<times> os) option" where
  "acquire t = (case t of SharedLock \<Rightarrow> lockShared | ExclusiveLock \<Rightarrow> lockExclusive)"

definition release :: "lockType \<Rightarrow> mmkv \<Rightarrow> os \<Rightarrow> (mmkv \<times> os) option" where
  "release t = (case t of SharedLock \<Rightarrow> unlockShared | ExclusiveLock \<Rightarrow> unlockExclusive)"

definition locked :: "lockType \<Rightarrow> 'a step \<Rightarrow> 'a op" where
  "locked t = (case t of SharedLock \<Rightarrow> withShared | ExclusiveLock \<Rightarrow> withExclusive)"

lemmas lock_defs = acquire_def release_def locked_def withShared_def withExclusive_def lockShared_def
  lockExclusive_def unlockShared_def unlockExclusive_def

lemma locked_run:
  assumes "acquire t m w = Some (m1, w1)" "body m1 w1 = (r, m2, w2)" "release t m2 w2 = Some (m3, w3)"
  shows "locked t body m w = Some (r, m3, w3)"
  using assms by (cases t) (simp_all add: acquire_def release_def locked_def withShared_def withExclusive_def)

lemma acquire_ok:
  assumes "faults w = []" "can_lock t m w"
  obtains l w1 where "acquire t m w = Some (m\<lparr>m_fl := l\<rparr>, w1)" "lock_frame (m_fl m) w w1"
    "\<not> m_multiProcess m \<longrightarrow> flocks w1 = flocks w"
proof (cases "m_multiProcess m")
  case False
  show thesis
    by (rule that [of "m_fl m" w]) (use False in \<open>simp_all add: lock_defs lock_frame_def split: lockType.split\<close>)
next
  case True
  then obtain r0 l w1 where k: "lock t (m_fl m) w = Some (r0, l, w1)" and inv: "fl_inv (m_fl m) w"
    using assms(2) by (auto simp: can_lock_def)
  have "acquire t m w = Some (m\<lparr>m_fl := l\<rparr>, w1)" using True k by (cases t) (simp_all add: lock_defs)
  then show thesis using True lock_step_inv [OF assms(1) inv k] by (intro that) auto
qed

lemma release_ok:
  assumes "faults w = []" "can_lock t m w" "acquire t m w = Some (m\<lparr>m_fl := l\<rparr>, w1)"
    and "m_fl m2 = l" "m_multiProcess m2 = m_multiProcess m"
    and "faults w2 = []" "flocks w2 = flocks w1" "closedOfds w2 = closedOfds w1"
  obtains w3 where "release t m2 w2 = Some (m2\<lparr>m_fl := m_fl m\<rparr>, w3)" "lock_frame (m_fl m) w2 w3"
    "if m_multiProcess m then fl_inv (m_fl m) w3 else flocks w3 = flocks w2"
proof (cases "m_multiProcess m")
  case False
  then have "m\<lparr>m_fl := l\<rparr> = m" using assms(3) by (auto simp: lock_defs split: lockType.splits)
  then have "m_fl m = l" by (metis mmkv.select_convs(6) mmkv.surjective mmkv.update_convs(6))
  then have "m2\<lparr>m_fl := m_fl m\<rparr> = m2" using assms(4) by simp
  then show thesis
    using False assms(5)
    by (intro that [of w2]) (simp_all add: lock_defs lock_frame_def split: lockType.split)
next
  case True
  then have inv: "fl_inv (m_fl m) w" using assms(2) by (simp add: can_lock_def)
  obtain r0 where k: "lock t (m_fl m) w = Some (r0, l, w1)"
    using True assms(3) by (cases t) (auto simp: lock_defs split: option.splits dest!: arg_cong [where f = m_fl])
  obtain w3 where u: "unlock t l w2 = Some (Inr (), m_fl m, w3)" "lock_frame (m_fl m) w2 w3" "fl_inv (m_fl m) w3"
    by (rule unlock_after_lock [OF assms(1) inv k assms(6-8)])
  have "release t m2 w2 = Some (m2\<lparr>m_fl := m_fl m\<rparr>, w3)"
    using True assms(4,5) u(1) by (cases t) (simp_all add: lock_defs)
  then show thesis using True u by (intro that) auto
qed

section \<open>Fresh and stale caches\<close>

definition fresh :: "mmkv \<Rightarrow> os \<Rightarrow> metaInfo \<Rightarrow> kvlog \<Rightarrow> bool" where
  "fresh m w mi ps \<longleftrightarrow>
     m_multiProcess m \<and> mi_sequence (m_info m) \<noteq> mi_sequence mi \<or>
     mf_mapped (m_data m) w \<and>
       (loaded m w ps \<or>
        m_multiProcess m \<and> versionActualSize \<le> mi_version mi \<and> m_actualSize m < mi_actualSize mi)"

definition attached :: "mmkv \<Rightarrow> os \<Rightarrow> metaInfo \<Rightarrow> kvlog \<Rightarrow> bool" where
  "attached m w mi ps \<longleftrightarrow>
     \<not> m_closed m \<and> faults w = [] \<and> mf_mapped (m_meta m) w \<and> mf_data (m_data m) = Some (mf_size (m_data m)) \<and>
     on_disk (m_crypt m) (data_file m w) (meta_file m w) mi ps \<and> (m_needLoad m \<or> fresh m w mi ps)"

text \<open>The two instances differ in the cached state only.\<close>

definition same_instance :: "mmkv \<Rightarrow> mmkv \<Rightarrow> bool" where
  "same_instance m m' \<longleftrightarrow>
     m_multiProcess m' = m_multiProcess m \<and> m_readOnly m' = m_readOnly m \<and> m_fl m' = m_fl m \<and>
     m_meta m' = m_meta m \<and> m_crypt m' = m_crypt m \<and> m_closed m' = m_closed m \<and>
     m_lastErr m' = m_lastErr m \<and> m_needFullWriteback m' = m_needFullWriteback m \<and>
     m_expiredSeconds m' = m_expiredSeconds m \<and> m_compareBeforeSet m' = m_compareBeforeSet m \<and>
     m_onContentChanged m' = m_onContentChanged m \<and> m_recover m' = m_recover m \<and>
     mf_ino (m_data m') = mf_ino (m_data m) \<and> mf_ofd (m_data m') = mf_ofd (m_data m) \<and>
     mf_open (m_data m') = mf_open (m_data m) \<and> mf_readOnly (m_data m') = mf_readOnly (m_data m)"

lemma same_instance_refl [simp]: "same_instance m m"
  by (simp add: same_instance_def)

lemma reload_attached:
  assumes faults: "faults w = []" and meta: "mf_mapped (m_meta m) w"
    and data: "mf_data (m_data m) = Some (mf_size (m_data m))"
    and disk: "on_disk (m_crypt m) (data_file m w) (meta_file m w) mi ps"
    and map: "\<not> rm \<Longrightarrow> mf_mapped (m_data m) w"
  obtains m' where "reloadBestEffort rm m w = (Inr (), m', w)" "loaded m' w ps" "m_info m' = mi"
    "same_instance m m'" "m_needLoad m' = m_needLoad m"
proof -
  obtain d where d: "(if rm then remap (m_data m) w else (Inr (), m_data m, w)) = (Inr (), d, w)"
    "mf_mapped d w" "mf_ino d = mf_ino (m_data m)" "mf_ofd d = mf_ofd (m_data m)"
    "mf_open d = mf_open (m_data m)" "mf_readOnly d = mf_readOnly (m_data m)"
  proof (cases rm)
    case True
    obtain r d w1 where "remap (m_data m) w = (r, d, w1)" by (cases "remap (m_data m) w") auto
    then show thesis using remap_ok [OF faults, of "m_data m" r d w1] data True by (intro that [of d]) simp_all
  next
    case False
    then show thesis using map by (intro that [of "m_data m"]) simp_all
  qed
  let ?m = "m\<lparr>m_data := d\<rparr>"
  have pre: "mf_mapped (m_data ?m) w" "mf_mapped (m_meta ?m) w"
    "on_disk (m_crypt ?m) (data_file ?m w) (meta_file ?m w) mi ps" using d(2,3) meta disk by simp_all
  obtain m' dd where l: "loadData ?m w = (Inr (), m')"
    "m' = ?m\<lparr>m_info := mi, m_enableExpire := (mi_version mi \<ge> versionFlag \<and> expireEnabled mi),
            m_dict := dd, m_actualSize := disk_actual mi (data_file ?m w), m_crcDigest := mi_crcDigest mi\<rparr>"
    "loaded m' w ps"
    by (rule loadData_on_disk [OF pre])
  show thesis
    by (rule that [of m']) (use d l in \<open>simp_all add: reloadBestEffort_def same_instance_def\<close>)
qed

text \<open>The check makes the cache agree with the files, whatever another process did to them.\<close>

lemma checkLoadData_attached:
  assumes att: "attached m w mi ps"
  obtains m' n where "checkLoadData m w = (Inr (), m', w\<lparr>notified := n\<rparr>)"
    "loaded m' (w\<lparr>notified := n\<rparr>) ps" "m_info m' = mi" "same_instance m m'" "\<not> m_needLoad m'"
proof -
  have a: "faults w = []" "mf_mapped (m_meta m) w" "mf_data (m_data m) = Some (mf_size (m_data m))"
    "on_disk (m_crypt m) (data_file m w) (meta_file m w) mi ps" "m_needLoad m \<or> fresh m w mi ps"
    using att by (auto simp: attached_def)
  have pm: "parseMeta (memory (m_meta m) w) = Inr mi" using a(2,4) by (simp add: memory_ok on_disk_def)
  have cong: "loaded x (w\<lparr>notified := n\<rparr>) ps = loaded x w ps" for x n by (rule loaded_cong) simp
  have lm: "m_info m = mi" if "loaded m w ps"
    using that a(4) by (simp add: loaded_def synced_def on_disk_def)
  have id: "w\<lparr>notified := notified w\<rparr> = w" by simp
  note result = that
  have changed: thesis if "\<not> m_needLoad m" "reloadBestEffort rm m w = (Inr (), m1, w)" "loaded m1 w ps"
      "m_info m1 = mi" "same_instance m m1" "m_needLoad m1 = m_needLoad m"
      "checkLoadData m w = (Inr (), m1, notifyChanged m1 w)" for rm m1
  proof (cases "m_onContentChanged m1")
    case True
    show thesis by (rule result [of m1 "notified w + 1"]) (use True that cong in \<open>simp_all add: notifyChanged_def\<close>)
  next
    case False
    show thesis by (rule result [of m1 "notified w"]) (use False that cong id in \<open>simp_all add: notifyChanged_def\<close>)
  qed
  show thesis
  proof (cases "m_needLoad m")
    case True
    obtain m1 where r: "reloadBestEffort True (m\<lparr>m_needLoad := False\<rparr>) w = (Inr (), m1, w)" "loaded m1 w ps"
      "m_info m1 = mi" "same_instance (m\<lparr>m_needLoad := False\<rparr>) m1" "m_needLoad m1 = m_needLoad (m\<lparr>m_needLoad := False\<rparr>)"
      by (rule reload_attached [of w "m\<lparr>m_needLoad := False\<rparr>" mi ps True]) (use a in simp_all)
    show thesis
      by (rule that [of m1 "notified w"])
        (use True r id in \<open>simp_all add: checkLoadData_def same_instance_def\<close>)
  next
    case False
    then have fr: "fresh m w mi ps" using a(5) by blast
    consider (seq) "m_multiProcess m" "mi_sequence mi \<noteq> mi_sequence (m_info m)"
      | (size) "m_multiProcess m" "mi_sequence mi = mi_sequence (m_info m)"
          "mi_crcDigest mi \<noteq> m_crcDigest m \<or> mi_actualSize mi \<noteq> m_actualSize m"
      | (same) "\<not> m_multiProcess m \<or> mi_sequence mi = mi_sequence (m_info m) \<and>
          mi_crcDigest mi = m_crcDigest m \<and> mi_actualSize mi = m_actualSize m" by blast
    then show thesis
    proof cases
      case seq
      obtain m1 where r: "reloadBestEffort True m w = (Inr (), m1, w)" "loaded m1 w ps" "m_info m1 = mi"
        "same_instance m m1" "m_needLoad m1 = m_needLoad m"
        by (rule reload_attached [OF a(1-4), of True]) simp_all
      show thesis
        by (rule changed [OF False r]) (use False seq pm r in \<open>simp add: checkLoadData_def\<close>)
    next
      case size
      have map: "mf_mapped (m_data m) w" using size fr by (auto simp: fresh_def)
      obtain m1 where r: "reloadBestEffort False m w = (Inr (), m1, w)" "loaded m1 w ps" "m_info m1 = mi"
        "same_instance m m1" "m_needLoad m1 = m_needLoad m"
        by (rule reload_attached [OF a(1-4) map])
      show thesis
        by (rule changed [OF False r]) (use False size pm r in \<open>auto simp: checkLoadData_def\<close>)
    next
      case same
      then have l: "loaded m w ps" using fr by (auto simp: fresh_def)
      show thesis
        by (rule that [of m "notified w"])
          (use False same l pm lm [OF l] id in \<open>simp_all add: checkLoadData_def\<close>)
    qed
  qed
qed

section \<open>What an operation depends on\<close>

text \<open>
  The configuration an operation sees: the key, whether values carry expiration stamps (the flag is
  on disk), the default lifetime, the clock and the length of the data file.
\<close>

record env =
  e_crypt :: "block option"
  e_expire :: bool
  e_seconds :: u32
  e_now :: u32
  e_size :: nat

definition disk_expire :: "bytes \<Rightarrow> bool" where
  "disk_expire M = (case parseMeta M of Inl _ \<Rightarrow> False | Inr mi \<Rightarrow> versionFlag \<le> mi_version mi \<and> expireEnabled mi)"

definition env_of :: "mmkv \<Rightarrow> os \<Rightarrow> env" where
  "env_of m w = \<lparr>e_crypt = m_crypt m, e_expire = disk_expire (meta_file m w), e_seconds = m_expiredSeconds m,
     e_now = nowUnix w, e_size = length (data_file m w)\<rparr>"

definition small :: "env \<Rightarrow> (bytes \<rightharpoonup> bytes) \<Rightarrow> bool" where
  "small e c \<longleftrightarrow> e_size e < 2 ^ 32 \<and> 4 + packed_size c < 2 ^ 32"

lemma loaded_env:
  assumes "loaded m w ps"
  shows "e_expire (env_of m w) = m_enableExpire m" "e_size (env_of m w) = mf_size (m_data m)"
    "e_crypt (env_of m w) = m_crypt m" "e_seconds (env_of m w) = m_expiredSeconds m" "e_now (env_of m w) = nowUnix w"
  using assms by (auto simp: env_of_def loaded_def synced_def on_disk_def disk_expire_def mf_mapped_def)

lemma small_sizes: "loaded m w ps \<Longrightarrow> small (env_of m w) c = sizes_ok m c"
  by (simp add: small_def sizes_ok_def loaded_env)

text \<open>What an instance needs, besides a readable store, in order to write.\<close>

definition can_write :: "mmkv \<Rightarrow> os \<Rightarrow> bool" where
  "can_write m w \<longleftrightarrow>
     \<not> mf_readOnly (m_data m) \<and> \<not> mf_readOnly (m_meta m) \<and> mf_ino (m_data m) \<noteq> mf_ino (m_meta m) \<and>
     metaSize \<le> mf_size (m_meta m) \<and> 4 \<le> pagesize w \<and> \<not> m_readOnly m \<and> \<not> m_needFullWriteback m"

definition meta_consistent :: "metaInfo \<Rightarrow> bool" where
  "meta_consistent mi \<longleftrightarrow> (expireEnabled mi \<longrightarrow> versionFlag \<le> mi_version mi)"

lemma store_inv_attached:
  assumes "store_inv m w ps"
  shows "attached m w (m_info m) ps" "can_write m w" "meta_consistent (m_info m)"
proof -
  note f = store_inv_facts [OF assms]
  have l: "loaded m w ps" and ex: "m_enableExpire m = expireEnabled (m_info m)"
    using assms by (auto simp: store_inv_def)
  show "attached m w (m_info m) ps"
    using f(1,2,5,6,12) l by (auto simp: attached_def fresh_def writable_def synced_def mf_mapped_def)
  show "can_write m w" using f(1) assms by (auto simp: can_write_def writable_def mf_ok_def store_inv_def)
  show "meta_consistent (m_info m)" using f(2) ex by (auto simp: meta_consistent_def synced_def)
qed

lemma loaded_store_inv:
  assumes "loaded m w ps" "can_write m w" "meta_consistent (m_info m)" "faults w = []"
    "\<not> m_closed m" "\<not> m_needLoad m"
  shows "store_inv m w ps"
  using assms
  by (auto simp: store_inv_def writable_def can_write_def loaded_def synced_def mf_ok_def on_disk_def
      in_file_def mf_mapped_def meta_consistent_def)

lemma can_write_instance:
  "same_instance m m' \<Longrightarrow> pagesize w' = pagesize w \<Longrightarrow> can_write m' w' = can_write m w"
  by (simp add: can_write_def same_instance_def)

lemma attached_locked:
  assumes "files w' = files w" "faults w' = faults w"
  shows "attached (m\<lparr>m_fl := l\<rparr>) w' mi ps = attached m w mi ps"
  by (simp add: attached_def fresh_def assms mf_cong [OF assms(1)] loaded_cong [OF assms(1)])

lemma env_of_instance:
  assumes "same_instance m m'" "files w' = files w" "nowUnix w' = nowUnix w"
  shows "env_of m' w' = env_of m w"
  using assms by (simp add: env_of_def same_instance_def)

lemma env_of_fl [simp]: "env_of (m\<lparr>m_fl := l\<rparr>) w = env_of m w"
  by (simp add: env_of_def)

text \<open>Entering a critical section: the lock is held and the cache is current.\<close>

definition os_same :: "os \<Rightarrow> os \<Rightarrow> bool" where
  "os_same w w' \<longleftrightarrow>
     files w' = files w \<and> dirent w' = dirent w \<and> nextIno w' = nextIno w \<and> nextOfd w' = nextOfd w \<and>
     faults w' = faults w \<and> nowUnix w' = nowUnix w \<and> pagesize w' = pagesize w \<and>
     closedOfds w' = closedOfds w \<and> cwd w' = cwd w"

lemma os_same_lock: "lock_frame l w w' \<Longrightarrow> os_same w w'"
  by (cases w; cases w') (auto simp: lock_frame_def os_same_def)

lemma os_same_trans: "os_same w w1 \<Longrightarrow> os_same w1 w2 \<Longrightarrow> os_same w w2"
  by (simp add: os_same_def)

lemma enter_section:
  assumes att: "attached m w mi ps" and lk: "can_lock t m w"
  obtains l w1 m2 w2 where "acquire t m w = Some (m\<lparr>m_fl := l\<rparr>, w1)"
    "checkLoadData (m\<lparr>m_fl := l\<rparr>) w1 = (Inr (), m2, w2)"
    "loaded m2 w2 ps" "m_info m2 = mi" "same_instance (m\<lparr>m_fl := l\<rparr>) m2" "\<not> m_needLoad m2"
    "os_same w w2" "flocks w2 = flocks w1" "lock_frame (m_fl m) w w1"
    "\<not> m_multiProcess m \<longrightarrow> flocks w1 = flocks w"
proof -
  have flt: "faults w = []" using att by (simp add: attached_def)
  obtain l w1 where a: "acquire t m w = Some (m\<lparr>m_fl := l\<rparr>, w1)" and lf: "lock_frame (m_fl m) w w1"
    and sp: "\<not> m_multiProcess m \<longrightarrow> flocks w1 = flocks w"
    by (rule acquire_ok [OF flt lk])
  note lff = lock_frame_fields [OF lf]
  have att1: "attached (m\<lparr>m_fl := l\<rparr>) w1 mi ps" using att attached_locked [OF lff(1,2)] by blast
  obtain m2 n where c: "checkLoadData (m\<lparr>m_fl := l\<rparr>) w1 = (Inr (), m2, w1\<lparr>notified := n\<rparr>)"
    "loaded m2 (w1\<lparr>notified := n\<rparr>) ps" "m_info m2 = mi" "same_instance (m\<lparr>m_fl := l\<rparr>) m2" "\<not> m_needLoad m2"
    by (rule checkLoadData_attached [OF att1])
  have "os_same w (w1\<lparr>notified := n\<rparr>)" using os_same_lock [OF lf] by (simp add: os_same_def)
  then show thesis by (rule that [OF a c]) (simp_all add: lf sp)
qed

section \<open>The contract of a locked body\<close>

definition keeps :: "mmkv \<Rightarrow> mmkv \<Rightarrow> bool" where
  "keeps m m' \<longleftrightarrow>
     m_multiProcess m' = m_multiProcess m \<and> m_readOnly m' = m_readOnly m \<and> m_fl m' = m_fl m \<and>
     m_meta m' = m_meta m \<and> mf_ino (m_data m') = mf_ino (m_data m) \<and> mf_ofd (m_data m') = mf_ofd (m_data m) \<and>
     m_onContentChanged m' = m_onContentChanged m \<and> m_recover m' = m_recover m"

definition same_env :: "env \<Rightarrow> env \<Rightarrow> bool" where
  "same_env e e' \<longleftrightarrow> e' = e\<lparr>e_size := e_size e'\<rparr>"

text \<open>What an operation may change in the system: its two files, and its own entry in the lock table.\<close>

definition op_frame :: "mmkv \<Rightarrow> os \<Rightarrow> os \<Rightarrow> bool" where
  "op_frame m w w' \<longleftrightarrow>
     (\<forall>i. i \<noteq> mf_ino (m_data m) \<and> i \<noteq> mf_ino (m_meta m) \<longrightarrow> files w' i = files w i) \<and>
     dirent w' = dirent w \<and> nextIno w' = nextIno w \<and> nextOfd w' = nextOfd w \<and> faults w' = faults w \<and>
     nowUnix w' = nowUnix w \<and> pagesize w' = pagesize w \<and> closedOfds w' = closedOfds w \<and> cwd w' = cwd w \<and>
     (\<forall>i. i \<noteq> fl_ino (m_fl m) \<longrightarrow> flocks w' i = flocks w i) \<and>
     others (fl_ofd (m_fl m)) (flocks w' (fl_ino (m_fl m))) = others (fl_ofd (m_fl m)) (flocks w (fl_ino (m_fl m))) \<and>
     (if m_multiProcess m then fl_inv (m_fl m) w' else flocks w' = flocks w)"

definition disk_step :: "mmkv \<Rightarrow> os \<Rightarrow> metaInfo \<Rightarrow> os \<Rightarrow> metaInfo \<Rightarrow> bool" where
  "disk_step m w mi w' mi' \<longleftrightarrow>
     mi_sequence mi' = mi_sequence mi + 1 \<or>
     mi_sequence mi' = mi_sequence mi \<and> length (data_file m w') = length (data_file m w) \<and>
       (\<not> m_multiProcess m \<or> data_file m w' = data_file m w \<and> meta_file m w' = meta_file m w \<or>
        versionFlag \<le> mi_version mi' \<and> mi_version mi' = mi_version mi \<and>
        disk_actual mi (data_file m w) < mi_actualSize mi')"

lemma op_frame_intro:
  assumes "os_same w w2" "lock_frame (m_fl m) w w1" "flocks w2 = flocks w1"
    "os_frame {mf_ino (m_data m), mf_ino (m_meta m)} w2 w3" "lock_frame (m_fl m) w3 w4"
    "\<not> m_multiProcess m \<longrightarrow> flocks w1 = flocks w"
    "if m_multiProcess m then fl_inv (m_fl m) w4 else flocks w4 = flocks w3"
  shows "op_frame m w w4"
proof -
  have "flocks w3 = flocks w1" using assms(3,4) by (simp add: os_frame_def)
  then have "\<forall>i. i \<noteq> fl_ino (m_fl m) \<longrightarrow> flocks w4 i = flocks w i"
    "others (fl_ofd (m_fl m)) (flocks w4 (fl_ino (m_fl m))) = others (fl_ofd (m_fl m)) (flocks w (fl_ino (m_fl m)))"
    using assms(2,5) unfolding lock_frame_def by auto
  moreover have "os_same w3 w4" using os_same_lock [OF assms(5)] .
  ultimately show ?thesis
    using assms(1,3,4,6,7) by (auto simp: op_frame_def os_frame_def os_same_def split: if_splits)
qed

lemma disk_step_intro:
  assumes "store_inv m w ps" "store_inv m' w' ps'" "progress m w m' w'" "keeps m m'"
  shows "disk_step m w (m_info m) w' (m_info m')"
proof -
  have s: "synced m w ps" "synced m' w' ps'" using assms(1,2) by (auto simp: store_inv_def loaded_def)
  have size: "length (data_file m w) = mf_size (m_data m)" "length (data_file m w') = mf_size (m_data m')"
    using s assms(4) by (auto simp: synced_def mf_mapped_def keeps_def)
  have act: "m_actualSize m = disk_actual (m_info m) (data_file m w)" using s(1) by (simp add: synced_def)
  have act': "m_actualSize m' = mi_actualSize (m_info m')" if "versionFlag \<le> mi_version (m_info m')"
    using s(2) versionFlag_actual [OF that] by (simp add: synced_def disk_actual_def)
  show ?thesis
    using assms(3) size act act' by (auto simp: progress_def disk_step_def)
qed

text \<open>
  A critical section on the store: it starts from the invariant on a current cache, and once the body
  has run the lock is given back and only the two files have changed.
\<close>

lemma write_section:
  assumes att: "attached m w mi ps" and cw: "can_write m w" and mc: "meta_consistent mi"
    and lk: "can_lock ExclusiveLock m w"
  obtains m2 w2 where "store_inv m2 w2 ps" "env_of m2 w2 = env_of m w" "m_info m2 = mi" "os_same w w2"
    "same_instance m (m2\<lparr>m_fl := m_fl m\<rparr>)"
    "\<forall>sec r m3 w3. keeps m2 m3 \<longrightarrow> os_frame {mf_ino (m_data m), mf_ino (m_meta m)} w2 w3 \<longrightarrow>
       (\<forall>x y. \<not> m_closed x \<longrightarrow> \<not> m_readOnly x \<longrightarrow> checkLoadData x y = (Inr (), m2, w2) \<longrightarrow> sec x y = (r, m3, w3)) \<longrightarrow>
       (\<exists>w4. withExclusive sec m w = Some (r :: goerr + 'a, m3\<lparr>m_fl := m_fl m\<rparr>, w4) \<and> os_same w3 w4 \<and>
          keeps m (m3\<lparr>m_fl := m_fl m\<rparr>) \<and> op_frame m w w4)"
proof -
  have flt: "faults w = []" and cl: "\<not> m_closed m" "\<not> m_readOnly m"
    using att cw by (auto simp: attached_def can_write_def)
  obtain l w1 m2 w2 where e: "acquire ExclusiveLock m w = Some (m\<lparr>m_fl := l\<rparr>, w1)"
    "checkLoadData (m\<lparr>m_fl := l\<rparr>) w1 = (Inr (), m2, w2)"
    "loaded m2 w2 ps" "m_info m2 = mi" "same_instance (m\<lparr>m_fl := l\<rparr>) m2" "\<not> m_needLoad m2"
    "os_same w w2" "flocks w2 = flocks w1" "lock_frame (m_fl m) w w1"
    "\<not> m_multiProcess m \<longrightarrow> flocks w1 = flocks w"
    by (rule enter_section [OF att lk])
  have inv: "store_inv m2 w2 ps"
    using e(3-7) cw mc cl flt by (intro loaded_store_inv) (auto simp: os_same_def same_instance_def can_write_def)
  have env: "env_of m2 w2 = env_of m w"
    using env_of_instance [OF e(5), of w2 w] e(7) by (simp add: os_same_def)
  have run: "\<exists>w4. withExclusive sec m w = Some (r, m3\<lparr>m_fl := m_fl m\<rparr>, w4) \<and> os_same w3 w4 \<and>
      keeps m (m3\<lparr>m_fl := m_fl m\<rparr>) \<and> op_frame m w w4"
    if b: "keeps m2 m3" "os_frame {mf_ino (m_data m), mf_ino (m_meta m)} w2 w3"
      "\<forall>x y. \<not> m_closed x \<longrightarrow> \<not> m_readOnly x \<longrightarrow> checkLoadData x y = (Inr (), m2, w2) \<longrightarrow> sec x y = (r, m3, w3)"
    for sec and r :: "goerr + 'a" and m3 w3
  proof -
    have fl: "m_fl m3 = l" "m_multiProcess m3 = m_multiProcess m" "faults w3 = []" "flocks w3 = flocks w1"
      "closedOfds w3 = closedOfds w1"
      using b(1,2) e(5,7,8) flt lock_frame_closed [OF e(9)]
      by (simp_all add: keeps_def same_instance_def os_frame_def os_same_def)
    obtain w4 where u: "release ExclusiveLock m3 w3 = Some (m3\<lparr>m_fl := m_fl m\<rparr>, w4)" "lock_frame (m_fl m) w3 w4"
      "if m_multiProcess m then fl_inv (m_fl m) w4 else flocks w4 = flocks w3"
      by (rule release_ok [OF flt lk e(1) fl])
    have "sec (m\<lparr>m_fl := l\<rparr>) w1 = (r, m3, w3)" using b(3) cl e(2) by simp
    then have "withExclusive sec m w = Some (r, m3\<lparr>m_fl := m_fl m\<rparr>, w4)"
      using locked_run [OF e(1) _ u(1)] by (simp add: locked_def)
    moreover have "keeps m (m3\<lparr>m_fl := m_fl m\<rparr>)" using b(1) e(5) by (simp add: keeps_def same_instance_def)
    moreover have "op_frame m w w4" by (rule op_frame_intro [OF e(7,9,8) b(2) u(2) e(10) u(3)])
    ultimately show ?thesis using os_same_lock [OF u(2)] by blast
  qed
  have "same_instance m (m2\<lparr>m_fl := m_fl m\<rparr>)" using e(5) by (simp add: same_instance_def)
  then show thesis by (rule that [OF inv env e(4,7)]) (intro allI impI, rule run, assumption+)
qed

locale write_body =
  fixes body :: "unit step"
    and pre :: "env \<Rightarrow> (bytes \<rightharpoonup> bytes) \<Rightarrow> bool"
    and spec :: "env \<Rightarrow> (bytes \<rightharpoonup> bytes) \<Rightarrow> (bytes \<rightharpoonup> bytes)"
    and conf :: "env \<Rightarrow> env"
  assumes body_ok: "store_inv m w ps \<Longrightarrow> pre (env_of m w) (log_map ps) \<Longrightarrow>
      \<exists>m' w' ps'. body m w = (Inr (), m', w') \<and> store_inv m' w' ps' \<and>
        log_map ps' = spec (env_of m w) (log_map ps) \<and> same_env (conf (env_of m w)) (env_of m' w') \<and>
        keeps m m' \<and> os_frame {mf_ino (m_data m), mf_ino (m_meta m)} w w' \<and> progress m w m' w'"
begin

text \<open>The public operation: lock, refresh, body, unlock.\<close>

lemma write_op:
  assumes att: "attached m w mi ps" and cw: "can_write m w" and mc: "meta_consistent mi"
    and lk: "can_lock ExclusiveLock m w" and pre: "pre (env_of m w) (log_map ps)"
  shows "\<exists>m' w' ps'. writeOp body m w = Some (Inr (), m', w') \<and> store_inv m' w' ps' \<and>
    log_map ps' = spec (env_of m w) (log_map ps) \<and> same_env (conf (env_of m w)) (env_of m' w') \<and>
    keeps m m' \<and> op_frame m w w' \<and> disk_step m w mi w' (m_info m') \<and>
    e_size (env_of m' w') \<le> max (e_size (env_of m w)) (size_limit (pagesize w) (spec (env_of m w) (log_map ps)))"
proof -
  obtain m2 w2 where s: "store_inv m2 w2 ps" "env_of m2 w2 = env_of m w" "m_info m2 = mi" "os_same w w2"
    "same_instance m (m2\<lparr>m_fl := m_fl m\<rparr>)"
    "\<forall>sec r m3 w3. keeps m2 m3 \<longrightarrow> os_frame {mf_ino (m_data m), mf_ino (m_meta m)} w2 w3 \<longrightarrow>
       (\<forall>x y. \<not> m_closed x \<longrightarrow> \<not> m_readOnly x \<longrightarrow> checkLoadData x y = (Inr (), m2, w2) \<longrightarrow> sec x y = (r, m3, w3)) \<longrightarrow>
       (\<exists>w4. withExclusive sec m w = Some (r :: goerr + unit, m3\<lparr>m_fl := m_fl m\<rparr>, w4) \<and> os_same w3 w4 \<and>
          keeps m (m3\<lparr>m_fl := m_fl m\<rparr>) \<and> op_frame m w w4)"
    by (rule write_section [OF att cw mc lk])
  have ino: "mf_ino (m_data m2) = mf_ino (m_data m)" "mf_ino (m_meta m2) = mf_ino (m_meta m)"
    "m_multiProcess m2 = m_multiProcess m" using s(5) by (simp_all add: same_instance_def)
  obtain m3 w3 ps' where b: "body m2 w2 = (Inr (), m3, w3)" "store_inv m3 w3 ps'"
    "log_map ps' = spec (env_of m w) (log_map ps)" "same_env (conf (env_of m w)) (env_of m3 w3)"
    "keeps m2 m3" "os_frame {mf_ino (m_data m), mf_ino (m_meta m)} w2 w3" "progress m2 w2 m3 w3"
    using body_ok [OF s(1)] pre s(2) ino by auto
  obtain w4 where r: "writeOp body m w = Some (Inr (), m3\<lparr>m_fl := m_fl m\<rparr>, w4)" "os_same w3 w4"
    "keeps m (m3\<lparr>m_fl := m_fl m\<rparr>)" "op_frame m w w4"
    using s(6) [rule_format, OF b(5,6), of "\<lambda>m w. if m_closed m then (Inl ErrClosed, m, w)
      else if m_readOnly m then (Inl ErrReadOnly, m, w) else andThen checkLoadData (\<lambda>_. body) m w" "Inr ()"] b(1)
    unfolding writeOp_def by (simp add: andThen_def) blast
  have same: "files w4 = files w3" "pagesize w4 = pagesize w3" "faults w4 = faults w3" "nowUnix w4 = nowUnix w3"
    "files w2 = files w" "pagesize w2 = pagesize w"
    using r(2) s(4) by (simp_all add: os_same_def)
  have inv4: "store_inv (m3\<lparr>m_fl := m_fl m\<rparr>) w4 ps'" using b(2) store_inv_cong [OF same(1-3)] by simp
  have env4: "env_of (m3\<lparr>m_fl := m_fl m\<rparr>) w4 = env_of m3 w3" using same by (simp add: env_of_def)
  have step4: "disk_step m w mi w4 (m_info m3)"
    using disk_step_intro [OF s(1) b(2,7,5)] s(3) ino same by (simp add: disk_step_def)
  have "e_size (env_of m3 w3) \<le> max (e_size (env_of m w)) (size_limit (pagesize w) (spec (env_of m w) (log_map ps)))"
    using progress_size [OF b(7)] store_inv_facts(4) [OF b(2)] b(2,3) s(1,2) same(6) loaded_env(2) [of m2 w2 ps]
      loaded_env(2) [of m3 w3 ps'] by (simp add: store_inv_def)
  then show ?thesis
    using r inv4 b(3,4) env4 step4
    by (intro exI [of _ "m3\<lparr>m_fl := m_fl m\<rparr>"] exI [of _ w4] exI [of _ ps'] conjI) simp_all
qed

end

section \<open>The contract of a reader\<close>

definition visible_of :: "env \<Rightarrow> (bytes \<rightharpoonup> bytes) \<Rightarrow> (bytes \<rightharpoonup> bytes)" where
  "visible_of e c = (\<lambda>k. Option.bind (c k) (live_value (e_expire e) (e_now e)))"

lemma visible_loaded: "loaded m w ps \<Longrightarrow> visible m w = visible_of (env_of m w) (log_map ps)"
  by (auto simp: visible_def visible_of_def loaded_env) (simp add: loaded_def)

text \<open>A read operation runs its body on a current cache and leaves the files alone.\<close>

lemma read_run:
  assumes att: "attached m w mi ps" and lk: "can_lock SharedLock m w"
  obtains m1 w1 w' where "readOp x body m w = Some (body m1 w1, m1\<lparr>m_fl := m_fl m\<rparr>, w')"
    "loaded m1 w1 ps" "env_of m1 w1 = env_of m w" "m_info m1 = mi" "\<not> m_needLoad m1" "files w1 = files w"
    "files w' = files w" "same_instance m (m1\<lparr>m_fl := m_fl m\<rparr>)" "op_frame m w w'"
proof -
  have flt: "faults w = []" and cl: "\<not> m_closed m" using att by (auto simp: attached_def)
  obtain l w0 m1 w1 where e: "acquire SharedLock m w = Some (m\<lparr>m_fl := l\<rparr>, w0)"
    "checkLoadData (m\<lparr>m_fl := l\<rparr>) w0 = (Inr (), m1, w1)"
    "loaded m1 w1 ps" "m_info m1 = mi" "same_instance (m\<lparr>m_fl := l\<rparr>) m1" "\<not> m_needLoad m1"
    "os_same w w1" "flocks w1 = flocks w0" "lock_frame (m_fl m) w w0"
    "\<not> m_multiProcess m \<longrightarrow> flocks w0 = flocks w"
    by (rule enter_section [OF att lk])
  have env: "env_of m1 w1 = env_of m w"
    using env_of_instance [OF e(5), of w1 w] e(7) by (simp add: os_same_def)
  have fl: "m_fl m1 = l" "m_multiProcess m1 = m_multiProcess m" "faults w1 = []" "flocks w1 = flocks w0"
    "closedOfds w1 = closedOfds w0"
    using e(5,7,8) flt lock_frame_closed [OF e(9)] by (simp_all add: same_instance_def os_same_def)
  obtain w' where u: "release SharedLock m1 w1 = Some (m1\<lparr>m_fl := m_fl m\<rparr>, w')" "lock_frame (m_fl m) w1 w'"
    "if m_multiProcess m then fl_inv (m_fl m) w' else flocks w' = flocks w1"
    by (rule release_ok [OF flt lk e(1) fl])
  have "locked SharedLock (\<lambda>m w. if m_closed m then (Inr x, m, w)
       else (case checkLoadData m w of
               (Inl e, m1, w1) \<Rightarrow> (Inl e, m1, w1)
             | (Inr _, m1, w1) \<Rightarrow> (body m1 w1, m1, w1))) m w =
      Some (body m1 w1, m1\<lparr>m_fl := m_fl m\<rparr>, w')"
    by (rule locked_run [OF e(1) _ u(1)]) (use cl e(2) in simp)
  then have run: "readOp x body m w = Some (body m1 w1, m1\<lparr>m_fl := m_fl m\<rparr>, w')"
    by (simp add: readOp_def locked_def)
  have fr: "op_frame m w w'" by (rule op_frame_intro [OF e(7,9,8) os_frame_refl u(2) e(10) u(3)])
  show thesis
    by (rule that [OF run e(3) env e(4,6)])
      (use e(5,7) os_same_lock [OF u(2)] fr in \<open>simp_all add: os_same_def same_instance_def\<close>)
qed

text \<open>What a client holds between two operations.\<close>

definition session :: "mmkv \<Rightarrow> os \<Rightarrow> metaInfo \<Rightarrow> kvlog \<Rightarrow> bool" where
  "session m w mi ps \<longleftrightarrow> attached m w mi ps \<and> can_write m w \<and> meta_consistent mi"

definition idle :: "mmkv \<Rightarrow> os \<Rightarrow> bool" where
  "idle m w \<longleftrightarrow>
     (m_multiProcess m \<longrightarrow> fl_inv (m_fl m) w \<and> others (fl_ofd (m_fl m)) (flocks w (fl_ino (m_fl m))) = [])"

definition holds :: "mmkv \<Rightarrow> os \<Rightarrow> (bytes \<rightharpoonup> bytes) \<Rightarrow> bool" where
  "holds m w c \<longleftrightarrow> idle m w \<and> (\<exists>mi ps. session m w mi ps \<and> log_map ps = c)"

lemma store_inv_holds: "store_inv m w ps \<Longrightarrow> idle m w \<Longrightarrow> holds m w (log_map ps)"
  using store_inv_attached [of m w ps] unfolding holds_def session_def by blast

text \<open>A session depends on the files only, not on the clock or the lock table.\<close>

lemma session_cong:
  assumes "files w' = files w" "faults w' = faults w" "pagesize w' = pagesize w"
  shows "session (m\<lparr>m_fl := l\<rparr>) w' mi ps = session m w mi ps"
  unfolding session_def attached_locked [OF assms(1,2)] by (simp add: can_write_def assms(3))

lemma idle_can_lock:
  assumes "faults w = []" "idle m w"
  shows "can_lock t m w"
proof -
  have "lock t l w \<noteq> None" if "fl_inv l w" "others (fl_ofd l) (flocks w (fl_ino l)) = []" for l
    using that assms(1)
    by (cases t) (auto simp: lock_def platformLock_def flock_defs compatible_def fl_inv_def split: option.splits sum.splits)
  then show ?thesis using assms(2) by (auto simp: can_lock_def idle_def)
qed

lemma idle_frame: "idle m w \<Longrightarrow> op_frame m w w' \<Longrightarrow> keeps m m' \<Longrightarrow> idle m' w'"
  by (auto simp: idle_def op_frame_def keeps_def split: if_splits)

text \<open>Time passes.\<close>

lemma holds_tick: "holds m (w\<lparr>nowUnix := t\<rparr>) c = holds m w c"
  using session_cong [where w' = "w\<lparr>nowUnix := t\<rparr>" and w = w and m = m and l = "m_fl m"]
  by (simp add: holds_def idle_def fl_inv_def held_def)

lemma env_tick: "env_of m (w\<lparr>nowUnix := t\<rparr>) = (env_of m w)\<lparr>e_now := t\<rparr>"
  by (simp add: env_of_def)

end
