(* ===== verification/Ops.thy ===== *)
theory Ops
  imports Session
begin

text \<open>
  Every public operation of an instance against the map it holds: the write operations through the
  contract \<open>write_body\<close>, the read operations through \<open>read_body\<close>, the typed setter and getter pairs
  through \<open>typed_store\<close>.
\<close>

section \<open>Write operations between two calls\<close>

context write_body
begin

lemma holds_op:
  assumes "holds m w c" "pre (env_of m w) c"
  shows "\<exists>m' w'. writeOp body m w = Some (Inr (), m', w') \<and> holds m' w' (spec (env_of m w) c) \<and>
    same_env (conf (env_of m w)) (env_of m' w') \<and> keeps m m' \<and> op_frame m w w' \<and>
    e_size (env_of m' w') \<le> max (e_size (env_of m w)) (size_limit (pagesize w) (spec (env_of m w) c))"
proof -
  obtain mi ps where s: "attached m w mi ps" "can_write m w" "meta_consistent mi" "log_map ps = c" "idle m w"
    using assms(1) by (auto simp: holds_def session_def)
  have "can_lock ExclusiveLock m w" using s(1,5) by (intro idle_can_lock) (auto simp: attached_def)
  then obtain m' w' ps' where r: "writeOp body m w = Some (Inr (), m', w')" "store_inv m' w' ps'"
    "log_map ps' = spec (env_of m w) c" "same_env (conf (env_of m w)) (env_of m' w')" "keeps m m'"
    "op_frame m w w'"
    "e_size (env_of m' w') \<le> max (e_size (env_of m w)) (size_limit (pagesize w) (spec (env_of m w) c))"
    using write_op [OF s(1-3)] assms(2) s(4) by blast
  have "holds m' w' (spec (env_of m w) c)"
    using store_inv_attached [OF r(2)] r(3) idle_frame [OF s(5) r(6,5)] by (auto simp: holds_def session_def)
  then show ?thesis using r by blast
qed

end

section \<open>Read operations\<close>

text \<open>After a read the instance still holds the map.\<close>

lemma read_holds:
  assumes att: "attached m w mi ps" and cw: "can_write m w" and mc: "meta_consistent mi" and id: "idle m w"
    and ld: "loaded m1 w1 ps" and mi: "m_info m1 = mi" and nl: "\<not> m_needLoad m1" and f1: "files w1 = files w"
    and f: "files w' = files w" and si: "same_instance m (m1\<lparr>m_fl := m_fl m\<rparr>)" and fr: "op_frame m w w'"
  shows "holds (m1\<lparr>m_fl := m_fl m\<rparr>) w' (log_map ps)" "env_of (m1\<lparr>m_fl := m_fl m\<rparr>) w' = env_of m w"
    "keeps m (m1\<lparr>m_fl := m_fl m\<rparr>)"
proof -
  let ?m = "m1\<lparr>m_fl := m_fl m\<rparr>"
  show k: "keeps m ?m" using si by (simp add: keeps_def same_instance_def)
  have os: "faults w' = []" "pagesize w' = pagesize w" "nowUnix w' = nowUnix w"
    using fr att by (auto simp: op_frame_def attached_def)
  have ld': "loaded ?m w' ps" using ld f1 f loaded_cong [of w' w1] by simp
  have cw': "can_write ?m w'" using can_write_instance [OF si, of w' w] cw os(2) by blast
  have "store_inv ?m w' ps"
    using ld' cw' att mc mi nl si os(1) by (intro loaded_store_inv) (auto simp: attached_def same_instance_def)
  then show "holds ?m w' (log_map ps)" using idle_frame [OF id fr k] by (rule store_inv_holds)
  show "env_of ?m w' = env_of m w" using env_of_instance [OF si f os(3)] .
qed

locale read_body =
  fixes body :: "mmkv \<Rightarrow> os \<Rightarrow> goerr + 'a"
    and result :: "env \<Rightarrow> (bytes \<rightharpoonup> bytes) \<Rightarrow> 'a"
  assumes body_result: "loaded m w ps \<Longrightarrow> body m w = Inr (result (env_of m w) (log_map ps))"
begin

lemma holds_read:
  assumes "holds m w c"
  shows "\<exists>m' w'. readOp x body m w = Some (Inr (result (env_of m w) c), m', w') \<and> holds m' w' c \<and>
    env_of m' w' = env_of m w \<and> keeps m m' \<and> op_frame m w w' \<and> files w' = files w"
proof -
  obtain mi ps where s: "attached m w mi ps" "can_write m w" "meta_consistent mi" "log_map ps = c" "idle m w"
    using assms by (auto simp: holds_def session_def)
  have lk: "can_lock SharedLock m w" using s(1,5) by (intro idle_can_lock) (auto simp: attached_def)
  obtain m1 w1 w' where r: "readOp x body m w = Some (body m1 w1, m1\<lparr>m_fl := m_fl m\<rparr>, w')"
    "loaded m1 w1 ps" "env_of m1 w1 = env_of m w" "m_info m1 = mi" "\<not> m_needLoad m1" "files w1 = files w"
    "files w' = files w" "same_instance m (m1\<lparr>m_fl := m_fl m\<rparr>)" "op_frame m w w'"
    by (rule read_run [OF s(1) lk])
  have "body m1 w1 = Inr (result (env_of m w) c)" using body_result [OF r(2)] r(3) s(4) by simp
  then show ?thesis using r(1,7,9) read_holds [OF s(1-3,5) r(2,4-9)] s(4) by auto
qed

end

text \<open>A critical section that neither looks at the files nor changes them.\<close>

lemma exclusive_plain:
  assumes h: "holds m w c" and run: "\<And>l w1. faults w1 = [] \<Longrightarrow> body (m\<lparr>m_fl := l\<rparr>) w1 = (r, m'\<lparr>m_fl := l\<rparr>, w1)"
    and m': "keeps m m'" "\<And>w mi ps. session m' w mi ps = session m w mi ps"
  shows "\<exists>w'. withExclusive body m w = Some (r, m', w') \<and> files w' = files w \<and> holds m' w' c \<and> nowUnix w' = nowUnix w \<and>
    pagesize w' = pagesize w"
proof -
  obtain mi ps where s: "session m w mi ps" "log_map ps = c" "idle m w" using h by (auto simp: holds_def)
  have flt: "faults w = []" using s(1) by (simp add: session_def attached_def)
  have lk: "can_lock ExclusiveLock m w" by (rule idle_can_lock [OF flt s(3)])
  obtain l w1 where a: "acquire ExclusiveLock m w = Some (m\<lparr>m_fl := l\<rparr>, w1)" "lock_frame (m_fl m) w w1"
    "\<not> m_multiProcess m \<longrightarrow> flocks w1 = flocks w"
    by (rule acquire_ok [OF flt lk])
  let ?m = "m'\<lparr>m_fl := l\<rparr>"
  have q: "m_fl ?m = l" "m_multiProcess ?m = m_multiProcess m" "faults w1 = []" "flocks w1 = flocks w1" "closedOfds w1 = closedOfds w1"
    using lock_frame_fields(2) [OF a(2)] flt m'(1) by (simp_all add: keeps_def)
  obtain w2 where u: "release ExclusiveLock ?m w1 = Some (?m\<lparr>m_fl := m_fl m\<rparr>, w2)" "lock_frame (m_fl m) w1 w2"
    "if m_multiProcess m then fl_inv (m_fl m) w2 else flocks w2 = flocks w1"
    by (rule release_ok [OF flt lk a(1) q])
  note fr = lock_frame_fields [OF a(2)] lock_frame_fields [OF u(2)]
  have id: "?m\<lparr>m_fl := m_fl m\<rparr> = m'" using m'(1) by (simp add: keeps_def)
  have "withExclusive body m w = Some (r, m', w2)"
    using locked_run [where body = body and r = r, OF a(1) _ u(1)] run [OF q(3), of l] unfolding id by (simp add: locked_def)
  moreover have "op_frame m w w2"
    by (rule op_frame_intro [OF os_same_lock [OF a(2)] a(2) refl os_frame_refl u(2) a(3) u(3)])
  then have "idle m' w2" by (rule idle_frame [OF s(3) _ m'(1)])
  moreover have "session m' w2 mi ps"
    using s(1) fr session_cong [where w' = w2 and w = w and m = m and l = "m_fl m"] m'(2) by simp
  ultimately show ?thesis using s(2) fr by (auto simp: holds_def)
qed

lemma syncFlush_holds:
  assumes "holds m w c"
  shows "\<exists>w'. syncFlush sync m w = Some (Inr (), m, w') \<and> files w' = files w \<and> holds m w' c \<and> nowUnix w' = nowUnix w \<and>
    pagesize w' = pagesize w"
  unfolding syncFlush_def
proof (rule exclusive_plain [OF assms])
  obtain mi ps where "attached m w mi ps" "can_write m w" using assms by (auto simp: holds_def session_def)
  then show "(if m_closed (m\<lparr>m_fl := l\<rparr>) then (Inl ErrClosed, m\<lparr>m_fl := l\<rparr>, w1)
      else if m_readOnly (m\<lparr>m_fl := l\<rparr>) then (Inr (), m\<lparr>m_fl := l\<rparr>, w1) else msyncBoth sync (m\<lparr>m_fl := l\<rparr>) w1) =
      (Inr (), m\<lparr>m_fl := l\<rparr>, w1)" if "faults w1 = []" for l w1
    using that by (simp add: attached_def can_write_def msyncBoth_def msync_def mf_mapped_def)
qed (simp_all add: keeps_def)

section \<open>The write operations\<close>

definition stored :: "env \<Rightarrow> bytes \<Rightarrow> bytes" where
  "stored e v = stored_value (e_expire e) (e_seconds e) (e_now e) v"

definition set_pre :: "bytes \<Rightarrow> bytes \<Rightarrow> env \<Rightarrow> (bytes \<rightharpoonup> bytes) \<Rightarrow> bool" where
  "set_pre k v e c \<longleftrightarrow> entry_ok k (stored e v) \<and> small e (c(k \<mapsto> stored e v))"

text \<open>A body whose result agrees with a reconfigured instance \<open>m1\<close> meets the contract.\<close>

lemma contractI:
  assumes "store_inv m w ps" "body m w = (Inr (), m', w')" "store_inv m' w' ps'" "log_map ps' = c"
    "same_config m1 m'" "os_frame {mf_ino (m_data m), mf_ino (m_meta m)} w w'" "progress m w m' w'"
    and "keeps m m1" "m_crypt m1 = e_crypt e" "m_enableExpire m1 = e_expire e"
    "m_expiredSeconds m1 = e_seconds e" "nowUnix w = e_now e"
  shows "\<exists>m' w' ps'. body m w = (Inr (), m', w') \<and> store_inv m' w' ps' \<and> log_map ps' = c \<and>
    same_env e (env_of m' w') \<and> keeps m m' \<and> os_frame {mf_ino (m_data m), mf_ino (m_meta m)} w w' \<and>
    progress m w m' w'"
proof -
  have l: "loaded m' w' ps'" using assms(3) by (simp add: store_inv_def)
  have "same_env e (env_of m' w')"
    using assms(5,6,9-12) loaded_env [OF l]
    by (cases e) (auto simp: same_env_def same_config_def os_frame_def intro!: env.equality)
  moreover have "keeps m m'" using assms(5,8) by (simp add: same_config_def keeps_def)
  ultimately show ?thesis using assms(2-4,6,7) by blast
qed

lemma keeps_refl [simp]: "keeps m m"
  by (simp add: keeps_def)

lemma store_inv_env:
  assumes "store_inv m w ps"
  shows "e_expire (env_of m w) = m_enableExpire m" "e_size (env_of m w) = mf_size (m_data m)"
    "e_crypt (env_of m w) = m_crypt m" "e_seconds (env_of m w) = m_expiredSeconds m"
    "e_now (env_of m w) = nowUnix w" "small (env_of m w) c = sizes_ok m c"
    "visible m w = visible_of (env_of m w) (log_map ps)"
  using assms loaded_env [of m w ps] small_sizes [of m w ps c] visible_loaded [of m w ps]
  by (auto simp: store_inv_def)

interpretation set_op: write_body "setValueLocked k v" "set_pre k v" "\<lambda>e c. c(k \<mapsto> stored e v)" "\<lambda>e. e" for k v
proof
  fix m w ps
  assume inv: "store_inv m w ps" and pre: "set_pre k v (env_of m w) (log_map ps)"
  note e = store_inv_env [OF inv]
  have v: "stored (env_of m w) v = stored_value (m_enableExpire m) (m_expiredSeconds m) (nowUnix w) v"
    by (simp add: stored_def e)
  have p: "entry_ok k (stored (env_of m w) v)" "sizes_ok m ((log_map ps)(k \<mapsto> stored (env_of m w) v))"
    using pre e(6) by (simp_all add: set_pre_def)
  show "\<exists>m' w' ps'. setValueLocked k v m w = (Inr (), m', w') \<and> store_inv m' w' ps' \<and>
        log_map ps' = (log_map ps)(k \<mapsto> stored (env_of m w) v) \<and> same_env (env_of m w) (env_of m' w') \<and>
        keeps m m' \<and> os_frame {mf_ino (m_data m), mf_ino (m_meta m)} w w' \<and> progress m w m' w'"
    by (rule setValueLocked_ok [OF inv v p], rule contractI [OF inv], assumption+) (simp_all add: e)
qed

interpretation remove_op: write_body "removeLocked k"
  "\<lambda>e c. e_crypt e = None \<and> small e (c(k := None))" "\<lambda>_ c. c(k := None)" "\<lambda>e. e" for k
proof
  fix m w ps
  assume inv: "store_inv m w ps" and pre: "e_crypt (env_of m w) = None \<and> small (env_of m w) ((log_map ps)(k := None))"
  note e = store_inv_env [OF inv]
  have p: "m_crypt m = None" "sizes_ok m ((log_map ps)(k := None))" using pre e by simp_all
  show "\<exists>m' w' ps'. removeLocked k m w = (Inr (), m', w') \<and> store_inv m' w' ps' \<and>
        log_map ps' = (log_map ps)(k := None) \<and> same_env (env_of m w) (env_of m' w') \<and>
        keeps m m' \<and> os_frame {mf_ino (m_data m), mf_ino (m_meta m)} w w' \<and> progress m w m' w'"
    by (rule removeLocked_ok [OF inv p], rule contractI [OF inv], assumption+) (simp_all add: e)
qed

interpretation remove_keys_op: write_body "removeKeysLocked ks"
  "\<lambda>e c. small e (c |` (- set ks))" "\<lambda>_ c. c |` (- set ks)" "\<lambda>e. e" for ks
proof
  fix m w ps
  assume inv: "store_inv m w ps" and pre: "small (env_of m w) (log_map ps |` (- set ks))"
  note e = store_inv_env [OF inv]
  have p: "sizes_ok m (log_map ps |` (- set ks))" using pre e by simp
  show "\<exists>m' w' ps'. removeKeysLocked ks m w = (Inr (), m', w') \<and> store_inv m' w' ps' \<and>
        log_map ps' = log_map ps |` (- set ks) \<and> same_env (env_of m w) (env_of m' w') \<and>
        keeps m m' \<and> os_frame {mf_ino (m_data m), mf_ino (m_meta m)} w w' \<and> progress m w m' w'"
    by (rule removeKeysLocked_ok [OF inv p], rule contractI [OF inv], assumption+) (simp_all add: e)
qed

interpretation clear_op: write_body clearAllLocked "\<lambda>_ _. True" "\<lambda>_ _. Map.empty" "\<lambda>e. e"
proof
  fix m w ps
  assume inv: "store_inv m w ps"
  note e = store_inv_env [OF inv] and f = store_inv_facts [OF inv]
  have ex: "m_enableExpire m = expireEnabled (m_info m)" using inv by (simp add: store_inv_def)
  show "\<exists>m' w' ps'. clearAllLocked m w = (Inr (), m', w') \<and> store_inv m' w' ps' \<and>
        log_map ps' = Map.empty \<and> same_env (env_of m w) (env_of m' w') \<and>
        keeps m m' \<and> os_frame {mf_ino (m_data m), mf_ino (m_meta m)} w w' \<and> progress m w m' w'"
    by (rule clearAllLocked_ok [OF f(1,11) ex], rule contractI [OF inv], assumption, assumption, simp, assumption+)
      (simp_all add: e)
qed

interpretation trim_op: write_body trimLocked small "\<lambda>_ c. c" "\<lambda>e. e"
proof
  fix m w ps
  assume inv: "store_inv m w ps" and pre: "small (env_of m w) (log_map ps)"
  note e = store_inv_env [OF inv]
  have p: "sizes_ok m (log_map ps)" using pre e by simp
  show "\<exists>m' w' ps'. trimLocked m w = (Inr (), m', w') \<and> store_inv m' w' ps' \<and>
        log_map ps' = log_map ps \<and> same_env (env_of m w) (env_of m' w') \<and>
        keeps m m' \<and> os_frame {mf_ino (m_data m), mf_ino (m_meta m)} w w' \<and> progress m w m' w'"
    by (rule trimLocked_ok [OF inv p], rule contractI [OF inv], assumption+) (simp_all add: e)
qed

interpretation rekey_op: write_body "rekeyLocked key" small "\<lambda>_ c. c"
  "\<lambda>e. e\<lparr>e_crypt := if key = [] then None else Some (newAESCFB key)\<rparr>" for key
proof
  fix m w ps
  assume inv: "store_inv m w ps" and pre: "small (env_of m w) (log_map ps)"
  note e = store_inv_env [OF inv]
  have p: "4 + packed_size (log_map ps) < 2 ^ 32" using pre by (simp add: small_def)
  show "\<exists>m' w' ps'. rekeyLocked key m w = (Inr (), m', w') \<and> store_inv m' w' ps' \<and>
        log_map ps' = log_map ps \<and>
        same_env ((env_of m w)\<lparr>e_crypt := if key = [] then None else Some (newAESCFB key)\<rparr>) (env_of m' w') \<and>
        keeps m m' \<and> os_frame {mf_ino (m_data m), mf_ino (m_meta m)} w w' \<and> progress m w m' w'"
    by (rule rekeyLocked_ok [OF inv p], rule contractI [OF inv], assumption+) (simp_all add: e keeps_def)
qed

interpretation enable_op: write_body "enableExpireLocked seconds"
  "\<lambda>e c. content_ok (expire_on (e_expire e) c) \<and> small e (expire_on (e_expire e) c)"
  "\<lambda>e c. expire_on (e_expire e) c" "\<lambda>e. e\<lparr>e_expire := True, e_seconds := seconds\<rparr>" for seconds
proof
  fix m w ps
  assume inv: "store_inv m w ps" and pre: "content_ok (expire_on (e_expire (env_of m w)) (log_map ps)) \<and>
    small (env_of m w) (expire_on (e_expire (env_of m w)) (log_map ps))"
  note e = store_inv_env [OF inv]
  have c: "expire_on (e_expire (env_of m w)) (log_map ps) = expire_on (m_enableExpire m) (log_map ps)"
    by (simp add: e)
  have p: "content_ok (expire_on (e_expire (env_of m w)) (log_map ps))"
    "4 + packed_size (expire_on (e_expire (env_of m w)) (log_map ps)) < 2 ^ 32"
    using pre by (simp_all add: small_def)
  show "\<exists>m' w' ps'. enableExpireLocked seconds m w = (Inr (), m', w') \<and> store_inv m' w' ps' \<and>
        log_map ps' = expire_on (e_expire (env_of m w)) (log_map ps) \<and>
        same_env ((env_of m w)\<lparr>e_expire := True, e_seconds := seconds\<rparr>) (env_of m' w') \<and>
        keeps m m' \<and> os_frame {mf_ino (m_data m), mf_ino (m_meta m)} w w' \<and> progress m w m' w'"
    by (rule enableExpireLocked_ok [OF inv c p], rule contractI [OF inv], assumption+)
      (simp_all add: e keeps_def)
qed

definition expire_off :: "env \<Rightarrow> (bytes \<rightharpoonup> bytes) \<Rightarrow> (bytes \<rightharpoonup> bytes)" where
  "expire_off e c = (if e_expire e then visible_of e c else c)"

interpretation disable_op: write_body disableExpireLocked
  "\<lambda>e c. content_ok (expire_off e c) \<and> small e (expire_off e c)" expire_off
  "\<lambda>e. if e_expire e then e\<lparr>e_expire := False, e_seconds := 0\<rparr> else e"
proof
  fix m w ps
  let ?e = "env_of m w"
  assume inv: "store_inv m w ps"
    and pre: "content_ok (expire_off ?e (log_map ps)) \<and> small ?e (expire_off ?e (log_map ps))"
  note e = store_inv_env [OF inv]
  show "\<exists>m' w' ps'. disableExpireLocked m w = (Inr (), m', w') \<and> store_inv m' w' ps' \<and>
        log_map ps' = expire_off ?e (log_map ps) \<and>
        same_env (if e_expire ?e then ?e\<lparr>e_expire := False, e_seconds := 0\<rparr> else ?e) (env_of m' w') \<and>
        keeps m m' \<and> os_frame {mf_ino (m_data m), mf_ino (m_meta m)} w w' \<and> progress m w m' w'"
  proof (cases "m_enableExpire m")
    case True
    have c: "expire_off ?e (log_map ps) = visible m w" by (simp add: expire_off_def e True)
    have p: "content_ok (visible m w)" "4 + packed_size (visible m w) < 2 ^ 32"
      using pre c by (simp_all add: small_def)
    show ?thesis
      unfolding c
      by (rule disableExpireLocked_ok [OF inv True p], rule contractI [OF inv], assumption+)
        (simp_all add: e True keeps_def)
  next
    case False
    show ?thesis
      by (rule contractI [OF inv, of _ m w ps]) (use inv False e in \<open>simp_all add: disableExpireLocked_def expire_off_def\<close>)
  qed
qed

section \<open>The read operations\<close>

lemma live_value_off: "live_value False now = Some"
  by (simp add: fun_eq_iff live_value_def)

lemma loaded_visible: "loaded m w ps \<Longrightarrow> visible_of (env_of m w) (log_map ps) = visible m w"
  by (simp add: visible_loaded)

interpretation scalar_get: read_body "scalarValue reader k"
  "\<lambda>e c. Option.bind (visible_of e c k) (decode_with reader)" for reader k
  by unfold_locales (simp add: scalarValue_ok loaded_readable loaded_visible)

lemma bytesCopy_ok:
  assumes "readable m w"
  shows "bytesCopy k m w = Inr (Option.bind (visible m w k) (decode_with readBytes))"
  using bytesValue_ok [OF assms, of k] by (auto simp: bytesCopy_def split: option.splits)

interpretation bytes_get: read_body "bytesCopy k"
  "\<lambda>e c. Option.bind (visible_of e c k) (decode_with readBytes)" for k
  by unfold_locales (simp add: bytesCopy_ok loaded_readable loaded_visible)

definition decode_strings :: "bytes \<Rightarrow> bytes list option" where
  "decode_strings b = map_option decodeStringSlice (decode_with readBytes b)"

interpretation strings_get: read_body
  "\<lambda>m w. case bytesCopy k m w of
         Inl e \<Rightarrow> Inl e
       | Inr None \<Rightarrow> Inr None
       | Inr (Some items) \<Rightarrow> Inr (Some (decodeStringSlice items))"
  "\<lambda>e c. Option.bind (visible_of e c k) decode_strings" for k
proof
  fix m w ps
  assume l: "loaded m w ps"
  show "(case bytesCopy k m w of
         Inl e \<Rightarrow> Inl e
       | Inr None \<Rightarrow> Inr None
       | Inr (Some items) \<Rightarrow> Inr (Some (decodeStringSlice items))) =
      Inr (Option.bind (visible_of (env_of m w) (log_map ps) k) decode_strings)"
    unfolding bytesCopy_ok [OF loaded_readable [OF l]] loaded_visible [OF l]
    by (cases "visible m w k") (auto simp: decode_strings_def split: option.splits)
qed

interpretation size_get: read_body
  "\<lambda>m w. case mmkv_value k m w of Inl e \<Rightarrow> Inl e | Inr v \<Rightarrow> Inr (map_option slice_len v)"
  "\<lambda>e c. map_option length (visible_of e c k)" for k
proof
  fix m w ps
  assume l: "loaded m w ps"
  show "(case mmkv_value k m w of Inl e \<Rightarrow> Inl e | Inr v \<Rightarrow> Inr (map_option slice_len v)) =
      Inr (map_option length (visible_of (env_of m w) (log_map ps) k))"
    using mmkv_value_ok [OF loaded_readable [OF l], of k] by (auto simp: loaded_visible [OF l] split: option.splits)
qed

text \<open>The value copied to the front of a buffer, if it fits.\<close>

definition into_buffer :: "bytes \<Rightarrow> bytes option \<Rightarrow> (nat \<times> bytes) option" where
  "into_buffer buf v = Option.bind v (\<lambda>b. if length buf < length b then None else Some (length b, b @ drop (length b) buf))"

interpretation buffer_get: read_body
  "\<lambda>m w. case mmkv_value k m w of
         Inl e \<Rightarrow> Inl e
       | Inr None \<Rightarrow> Inr None
       | Inr (Some v) \<Rightarrow>
           if length buf < slice_len v then Inr None
           else (case deref (m_data m) w v of
                   Inl e \<Rightarrow> Inl e
                 | Inr b \<Rightarrow> Inr (Some (length b, overwrite 0 b buf)))"
  "\<lambda>e c. into_buffer buf (visible_of e c k)" for k buf
proof
  fix m w ps
  assume l: "loaded m w ps"
  show "(case mmkv_value k m w of
         Inl e \<Rightarrow> Inl e
       | Inr None \<Rightarrow> Inr None
       | Inr (Some v) \<Rightarrow>
           if length buf < slice_len v then Inr None
           else (case deref (m_data m) w v of
                   Inl e \<Rightarrow> Inl e
                 | Inr b \<Rightarrow> Inr (Some (length b, overwrite 0 b buf)))) =
      Inr (into_buffer buf (visible_of (env_of m w) (log_map ps) k))"
    using mmkv_value_ok [OF loaded_readable [OF l], of k]
    by (auto simp: loaded_visible [OF l] into_buffer_def overwrite_def split: option.splits)
qed

interpretation contains_get: read_body
  "\<lambda>m w. case mmkv_value k m w of Inl e \<Rightarrow> Inl e | Inr v \<Rightarrow> Inr (v \<noteq> None)"
  "\<lambda>e c. k \<in> dom (visible_of e c)" for k
proof
  fix m w ps
  assume l: "loaded m w ps"
  show "(case mmkv_value k m w of Inl e \<Rightarrow> Inl e | Inr v \<Rightarrow> Inr (v \<noteq> None)) =
      Inr (k \<in> dom (visible_of (env_of m w) (log_map ps)))"
    using mmkv_value_ok [OF loaded_readable [OF l], of k]
    by (auto simp: loaded_visible [OF l] domIff split: option.splits)
qed

text \<open>The keys, sorted, without those whose value has expired.\<close>

lemma liveKeys_ok:
  assumes "readable m w"
  shows "liveKeys ks m w = Inr (filter (\<lambda>k. visible m w k \<noteq> None) ks)"
proof (induction ks)
  case (Cons k ks)
  then show ?case using mmkv_value_ok [OF assms, of k] by (auto split: option.splits)
qed simp

lemma live_keys_dom:
  assumes "loaded m w ps"
  shows "set (filter (\<lambda>k. visible m w k \<noteq> None) (gm_keys (m_dict m))) = dom (visible m w)"
    "distinct (filter (\<lambda>k. visible m w k \<noteq> None) (gm_keys (m_dict m)))"
proof -
  have d: "gm_inv (m_dict m)" using assms by (simp add: loaded_def dict_in_def)
  show "distinct (filter (\<lambda>k. visible m w k \<noteq> None) (gm_keys (m_dict m)))"
    using gm.distinct_keys [OF d] by simp
  show "set (filter (\<lambda>k. visible m w k \<noteq> None) (gm_keys (m_dict m))) = dom (visible m w)"
    by (auto simp: gm.set_keys visible_def content_def dict_map_def split: option.splits)
qed

interpretation keys_get: read_body
  "\<lambda>m w. case liveKeys (gm_keys (m_dict m)) m w of Inl e \<Rightarrow> Inl e | Inr ks \<Rightarrow> Inr (sort_Strings ks)"
  "\<lambda>e c. sorted_list_of_set (dom (visible_of e c))"
proof
  fix m w ps
  assume l: "loaded m w ps"
  let ?ks = "filter (\<lambda>k. visible m w k \<noteq> None) (gm_keys (m_dict m))"
  have "sort_Strings ?ks = sorted_list_of_set (set ?ks)"
    using live_keys_dom(2) [OF l] unfolding sort_Strings_def sorted_list_of_set_sort_remdups
    by (simp only: distinct_remdups_id)
  then show "(case liveKeys (gm_keys (m_dict m)) m w of Inl e \<Rightarrow> Inl e | Inr ks \<Rightarrow> Inr (sort_Strings ks)) =
      Inr (sorted_list_of_set (dom (visible_of (env_of m w) (log_map ps))))"
    using live_keys_dom(1) [OF l] liveKeys_ok [OF loaded_readable [OF l]] by (simp add: loaded_visible [OF l])
qed

interpretation count_get: read_body
  "\<lambda>m w. if \<not> m_enableExpire m then Inr (length (m_dict m))
       else (case liveKeys (gm_keys (m_dict m)) m w of Inl e \<Rightarrow> Inl e | Inr ks \<Rightarrow> Inr (length ks))"
  "\<lambda>e c. card (dom (visible_of e c))"
proof
  fix m w ps
  assume l: "loaded m w ps"
  let ?ks = "filter (\<lambda>k. visible m w k \<noteq> None) (gm_keys (m_dict m))"
  have n: "card (dom (visible m w)) = length ?ks"
    using live_keys_dom [OF l] distinct_card by metis
  have "length ?ks = length (m_dict m)" if "\<not> m_enableExpire m"
  proof -
    have "visible m w = log_map ps" using that l by (simp add: visible_def live_value_off loaded_def)
    moreover have "dom (log_map ps) = set (gm_keys (m_dict m))"
    proof -
      have b: "mf_mapped (m_data m) w" "4 + unat (m_actualSize m) \<le> mf_size (m_data m)"
        "dict_in (m_data m) (unat (m_actualSize m)) (m_dict m)" "content m w = log_map ps"
        using l by (auto simp: loaded_def synced_def on_disk_def in_file_def mf_mapped_def)
      then show ?thesis
        using dom_dict_map [OF dict_in_live [OF b(1-3)]] by (simp add: content_def dict_in_def)
    qed
    ultimately have "?ks = gm_keys (m_dict m)" by (auto simp: filter_id_conv)
    then show ?thesis by (simp add: gm_keys_def)
  qed
  then show "(if \<not> m_enableExpire m then Inr (length (m_dict m))
       else (case liveKeys (gm_keys (m_dict m)) m w of Inl e \<Rightarrow> Inl e | Inr ks \<Rightarrow> Inr (length ks))) =
      Inr (card (dom (visible_of (env_of m w) (log_map ps))))"
    using n liveKeys_ok [OF loaded_readable [OF l]] by (simp add: loaded_visible [OF l])
qed

end
