(* ===== verification/TypedStore.thy ===== *)
theory TypedStore
  imports Ops
begin

text \<open>
  The typed setters and getters.  \<open>typed_store\<close> is the contract of one pair: the setter stores an
  encoding, the getter decodes what is visible, and decoding inverts encoding.  Its lemmas, read after
  write and no interference between keys, hold for each of the ten types of the interface.
\<close>

section \<open>Values that do not expire at once\<close>

definition lasting :: "env \<Rightarrow> bool" where
  "lasting e \<longleftrightarrow> (e_expire e \<longrightarrow> e_seconds e = 0 \<or> e_now e + e_seconds e = 0 \<or> e_now e < e_now e + e_seconds e)"

lemma live_stored:
  assumes "lasting e"
  shows "live_value (e_expire e) (e_now e) (stored e v) = Some v"
proof (cases "e_expire e")
  case True
  have "getUint32 (stamp (e_seconds e) (e_now e)) = (if e_seconds e \<noteq> 0 then e_now e + e_seconds e else 0)"
    by (simp add: stamp_def)
  then show ?thesis
    using True assms
    by (auto simp: stored_def stored_value_def live_value_def lasting_def Let_def not_less [symmetric])
next
  case False
  then show ?thesis by (simp add: stored_def stored_value_def live_value_off)
qed

lemma visible_set: "lasting e \<Longrightarrow> visible_of e (c(k \<mapsto> stored e v)) = (visible_of e c)(k \<mapsto> v)"
  by (auto simp: visible_of_def live_stored fun_eq_iff)

lemma same_env_visible: "same_env e e' \<Longrightarrow> visible_of e' = visible_of e"
  by (cases e; cases e') (auto simp: same_env_def visible_of_def fun_eq_iff)

section \<open>The contract of a typed pair\<close>

text \<open>The setter succeeds, the getter then returns the value, and every other key reads as before.\<close>

definition reads_back ::
    "(bytes \<Rightarrow> 'v \<Rightarrow> unit op) \<Rightarrow> (bytes \<Rightarrow> 'v option op) \<Rightarrow> bytes \<Rightarrow> 'v \<Rightarrow> mmkv \<Rightarrow> os \<Rightarrow> bool" where
  "reads_back set_v get_v k v m w \<longleftrightarrow>
     (\<exists>m1 w1. set_v k v m w = Some (Inr (), m1, w1) \<and>
        (\<exists>m2 w2. get_v k m1 w1 = Some (Inr (Some v), m2, w2)) \<and>
        (\<forall>k'. k' \<noteq> k \<longrightarrow> (\<exists>x m2 w2 m3 w3. get_v k' m w = Some (x, m2, w2) \<and> get_v k' m1 w1 = Some (x, m3, w3))))"

locale typed_store =
  fixes set_v :: "bytes \<Rightarrow> 'v \<Rightarrow> unit op"
    and get_v :: "bytes \<Rightarrow> 'v option op"
    and blob :: "'v \<Rightarrow> bytes"
    and decode :: "bytes \<Rightarrow> 'v option"
    and valid :: "'v \<Rightarrow> bool"
  assumes set_law: "holds m w c \<Longrightarrow> set_pre k (blob v) (env_of m w) c \<Longrightarrow>
      \<exists>m' w'. set_v k v m w = Some (Inr (), m', w') \<and> holds m' w' (c(k \<mapsto> stored (env_of m w) (blob v))) \<and>
        same_env (env_of m w) (env_of m' w')"
    and get_law: "holds m w c \<Longrightarrow>
      \<exists>m' w'. get_v k m w = Some (Inr (Option.bind (visible_of (env_of m w) c k) decode), m', w') \<and>
        holds m' w' c \<and> env_of m' w' = env_of m w"
    and decode_blob: "valid v \<Longrightarrow> decode (blob v) = Some v"
begin

text \<open>Read after write returns the value; every other key reads as before.\<close>

lemma set_get:
  assumes "holds m w c" "set_pre k (blob v) (env_of m w) c" "lasting (env_of m w)" "valid v"
  shows "reads_back set_v get_v k v m w"
proof -
  let ?e = "env_of m w"
  let ?c = "c(k \<mapsto> stored ?e (blob v))"
  obtain m1 w1 where s: "set_v k v m w = Some (Inr (), m1, w1)" "holds m1 w1 ?c" "same_env ?e (env_of m1 w1)"
    using set_law [OF assms(1,2)] by blast
  have vis: "visible_of (env_of m1 w1) ?c = (visible_of ?e c)(k \<mapsto> blob v)"
    using same_env_visible [OF s(3)] visible_set [OF assms(3)] by simp
  have "\<exists>m2 w2. get_v k m1 w1 = Some (Inr (Some v), m2, w2)"
    using get_law [OF s(2), of k] decode_blob [OF assms(4)] by (auto simp: vis)
  moreover have "\<exists>x m2 w2 m3 w3. get_v k' m w = Some (x, m2, w2) \<and> get_v k' m1 w1 = Some (x, m3, w3)"
    if "k' \<noteq> k" for k'
    using get_law [OF assms(1), of k'] get_law [OF s(2), of k'] that by (auto simp: vis)
  ultimately show ?thesis using s(1) by (auto simp: reads_back_def)
qed

text \<open>A second write to the same key wins.\<close>

lemma set_set_get:
  assumes "holds m w c" "set_pre k (blob u) (env_of m w) c" "lasting (env_of m w)" "valid v"
    and "\<And>m1 w1. set_v k u m w = Some (Inr (), m1, w1) \<Longrightarrow>
      set_pre k (blob v) (env_of m1 w1) (c(k \<mapsto> stored (env_of m w) (blob u)))"
  shows "\<exists>m1 w1 m2 w2 m3 w3. set_v k u m w = Some (Inr (), m1, w1) \<and> set_v k v m1 w1 = Some (Inr (), m2, w2) \<and>
    get_v k m2 w2 = Some (Inr (Some v), m3, w3)"
proof -
  obtain m1 w1 where s: "set_v k u m w = Some (Inr (), m1, w1)"
    "holds m1 w1 (c(k \<mapsto> stored (env_of m w) (blob u)))" "same_env (env_of m w) (env_of m1 w1)"
    using set_law [OF assms(1,2)] by blast
  have l: "lasting (env_of m1 w1)"
    using assms(3) s(3) by (cases "env_of m w"; cases "env_of m1 w1") (auto simp: same_env_def lasting_def)
  show ?thesis using s(1) set_get [OF s(2) assms(5) [OF s(1)] l assms(4)] by (auto simp: reads_back_def)
qed

end

section \<open>The ten types\<close>

lemma setValue_law:
  assumes "holds m w c" "set_pre k b (env_of m w) c"
  shows "\<exists>m' w'. setValue k b m w = Some (Inr (), m', w') \<and> holds m' w' (c(k \<mapsto> stored (env_of m w) b)) \<and>
        same_env (env_of m w) (env_of m' w')"
  unfolding setValue_def using set_op.holds_op [OF assms] by blast

lemma scalar_law:
  assumes "holds m w c"
  shows "\<exists>m' w'. readOp None (scalarValue reader k) m w =
        Some (Inr (Option.bind (visible_of (env_of m w) c k) (decode_with reader)), m', w') \<and>
        holds m' w' c \<and> env_of m' w' = env_of m w"
  using scalar_get.holds_read [OF assms] by blast

lemma bytes_law:
  assumes "holds m w c"
  shows "\<exists>m' w'. readOp None (bytesCopy k) m w =
        Some (Inr (Option.bind (visible_of (env_of m w) c k) (decode_with readBytes)), m', w') \<and>
        holds m' w' c \<and> env_of m' w' = env_of m w"
  using bytes_get.holds_read [OF assms] by blast

lemma strings_law:
  assumes "holds m w c"
  shows "\<exists>m' w'. GetStringSlice k m w =
        Some (Inr (Option.bind (visible_of (env_of m w) c k) decode_strings), m', w') \<and>
        holds m' w' c \<and> env_of m' w' = env_of m w"
  unfolding GetStringSlice_def using strings_get.holds_read [OF assms] by blast

lemma decode_with_whole: "fst (reader (newCodedInput b)) = Inr x \<Longrightarrow> decode_with reader b = Some x"
  by (simp add: decode_with_def)

interpretation bool_kv: typed_store SetBool GetBool boolBlob "decode_with readBool" "\<lambda>_. True"
  by unfold_locales
    (simp_all add: SetBool_def GetBool_def setValue_law scalar_law decode_with_whole boolc.dec_whole)

interpretation int32_kv: typed_store SetInt32 GetInt32 int32Blob "decode_with readInt32" "\<lambda>_. True"
  by unfold_locales
    (simp_all add: SetInt32_def GetInt32_def setValue_law scalar_law decode_with_whole i32.dec_whole)

interpretation int64_kv: typed_store SetInt64 GetInt64 int64Blob "decode_with readVarint64" "\<lambda>_. True"
  by unfold_locales
    (simp_all add: SetInt64_def GetInt64_def setValue_law scalar_law decode_with_whole int64Blob_def
      writeInt64_def vi64.dec_whole)

interpretation uint32_kv: typed_store SetUInt32 GetUInt32 uint32Blob "decode_with readUInt32" "\<lambda>_. True"
  by unfold_locales
    (simp_all add: SetUInt32_def GetUInt32_def setValue_law scalar_law decode_with_whole uint32Blob_def
      writeUInt32_def vi32.dec_whole)

interpretation uint64_kv: typed_store SetUInt64 GetUInt64 uint64Blob "decode_with readVarint64" "\<lambda>_. True"
  by unfold_locales
    (simp_all add: SetUInt64_def GetUInt64_def setValue_law scalar_law decode_with_whole uint64Blob_def
      writeUInt64_def vi64.dec_whole)

interpretation float32_kv: typed_store SetFloat32 GetFloat32 float32Blob "decode_with readFixed32" "\<lambda>_. True"
  by unfold_locales
    (simp_all add: SetFloat32_def GetFloat32_def setValue_law scalar_law decode_with_whole f32.dec_whole)

interpretation float64_kv: typed_store SetFloat64 GetFloat64 float64Blob "decode_with readFixed64" "\<lambda>_. True"
  by unfold_locales
    (simp_all add: SetFloat64_def GetFloat64_def setValue_law scalar_law decode_with_whole f64.dec_whole)

interpretation bytes_kv: typed_store SetBytes GetBytesCopy bytesBlob "decode_with readBytes" "\<lambda>b. length b < 2 ^ 32"
  by unfold_locales
    (simp_all add: SetBytes_def GetBytesCopy_def setValue_law bytes_law decode_with_whole dat.dec_whole)

interpretation string_kv: typed_store SetString GetStringCopy stringBlob "decode_with readBytes" "\<lambda>b. length b < 2 ^ 32"
  by unfold_locales
    (simp_all add: SetString_def GetStringCopy_def setValue_law bytes_law decode_with_whole dat.dec_whole
      stringBlob_def)

interpretation strings_kv: typed_store SetStringSlice GetStringSlice stringSliceBlob decode_strings
  "\<lambda>v. length (stringSlice_items v []) < 2 ^ 32"
proof
  fix v :: "bytes list"
  assume "length (stringSlice_items v []) < 2 ^ 32"
  then show "decode_strings (stringSliceBlob v) = Some v"
    using stringSlice_decode [of v] by (auto simp: decode_strings_def decode_with_def)
qed (simp_all add: SetStringSlice_def setValue_law strings_law)

end
