(* ===== verification/Open.thy ===== *)
theory Open
  imports TypedStore
begin

text \<open>
  Opening a store (\<^verbatim>\<open>open\<close>, \<^verbatim>\<open>MMKVWithID\<close>): new files become an empty store, existing files are loaded, so
  what one instance wrote is what the next one reads.  Instances of a process are cached by path.
\<close>

section \<open>Files that hold a store\<close>

lemma get_le_zeros [simp]: "get_le (replicate n 0) = 0"
  by (induction n) auto

lemma getUint_zeros [simp]: "getUint32 (replicate n 0) = 0" "getUint64 (replicate n 0) = 0"
  by (simp_all add: getUint32_def getUint64_def)

lemma parseMeta_zeros: "metaSize \<le> n \<Longrightarrow> parseMeta (replicate n 0) = Inr zero_info"
  by (simp add: parseMeta_def zero_info_def meta_offsets min_def)

text \<open>Zero-filled files are an empty store.\<close>

lemma on_disk_zeros:
  assumes "4 \<le> n" "metaSize \<le> k"
  shows "on_disk c (replicate n 0) (replicate k 0) zero_info []"
  using assms parseMeta_zeros [of k]
  by (simp add: on_disk_def disk_actual_def in_file_def region_at_def region_log_def zero_info_def
      meta_versions)

text \<open>Growing the files of a store leaves the store alone.\<close>

lemma on_disk_resize:
  assumes "on_disk c D M mi ps" "length D \<le> n" "length M \<le> k"
  shows "on_disk c (resize n D) (resize k M) mi ps"
proof -
  have p: "parseMeta M = Inr mi" and inf: "in_file (disk_actual mi D) D"
    using assms(1) by (auto simp: on_disk_def)
  have len: "metaSize \<le> length M" using p by (auto simp: parseMeta_def split: if_splits)
  have "parseMeta (resize k M) = Inr mi"
    using p parseMeta_append [OF len] assms(3) by (simp add: resize_def)
  moreover have da: "disk_actual mi (resize n D) = disk_actual mi D"
    using inf assms(2) take_resize [of 4 n D] by (simp add: disk_actual_def getUint32_def in_file_def)
  moreover have "region_at (disk_actual mi D) (resize n D) = region_at (disk_actual mi D) D"
    using inf assms(2) by (simp add: region_at_def in_file_def take_drop_resize)
  moreover have "in_file (disk_actual mi D) (resize n D)" using inf assms(2) by (simp add: in_file_def)
  ultimately show ?thesis using assms(1) by (simp add: on_disk_def)
qed

section \<open>Opening a file\<close>

definition file_at :: "os \<Rightarrow> string \<Rightarrow> bytes" where
  "file_at w path = (case lookup w path of None \<Rightarrow> [] | Some i \<Rightarrow> files w i)"

definition ino_at :: "os \<Rightarrow> string \<Rightarrow> nat" where
  "ino_at w path = (case lookup w path of None \<Rightarrow> nextIno w | Some i \<Rightarrow> i)"

lemma openMemoryFile_ok:
  assumes "faults w = []"
  obtains mf w' where "openMemoryFile path n w = (Inr mf, w')" "mf_ok mf w'"
    "mf_ino mf = ino_at w path" "mf_ofd mf = nextOfd w"
    "files w' = (files w)(ino_at w path :=
       resize (max (length (file_at w path)) (pageRoundUp (pagesize w) n)) (file_at w path))"
    "dirent w' = (dirent w)(filepath_Abs (cwd w) path \<mapsto> ino_at w path)"
    "nextIno w' = (if lookup w path = None then nextIno w + 1 else nextIno w)" "nextOfd w' = nextOfd w + 1"
    "flocks w' = flocks w" "faults w' = []" "nowUnix w' = nowUnix w" "pagesize w' = pagesize w"
    "closedOfds w' = closedOfds w" "cwd w' = cwd w"
proof -
  let ?i = "ino_at w path" and ?D = "file_at w path" and ?p = "pageRoundUp (pagesize w) n"
  obtain w1 where c: "os_open_create path w = (Inr (?i, nextOfd w), w1)" "files w1 = (files w)(?i := ?D)"
    "dirent w1 = (dirent w)(filepath_Abs (cwd w) path \<mapsto> ?i)"
    "nextIno w1 = (if lookup w path = None then nextIno w + 1 else nextIno w)" "nextOfd w1 = nextOfd w + 1"
    "flocks w1 = flocks w" "faults w1 = []" "nowUnix w1 = nowUnix w" "pagesize w1 = pagesize w"
    "closedOfds w1 = closedOfds w" "cwd w1 = cwd w"
    by (cases "lookup w path")
      (use assms in \<open>auto simp: os_open_create_def lookup_def ino_at_def file_at_def Let_def fun_upd_idem\<close>)
  show thesis
  proof (cases "length ?D < ?p")
    case True
    show thesis
      by (rule that [of "\<lparr>mf_ino = ?i, mf_ofd = nextOfd w, mf_open = True, mf_data = Some ?p, mf_size = ?p,
            mf_gen = 0, mf_readOnly = False\<rparr>" "set_file ?i (resize ?p ?D) w1"])
        (use c True in \<open>simp_all add: openMemoryFile_def mf_ok_def mf_mapped_def set_file_def max_def Let_def\<close>)
  next
    case False
    have "resize (length ?D) ?D = ?D" by (simp add: resize_def)
    then show thesis
      by (intro that [of "\<lparr>mf_ino = ?i, mf_ofd = nextOfd w, mf_open = True, mf_data = Some (length ?D),
            mf_size = length ?D, mf_gen = 0, mf_readOnly = False\<rparr>" w1])
        (use c False in \<open>simp_all add: openMemoryFile_def mf_ok_def mf_mapped_def max_def Let_def\<close>)
  qed
qed

section \<open>Opening a store\<close>

text \<open>The directory has no hard links, and fresh inode and descriptor numbers are unused.\<close>

definition os_wf :: "os \<Rightarrow> bool" where
  "os_wf w \<longleftrightarrow>
     (\<forall>p i. dirent w p = Some i \<longrightarrow> i < nextIno w) \<and>
     (\<forall>p q i. dirent w p = Some i \<longrightarrow> dirent w q = Some i \<longrightarrow> p = q) \<and>
     (\<forall>d\<in>set (closedOfds w). d < nextOfd w) \<and>
     (\<forall>i. locks_ok (flocks w i) \<and> (\<forall>x\<in>set (flocks w i). fst x < nextOfd w))"

definition cfg_crypt :: "mmkvConfig \<Rightarrow> block option" where
  "cfg_crypt cfg = (if c_cryptKey cfg = [] then None else Some (newAESCFB (c_cryptKey cfg)))"

text \<open>The two files of a store as \<^verbatim>\<open>open\<close> maps them: at least one page, and room for the meta record.\<close>

definition opened_data :: "os \<Rightarrow> string \<Rightarrow> bytes" where
  "opened_data w dp = resize (max (length (file_at w dp)) (pagesize w)) (file_at w dp)"

definition opened_meta :: "os \<Rightarrow> string \<Rightarrow> bytes" where
  "opened_meta w dp = resize (max (length (file_at w (dp @ crcSuffix))) (pageRoundUp (pagesize w) metaSize))
     (file_at w (dp @ crcSuffix))"

lemma ino_at_inj:
  assumes "os_wf w" "filepath_Abs (cwd w) p \<noteq> filepath_Abs (cwd w) q" "lookup w p \<noteq> None \<or> lookup w q \<noteq> None"
  shows "ino_at w p \<noteq> ino_at w q"
  using assms by (auto simp: ino_at_def lookup_def os_wf_def split: option.splits)

lemma os_wf_open:
  assumes "os_wf w" "dirent w' = (dirent w)(filepath_Abs (cwd w) path \<mapsto> ino_at w path)"
    "nextIno w' = (if lookup w path = None then nextIno w + 1 else nextIno w)" "nextOfd w' = nextOfd w + 1"
    "flocks w' = flocks w" "closedOfds w' = closedOfds w"
  shows "os_wf w'"
proof -
  have d: "dirent w p = Some i \<Longrightarrow> i < nextIno w" "dirent w p = Some i \<Longrightarrow> dirent w q = Some i \<Longrightarrow> p = q" for p q i
    using assms(1) unfolding os_wf_def by blast+
  have "dirent w' p = Some i \<Longrightarrow> i < nextIno w'" for p i
    using assms(2,3) d(1) by (auto simp: ino_at_def lookup_def less_Suc_eq split: option.splits if_splits)
  moreover have "dirent w' p = Some i \<Longrightarrow> dirent w' q = Some i \<Longrightarrow> p = q" for p q i
    using assms(2) d by (auto simp: ino_at_def lookup_def split: option.splits if_splits)
  moreover have "\<forall>d\<in>set (closedOfds w'). d < nextOfd w'"
    "\<forall>i. locks_ok (flocks w' i) \<and> (\<forall>x\<in>set (flocks w' i). fst x < nextOfd w')"
    using assms(1,4-6) by (simp_all add: os_wf_def less_Suc_eq)
  ultimately show ?thesis unfolding os_wf_def by blast
qed

lemma openFiles_ok:
  assumes flt: "faults w = []" and wf: "os_wf w" and dp: "dp = dataPathFor (m_rootDir m) (m_mmapID m)"
    and names: "filepath_Abs (cwd w) (dp @ crcSuffix) \<noteq> filepath_Abs (cwd w) dp" and rw: "\<not> m_readOnly m"
  obtains d mt w' where "openFiles m w = (Inr (d, mt), w')" "mf_ok d w'" "mf_ok mt w'" "mf_ino d \<noteq> mf_ino mt"
    "files w' (mf_ino d) = opened_data w dp" "files w' (mf_ino mt) = opened_meta w dp"
    "lookup w' dp = Some (mf_ino d)" "lookup w' (dp @ crcSuffix) = Some (mf_ino mt)"
    "mf_ofd d = nextOfd w" "mf_ofd mt = nextOfd w + 1" "nextOfd w' = nextOfd w + 2"
    "flocks w' = flocks w" "faults w' = []" "nowUnix w' = nowUnix w" "pagesize w' = pagesize w"
    "closedOfds w' = closedOfds w" "cwd w' = cwd w" "os_wf w'"
    "\<forall>i. i \<noteq> mf_ino d \<longrightarrow> i \<noteq> mf_ino mt \<longrightarrow> files w' i = files w i"
    "\<forall>p. p \<noteq> filepath_Abs (cwd w) dp \<longrightarrow> p \<noteq> filepath_Abs (cwd w) (dp @ crcSuffix) \<longrightarrow> dirent w' p = dirent w p"
proof -
  let ?mp = "dp @ crcSuffix"
  obtain d w1 where o: "openMemoryFile dp 0 w = (Inr d, w1)" "mf_ok d w1"
    "mf_ino d = ino_at w dp" "mf_ofd d = nextOfd w"
    "files w1 = (files w)(ino_at w dp :=
       resize (max (length (file_at w dp)) (pageRoundUp (pagesize w) 0)) (file_at w dp))"
    "dirent w1 = (dirent w)(filepath_Abs (cwd w) dp \<mapsto> ino_at w dp)"
    "nextIno w1 = (if lookup w dp = None then nextIno w + 1 else nextIno w)" "nextOfd w1 = nextOfd w + 1"
    "flocks w1 = flocks w" "faults w1 = []" "nowUnix w1 = nowUnix w" "pagesize w1 = pagesize w"
    "closedOfds w1 = closedOfds w" "cwd w1 = cwd w"
    by (rule openMemoryFile_ok [OF flt])
  obtain mt w2 where q: "openMemoryFile ?mp metaSize w1 = (Inr mt, w2)" "mf_ok mt w2"
    "mf_ino mt = ino_at w1 ?mp" "mf_ofd mt = nextOfd w1"
    "files w2 = (files w1)(ino_at w1 ?mp :=
       resize (max (length (file_at w1 ?mp)) (pageRoundUp (pagesize w1) metaSize)) (file_at w1 ?mp))"
    "dirent w2 = (dirent w1)(filepath_Abs (cwd w1) ?mp \<mapsto> ino_at w1 ?mp)"
    "nextIno w2 = (if lookup w1 ?mp = None then nextIno w1 + 1 else nextIno w1)" "nextOfd w2 = nextOfd w1 + 1"
    "flocks w2 = flocks w1" "faults w2 = []" "nowUnix w2 = nowUnix w1" "pagesize w2 = pagesize w1"
    "closedOfds w2 = closedOfds w1" "cwd w2 = cwd w1"
    by (rule openMemoryFile_ok [OF o(10)])
  have look: "lookup w1 ?mp = lookup w ?mp" using o(6,14) names by (simp add: lookup_def)
  have ne: "ino_at w1 ?mp \<noteq> ino_at w dp"
  proof (cases "lookup w ?mp")
    case None
    have "ino_at w dp < nextIno w1"
      using o(7) wf by (auto simp: ino_at_def lookup_def os_wf_def split: option.splits)
    then show ?thesis using None look by (simp add: ino_at_def)
  next
    case (Some j)
    then have "ino_at w ?mp \<noteq> ino_at w dp" using ino_at_inj [OF wf names] by simp
    then show ?thesis using Some look by (simp add: ino_at_def)
  qed
  have f: "file_at w1 ?mp = file_at w ?mp"
    using ne look o(5) by (auto simp: file_at_def ino_at_def split: option.splits)
  have wf1: "os_wf w1" by (rule os_wf_open [OF wf o(6-9,13)])
  have wf2: "os_wf w2" by (rule os_wf_open [OF wf1 q(6-9,13)])
  have run: "openFiles m w = (Inr (d, mt), w2)"
    using rw flt o(1) q(1) dp by (simp add: openFiles_def Let_def)
  show thesis
    by (rule that [OF run _ q(2)])
      (use o q ne f look names wf2 in \<open>auto simp: mf_ok_def mf_mapped_def opened_data_def opened_meta_def
        lookup_def ino_at_def split: option.splits\<close>)
qed

lemma mmkv_open_ok:
  assumes flt: "faults w = []" and pg: "4 \<le> pagesize w" and wf: "os_wf w" and dp: "dp = dataPathFor root mid"
    and names: "filepath_Abs (cwd w) (dp @ crcSuffix) \<noteq> filepath_Abs (cwd w) dp" and rw: "\<not> c_readOnly cfg"
    and disk: "on_disk (cfg_crypt cfg) (opened_data w dp) (opened_meta w dp) mi ps" and mc: "meta_consistent mi"
  obtains m w' where "mmkv_open (newMMKV root mid key cfg) w = Some (Inr (), m, w')" "store_inv m w' ps"
    "m_info m = mi" "data_file m w' = opened_data w dp" "meta_file m w' = opened_meta w dp"
    "lookup w' dp = Some (mf_ino (m_data m))" "lookup w' (dp @ crcSuffix) = Some (mf_ino (m_meta m))"
    "m_fl m = newFileLock (mf_ino (m_meta m)) (nextOfd w + 1)" "fl_inv (m_fl m) w'" "flocks w' = flocks w"
    "nowUnix w' = nowUnix w" "pagesize w' = pagesize w" "cwd w' = cwd w"
    "m_multiProcess m = c_multiProcess cfg" "m_crypt m = cfg_crypt cfg" "m_key m = key" "m_expiredSeconds m = 0"
    "\<not> m_compareBeforeSet m" "os_wf w'" "closedOfds w' = closedOfds w"
    "\<forall>i. i \<noteq> mf_ino (m_data m) \<longrightarrow> i \<noteq> mf_ino (m_meta m) \<longrightarrow> files w' i = files w i"
    "\<forall>p. p \<noteq> filepath_Abs (cwd w) dp \<longrightarrow> p \<noteq> filepath_Abs (cwd w) (dp @ crcSuffix) \<longrightarrow> dirent w' p = dirent w p"
    "mf_ofd (m_data m) < nextOfd w'" "mf_ofd (m_meta m) < nextOfd w'"
proof -
  let ?m0 = "newMMKV root mid key cfg"
  have pre: "dp = dataPathFor (m_rootDir ?m0) (m_mmapID ?m0)" "\<not> m_readOnly ?m0"
    using dp rw by (simp_all add: newMMKV_def)
  obtain d mt w' where o: "openFiles ?m0 w = (Inr (d, mt), w')" "mf_ok d w'" "mf_ok mt w'" "mf_ino d \<noteq> mf_ino mt"
    "files w' (mf_ino d) = opened_data w dp" "files w' (mf_ino mt) = opened_meta w dp"
    "lookup w' dp = Some (mf_ino d)" "lookup w' (dp @ crcSuffix) = Some (mf_ino mt)"
    "mf_ofd d = nextOfd w" "mf_ofd mt = nextOfd w + 1" "nextOfd w' = nextOfd w + 2"
    "flocks w' = flocks w" "faults w' = []" "nowUnix w' = nowUnix w" "pagesize w' = pagesize w"
    "closedOfds w' = closedOfds w" "cwd w' = cwd w" "os_wf w'"
    "\<forall>i. i \<noteq> mf_ino d \<longrightarrow> i \<noteq> mf_ino mt \<longrightarrow> files w' i = files w i"
    "\<forall>p. p \<noteq> filepath_Abs (cwd w) dp \<longrightarrow> p \<noteq> filepath_Abs (cwd w) (dp @ crcSuffix) \<longrightarrow> dirent w' p = dirent w p"
    by (rule openFiles_ok [OF flt wf pre(1) names pre(2)])
  let ?m1 = "?m0\<lparr>m_data := d, m_meta := mt, m_fl := newFileLock (mf_ino mt) (mf_ofd mt)\<rparr>"
  have l0: "mf_mapped (m_data ?m1) w'" "mf_mapped (m_meta ?m1) w'"
    "on_disk (m_crypt ?m1) (data_file ?m1 w') (meta_file ?m1 w') mi ps"
    using o(2,3,5,6) disk by (simp_all add: mf_ok_def newMMKV_def cfg_crypt_def)
  obtain m dd where l: "loadData ?m1 w' = (Inr (), m)"
    "m = ?m1\<lparr>m_info := mi, m_enableExpire := (mi_version mi \<ge> versionFlag \<and> expireEnabled mi),
            m_dict := dd, m_actualSize := disk_actual mi (data_file ?m1 w'), m_crcDigest := mi_crcDigest mi\<rparr>"
    "loaded m w' ps"
    by (rule loadData_on_disk [OF l0])
  have size: "metaSize \<le> mf_size mt"
    using o(3,6) disk by (auto simp: mf_ok_def mf_mapped_def on_disk_def parseMeta_def split: if_splits)
  have inv: "store_inv m w' ps"
    by (rule loaded_store_inv [OF l(3)])
      (use l(2) o pg size mc rw in \<open>simp_all add: can_write_def newMMKV_def mf_ok_def\<close>)
  have run: "mmkv_open ?m0 w = Some (Inr (), m, w')"
    using o(1) l(1,2) by (simp add: mmkv_open_def newMMKV_def)
  have fresh: "map_of (flocks w i) (nextOfd w + 1) = None" for i
    using wf by (fastforce simp: os_wf_def map_of_eq_None_iff)
  have "nextOfd w + 1 \<notin> set (closedOfds w)" using wf by (fastforce simp: os_wf_def)
  then have fl: "fl_inv (newFileLock (mf_ino mt) (nextOfd w + 1)) w'"
    using fresh wf o(12,16) by (simp add: fl_inv_def held_def newFileLock_def lock_mode_def os_wf_def)
  show thesis
    by (rule that [OF run inv]) (use l(2) o fl in \<open>simp_all add: newMMKV_def cfg_crypt_def\<close>)
qed

lemma zero_info_consistent: "meta_consistent zero_info"
  by (simp add: meta_consistent_def expireEnabled_def zero_info_def)

lemma opened_fresh:
  assumes "lookup w dp = None" "lookup w (dp @ crcSuffix) = None" "4 \<le> pagesize w"
  shows "opened_data w dp = replicate (pagesize w) 0" "opened_meta w dp = replicate (pageRoundUp (pagesize w) metaSize) 0"
    "on_disk crypt (opened_data w dp) (opened_meta w dp) zero_info []"
proof -
  show dm: "opened_data w dp = replicate (pagesize w) 0" "opened_meta w dp = replicate (pageRoundUp (pagesize w) metaSize) 0"
    using assms(1,2) by (simp_all add: opened_data_def opened_meta_def file_at_def resize_def)
  show "on_disk crypt (opened_data w dp) (opened_meta w dp) zero_info []"
    unfolding dm by (rule on_disk_zeros) (use assms(3) pageRoundUp_ge [of "pagesize w" metaSize] in linarith)+
qed

section \<open>A store on an empty disk\<close>

definition ex_disk :: os where
  "ex_disk = \<lparr>files = (\<lambda>_. []), dirent = Map.empty, nextIno = 1, nextOfd = 1, flocks = (\<lambda>_. []), faults = [],
     nowUnix = 1000, ivs = [], notified = 0, pagesize = 4096, closedOfds = [], cwd = ''/''\<rparr>"

definition ex_open :: "mmkvConfig \<Rightarrow> mmkv \<times> os" where
  "ex_open cfg = snd (the (mmkv_open (newMMKV ''/tmp'' ''kv'' ''/tmp/kv'' cfg) ex_disk))"

lemma ex_path: "dataPathFor ''/tmp'' ''kv'' = ''/tmp/kv''"
  by (simp add: dataPathFor_def encodeFilePath_def strings_ContainsAny_def specialChars_def
      filepath_Join_def filepath_Clean_def is_abs_def)

lemma ex_names: "filepath_Abs ''/'' (''/tmp/kv'' @ crcSuffix) \<noteq> filepath_Abs ''/'' ''/tmp/kv''"
  by (simp add: filepath_Abs_def crcSuffix_def filepath_Clean_def is_abs_def)

lemma ex_disk_wf: "os_wf ex_disk"
  by (simp add: os_wf_def ex_disk_def locks_ok_def)

lemma ex_disk_blank:
  "opened_data ex_disk ''/tmp/kv'' = replicate 4096 0" "opened_meta ex_disk ''/tmp/kv'' = replicate 4096 0"
  "on_disk crypt (opened_data ex_disk ''/tmp/kv'') (opened_meta ex_disk ''/tmp/kv'') zero_info []"
  using opened_fresh [of ex_disk "''/tmp/kv''"]
  by (simp_all add: ex_disk_def lookup_def pageRoundUp_def metaSize_def)

lemma ex_open_ok:
  assumes "\<not> c_readOnly cfg"
  shows "store_inv (fst (ex_open cfg)) (snd (ex_open cfg)) []" "holds (fst (ex_open cfg)) (snd (ex_open cfg)) Map.empty"
    "env_of (fst (ex_open cfg)) (snd (ex_open cfg)) =
       \<lparr>e_crypt = cfg_crypt cfg, e_expire = False, e_seconds = 0, e_now = 1000, e_size = 4096\<rparr>"
    "mmkv_open (newMMKV ''/tmp'' ''kv'' ''/tmp/kv'' cfg) ex_disk = Some (Inr (), fst (ex_open cfg), snd (ex_open cfg))"
    "os_wf (snd (ex_open cfg))" "m_multiProcess (fst (ex_open cfg)) = c_multiProcess cfg"
    "lookup (snd (ex_open cfg)) ''/tmp/kv'' = Some (mf_ino (m_data (fst (ex_open cfg))))"
    "lookup (snd (ex_open cfg)) (''/tmp/kv'' @ crcSuffix) = Some (mf_ino (m_meta (fst (ex_open cfg))))"
    "flocks (snd (ex_open cfg)) i = []" "closedOfds (snd (ex_open cfg)) = []" "pagesize (snd (ex_open cfg)) = 4096"
    "fl_ino (m_fl (fst (ex_open cfg))) = mf_ino (m_meta (fst (ex_open cfg)))" "cwd (snd (ex_open cfg)) = ''/''"
    "p \<noteq> ''/tmp/kv'' \<Longrightarrow> p \<noteq> ''/tmp/kv.crc'' \<Longrightarrow> dirent (snd (ex_open cfg)) p = None"
    "mf_ofd (m_data (fst (ex_open cfg))) < nextOfd (snd (ex_open cfg))" "mf_ofd (m_meta (fst (ex_open cfg))) < nextOfd (snd (ex_open cfg))"
proof -
  have nm: "filepath_Abs (cwd ex_disk) (''/tmp/kv'' @ crcSuffix) \<noteq> filepath_Abs (cwd ex_disk) ''/tmp/kv''"
    using ex_names by (simp add: ex_disk_def)
  have h: "faults ex_disk = []" "4 \<le> pagesize ex_disk" by (simp_all add: ex_disk_def)
  obtain m w' where o: "mmkv_open (newMMKV ''/tmp'' ''kv'' ''/tmp/kv'' cfg) ex_disk = Some (Inr (), m, w')"
    "store_inv m w' []" "m_info m = zero_info" "data_file m w' = opened_data ex_disk ''/tmp/kv''"
    "meta_file m w' = opened_meta ex_disk ''/tmp/kv''"
    "lookup w' ''/tmp/kv'' = Some (mf_ino (m_data m))" "lookup w' (''/tmp/kv'' @ crcSuffix) = Some (mf_ino (m_meta m))"
    "m_fl m = newFileLock (mf_ino (m_meta m)) (nextOfd ex_disk + 1)" "fl_inv (m_fl m) w'" "flocks w' = flocks ex_disk"
    "nowUnix w' = nowUnix ex_disk" "pagesize w' = pagesize ex_disk" "cwd w' = cwd ex_disk"
    "m_multiProcess m = c_multiProcess cfg" "m_crypt m = cfg_crypt cfg" "m_key m = ''/tmp/kv''" "m_expiredSeconds m = 0"
    "\<not> m_compareBeforeSet m" "os_wf w'" "closedOfds w' = closedOfds ex_disk"
    "\<forall>i. i \<noteq> mf_ino (m_data m) \<longrightarrow> i \<noteq> mf_ino (m_meta m) \<longrightarrow> files w' i = files ex_disk i"
    "\<forall>p. p \<noteq> filepath_Abs (cwd ex_disk) ''/tmp/kv'' \<longrightarrow> p \<noteq> filepath_Abs (cwd ex_disk) (''/tmp/kv'' @ crcSuffix) \<longrightarrow>
       dirent w' p = dirent ex_disk p"
    "mf_ofd (m_data m) < nextOfd w'" "mf_ofd (m_meta m) < nextOfd w'"
    by (rule mmkv_open_ok [OF h ex_disk_wf ex_path [symmetric] nm assms ex_disk_blank(3) zero_info_consistent])
  have ex: "ex_open cfg = (m, w')" using o(1) by (simp add: ex_open_def)
  show "store_inv (fst (ex_open cfg)) (snd (ex_open cfg)) []" using ex o(2) by simp
  show "mf_ofd (m_data (fst (ex_open cfg))) < nextOfd (snd (ex_open cfg))" "mf_ofd (m_meta (fst (ex_open cfg))) < nextOfd (snd (ex_open cfg))"
    using ex o(23,24) by simp_all
  show "mmkv_open (newMMKV ''/tmp'' ''kv'' ''/tmp/kv'' cfg) ex_disk = Some (Inr (), fst (ex_open cfg), snd (ex_open cfg))"
    using ex o(1) by simp
  show "os_wf (snd (ex_open cfg))" "m_multiProcess (fst (ex_open cfg)) = c_multiProcess cfg"
    "lookup (snd (ex_open cfg)) ''/tmp/kv'' = Some (mf_ino (m_data (fst (ex_open cfg))))"
    "lookup (snd (ex_open cfg)) (''/tmp/kv'' @ crcSuffix) = Some (mf_ino (m_meta (fst (ex_open cfg))))"
    using ex o(6,7,14,19) by simp_all
  show "flocks (snd (ex_open cfg)) i = []" "closedOfds (snd (ex_open cfg)) = []" "pagesize (snd (ex_open cfg)) = 4096"
    "fl_ino (m_fl (fst (ex_open cfg))) = mf_ino (m_meta (fst (ex_open cfg)))" "cwd (snd (ex_open cfg)) = ''/''"
    using ex o(8,10,12,13,20) by (simp_all add: ex_disk_def newFileLock_def)
  show "dirent (snd (ex_open cfg)) p = None" if "p \<noteq> ''/tmp/kv''" "p \<noteq> ''/tmp/kv.crc''"
    using that ex o(22) by (simp add: ex_disk_def filepath_Abs_def filepath_Clean_def is_abs_def crcSuffix_def)
  have "idle m w'" using o(9,10) by (simp add: idle_def ex_disk_def others_def)
  then show "holds (fst (ex_open cfg)) (snd (ex_open cfg)) Map.empty"
    using store_inv_holds [OF o(2)] ex by simp
  show "env_of (fst (ex_open cfg)) (snd (ex_open cfg)) =
       \<lparr>e_crypt = cfg_crypt cfg, e_expire = False, e_seconds = 0, e_now = 1000, e_size = 4096\<rparr>"
    using o(4,5) [unfolded ex_disk_blank(1,2)] o(11,15,17) ex parseMeta_zeros [of 4096]
    by (simp add: ex_disk_def env_of_def disk_expire_def metaSize_def zero_info_def meta_versions)
qed

end
