(* ===== verification/StoreProps.thy ===== *)
theory StoreProps
  imports Open
begin

text \<open>
  What a client of one instance may rely on: the operations act on the held map as specified, typed
  values read back, listings and counts follow the visible map, and a store that is opened again holds
  the same map.
\<close>

section \<open>Commands\<close>

datatype cmd = CSet bytes bytes | CRemove bytes | CRemoveKeys "bytes list" | CClear | CTrim
  | CReKey bytes | CEnableExpire u32 | CDisableExpire

fun exec :: "cmd \<Rightarrow> unit op" where
  "exec (CSet k blob) = setValue k blob"
| "exec (CRemove k) = RemoveValueForKey k"
| "exec (CRemoveKeys ks) = RemoveValuesForKeys ks"
| "exec CClear = ClearAll"
| "exec CTrim = Trim"
| "exec (CReKey key) = ReKey key"
| "exec (CEnableExpire s) = EnableAutoKeyExpire s"
| "exec CDisableExpire = DisableAutoKeyExpire"

text \<open>
  The specification: the map and the configuration after a command.  The preconditions are the size
  limits of the format; deleting a single key also needs a plaintext store.
\<close>

fun cmd_spec :: "cmd \<Rightarrow> env \<Rightarrow> (bytes \<rightharpoonup> bytes) \<Rightarrow> (bytes \<rightharpoonup> bytes)" where
  "cmd_spec (CSet k blob) e c = c(k \<mapsto> stored e blob)"
| "cmd_spec (CRemove k) e c = c(k := None)"
| "cmd_spec (CRemoveKeys ks) e c = c |` (- set ks)"
| "cmd_spec CClear e c = Map.empty"
| "cmd_spec CTrim e c = c"
| "cmd_spec (CReKey key) e c = c"
| "cmd_spec (CEnableExpire s) e c = expire_on (e_expire e) c"
| "cmd_spec CDisableExpire e c = expire_off e c"

fun cmd_conf :: "cmd \<Rightarrow> env \<Rightarrow> env" where
  "cmd_conf (CReKey key) e = e\<lparr>e_crypt := if key = [] then None else Some (newAESCFB key)\<rparr>"
| "cmd_conf (CEnableExpire s) e = e\<lparr>e_expire := True, e_seconds := s\<rparr>"
| "cmd_conf CDisableExpire e = (if e_expire e then e\<lparr>e_expire := False, e_seconds := 0\<rparr> else e)"
| "cmd_conf _ e = e"

fun cmd_pre :: "cmd \<Rightarrow> env \<Rightarrow> (bytes \<rightharpoonup> bytes) \<Rightarrow> bool" where
  "cmd_pre (CSet k blob) e c \<longleftrightarrow> set_pre k blob e c"
| "cmd_pre (CRemove k) e c \<longleftrightarrow> e_crypt e = None \<and> small e (c(k := None))"
| "cmd_pre CClear e c \<longleftrightarrow> True"
| "cmd_pre (CEnableExpire s) e c \<longleftrightarrow> content_ok (expire_on (e_expire e) c) \<and> small e (expire_on (e_expire e) c)"
| "cmd_pre CDisableExpire e c \<longleftrightarrow> content_ok (expire_off e c) \<and> small e (expire_off e c)"
| "cmd_pre cm e c \<longleftrightarrow> small e (cmd_spec cm e c)"

lemma exec_write_op:
  assumes "attached m w mi ps" "can_write m w" "meta_consistent mi" "can_lock ExclusiveLock m w"
    and "cmd_pre cm (env_of m w) (log_map ps)"
  shows "\<exists>m' w' ps'. exec cm m w = Some (Inr (), m', w') \<and> store_inv m' w' ps' \<and>
    log_map ps' = cmd_spec cm (env_of m w) (log_map ps) \<and> same_env (cmd_conf cm (env_of m w)) (env_of m' w') \<and>
    keeps m m' \<and> op_frame m w w' \<and> disk_step m w mi w' (m_info m') \<and>
    e_size (env_of m' w') \<le> max (e_size (env_of m w)) (size_limit (pagesize w) (cmd_spec cm (env_of m w) (log_map ps)))"
proof (cases cm)
  case (CSet k b)
  then show ?thesis using set_op.write_op [OF assms(1-4)] assms(5) by (simp add: setValue_def)
next
  case (CRemove k)
  then show ?thesis using remove_op.write_op [OF assms(1-4)] assms(5) by (simp add: RemoveValueForKey_def)
next
  case (CRemoveKeys ks)
  then show ?thesis using remove_keys_op.write_op [OF assms(1-4)] assms(5) by (simp add: RemoveValuesForKeys_def)
next
  case CClear
  then show ?thesis using clear_op.write_op [OF assms(1-4)] by (simp add: ClearAll_def)
next
  case CTrim
  then show ?thesis using trim_op.write_op [OF assms(1-4)] assms(5) by (simp add: Trim_def)
next
  case (CReKey key)
  then show ?thesis using rekey_op.write_op [OF assms(1-4)] assms(5) by (simp add: ReKey_def)
next
  case (CEnableExpire s)
  then show ?thesis using enable_op.write_op [OF assms(1-4)] assms(5) by (simp add: EnableAutoKeyExpire_def)
next
  case CDisableExpire
  then show ?thesis using disable_op.write_op [OF assms(1-4)] assms(5) by (simp add: DisableAutoKeyExpire_def)
qed

lemma exec_holds:
  assumes "holds m w c" "cmd_pre cm (env_of m w) c"
  shows "\<exists>m' w'. exec cm m w = Some (Inr (), m', w') \<and> holds m' w' (cmd_spec cm (env_of m w) c) \<and>
    same_env (cmd_conf cm (env_of m w)) (env_of m' w') \<and> keeps m m' \<and> op_frame m w w' \<and>
    e_size (env_of m' w') \<le> max (e_size (env_of m w)) (size_limit (pagesize w) (cmd_spec cm (env_of m w) c))"
proof -
  obtain mi ps where s: "attached m w mi ps" "can_write m w" "meta_consistent mi" "log_map ps = c" "idle m w"
    using assms(1) by (auto simp: holds_def session_def)
  have "can_lock ExclusiveLock m w" using s(1,5) by (intro idle_can_lock) (auto simp: attached_def)
  then obtain m' w' ps' where r: "exec cm m w = Some (Inr (), m', w')" "store_inv m' w' ps'"
    "log_map ps' = cmd_spec cm (env_of m w) c" "same_env (cmd_conf cm (env_of m w)) (env_of m' w')" "keeps m m'"
    "op_frame m w w'"
    "e_size (env_of m' w') \<le> max (e_size (env_of m w)) (size_limit (pagesize w) (cmd_spec cm (env_of m w) c))"
    using exec_write_op [OF s(1-3)] assms(2) s(4) by blast
  then show ?thesis using store_inv_holds [OF r(2) idle_frame [OF s(5) r(6,5)]] by auto
qed

section \<open>Small stores for the examples\<close>

lemma packed_size_empty: "packed_size Map.empty = length itemSizeHolderBytes"
  by (simp add: packed_size_def packed_log_def log_region_def)

lemma packed_size_single:
  "packed_size [k \<mapsto> v] = length itemSizeHolderBytes + length (encode_pair (k, v))"
  by (simp add: packed_size_def packed_log_def log_region_def)

abbreviation ex_m :: mmkv where "ex_m \<equiv> fst (ex_open emptyConfig)"

abbreviation ex_w :: os where "ex_w \<equiv> snd (ex_open emptyConfig)"

lemma ex_cfg: "\<not> c_readOnly emptyConfig" "cfg_crypt emptyConfig = None"
  by (simp_all add: emptyConfig_def cfg_crypt_def)

lemmas ex_kv = ex_open_ok [OF ex_cfg(1), unfolded ex_cfg(2)]

lemma ex_set_pre:
  assumes "pair_ok (k, v)" "v \<noteq> []" "length (encode_pair (k, v)) < 1000"
  shows "set_pre k v (env_of ex_m ex_w) Map.empty"
  using assms
  by (simp add: set_pre_def ex_kv(3) stored_def stored_value_def entry_ok_def small_def packed_size_single)

text \<open>The same store after the byte string \<open>[7]\<close> was set under the key \<open>k\<close>.\<close>

definition ex_put :: "mmkv \<times> os" where
  "ex_put = snd (the (setValue [107] [1, 7] ex_m ex_w))"

abbreviation ex_m1 :: mmkv where "ex_m1 \<equiv> fst ex_put"

abbreviation ex_w1 :: os where "ex_w1 \<equiv> snd ex_put"

lemma ex_kv1:
  "holds ex_m1 ex_w1 [[107] \<mapsto> [1, 7]]" "same_env (env_of ex_m ex_w) (env_of ex_m1 ex_w1)"
  "keeps ex_m ex_m1" "op_frame ex_m ex_w ex_w1"
  "setValue [107] [1, 7] ex_m ex_w = Some (Inr (), ex_m1, ex_w1)"
proof -
  have e: "encode_pair ([107], [1, 7]) = [1, 107, 2, 1, 7]" by code_simp
  have p: "pair_ok ([107], [1, 7])" "length (encode_pair ([107], [1, 7])) < 1000"
    by (simp_all add: pair_ok_def e)
  have "cmd_pre (CSet [107] [1, 7]) (env_of ex_m ex_w) Map.empty" using ex_set_pre [OF p(1) _ p(2)] by simp
  then obtain m' w' where r: "setValue [107] [1, 7] ex_m ex_w = Some (Inr (), m', w')"
    "holds m' w' [[107] \<mapsto> [1, 7]]" "same_env (env_of ex_m ex_w) (env_of m' w')" "keeps ex_m m'" "op_frame ex_m ex_w w'"
    using exec_holds [OF ex_kv(2), of "CSet [107] [1, 7]"] by (auto simp: stored_def stored_value_def ex_kv(3))
  then have eq: "ex_m1 = m'" "ex_w1 = w'" by (simp_all add: ex_put_def)
  show "holds ex_m1 ex_w1 [[107] \<mapsto> [1, 7]]" "same_env (env_of ex_m ex_w) (env_of ex_m1 ex_w1)"
    "keeps ex_m ex_m1" "op_frame ex_m ex_w ex_w1"
    "setValue [107] [1, 7] ex_m ex_w = Some (Inr (), ex_m1, ex_w1)" unfolding eq using r by simp_all
qed

lemma ex_kv1_visible: "visible_of (env_of ex_m1 ex_w1) c = c"
  using same_env_visible [OF ex_kv1(2)] by (simp add: ex_kv(3) visible_of_def live_value_off)

lemma ex_kv1_plain: "m_crypt ex_m1 = None"
  using ex_kv1(2) [unfolded ex_kv(3)] by (simp add: same_env_def env_of_def)

lemma op_frame_wf:
  assumes "os_wf w" "op_frame m w w'" "\<not> m_multiProcess m"
  shows "os_wf w'"
  using assms by (simp add: os_wf_def op_frame_def)

lemma ex_kv1_files:
  "lookup ex_w1 ''/tmp/kv'' = Some (mf_ino (m_data ex_m1))"
  "lookup ex_w1 (''/tmp/kv'' @ crcSuffix) = Some (mf_ino (m_meta ex_m1))"
  "os_wf ex_w1" "flocks ex_w1 i = []"
proof -
  have single: "\<not> m_multiProcess ex_m" by (subst ex_kv(6)) (simp add: emptyConfig_def)
  show "lookup ex_w1 ''/tmp/kv'' = Some (mf_ino (m_data ex_m1))"
    "lookup ex_w1 (''/tmp/kv'' @ crcSuffix) = Some (mf_ino (m_meta ex_m1))"
    using ex_kv(7,8) ex_kv1(3,4) by (simp_all add: lookup_def op_frame_def keeps_def)
  show "os_wf ex_w1" by (rule op_frame_wf [OF ex_kv(5) ex_kv1(4) single])
  show "flocks ex_w1 i = []" using ex_kv1(4) single ex_kv(9) by (simp add: op_frame_def)
qed

section \<open>Opening a store again\<close>

lemma reopen_ok:
  assumes h: "holds m w c" and wf: "os_wf w" and dp: "dp = dataPathFor root mid"
    and d: "lookup w dp = Some (mf_ino (m_data m))" and mt: "lookup w (dp @ crcSuffix) = Some (mf_ino (m_meta m))"
    and cfg: "\<not> c_readOnly cfg" "cfg_crypt cfg = m_crypt m"
  shows "\<exists>m' w' ps. mmkv_open (newMMKV root mid key cfg) w = Some (Inr (), m', w') \<and> store_inv m' w' ps \<and>
    content m' w' = c"
proof -
  obtain mi ps where s: "attached m w mi ps" "can_write m w" "meta_consistent mi" "log_map ps = c"
    using h by (auto simp: holds_def session_def)
  have w: "faults w = []" "4 \<le> pagesize w" "mf_ino (m_data m) \<noteq> mf_ino (m_meta m)"
    using s(1,2) by (auto simp: attached_def can_write_def)
  have names: "filepath_Abs (cwd w) (dp @ crcSuffix) \<noteq> filepath_Abs (cwd w) dp"
    using d mt w(3) by (auto simp: lookup_def)
  have "on_disk (m_crypt m) (data_file m w) (meta_file m w) mi ps" using s(1) by (simp add: attached_def)
  then have disk: "on_disk (cfg_crypt cfg) (opened_data w dp) (opened_meta w dp) mi ps"
    using d mt cfg(2) by (simp add: opened_data_def opened_meta_def file_at_def on_disk_resize)
  obtain m' w' where o: "mmkv_open (newMMKV root mid key cfg) w = Some (Inr (), m', w')" "store_inv m' w' ps"
    by (rule mmkv_open_ok [OF w(1,2) wf dp names cfg(1) disk s(3)])
  then show ?thesis using store_inv_facts(4) [OF o(2)] s(4) by auto
qed

section \<open>Properties\<close>

text \<open>
  Under the store invariant every write operation succeeds and does to the held map what the
  specification of the command says; it changes the configuration only as specified, touches no file
  but its own two, and leaves the store ready for the next operation.  \<open>History\<close> lifts this to sequences.
\<close>

theorem ops_refine_map:
  assumes "holds m w c" "cmd_pre cm (env_of m w) c"
  shows "\<exists>m' w'. exec cm m w = Some (Inr (), m', w') \<and> holds m' w' (cmd_spec cm (env_of m w) c) \<and>
    same_env (cmd_conf cm (env_of m w)) (env_of m' w') \<and> op_frame m w w'"
  using exec_holds [OF assms] by blast



text \<open>
  C20: membership, count, key listing, value size and copying a value into a buffer follow the visible
  map (the held map without expired values and without stamps); keys come sorted and without repetition,
  a value that does not fit its buffer is not copied, and reading changes no file.
\<close>

theorem reads_follow_visible_map:
  assumes "holds m w c"
  shows "(\<exists>m' w'. Contains k m w = Some (Inr (k \<in> dom (visible_of (env_of m w) c)), m', w') \<and>
       holds m' w' c \<and> files w' = files w) \<and>
    (\<exists>m' w'. Count m w = Some (Inr (card (dom (visible_of (env_of m w) c))), m', w') \<and>
       holds m' w' c \<and> files w' = files w) \<and>
    (\<exists>m' w'. AllKeys m w = Some (Inr (sorted_list_of_set (dom (visible_of (env_of m w) c))), m', w') \<and>
       holds m' w' c \<and> files w' = files w) \<and>
    (\<exists>m' w'. GetValueSize k m w = Some (Inr (map_option length (visible_of (env_of m w) c k)), m', w') \<and>
       holds m' w' c \<and> files w' = files w) \<and>
    (\<exists>m' w'. WriteValueToBuffer k buf m w = Some (Inr (into_buffer buf (visible_of (env_of m w) c k)), m', w') \<and>
       holds m' w' c \<and> files w' = files w)"
  unfolding Contains_def Count_def AllKeys_def GetValueSize_def WriteValueToBuffer_def
  using contains_get.holds_read [OF assms, where x = False and k = k] count_get.holds_read [OF assms, where x = 0]
    keys_get.holds_read [OF assms, where x = "[]"] size_get.holds_read [OF assms, where x = None and k = k]
    buffer_get.holds_read [OF assms, where x = None and k = k and buf = buf] by blast

theorem reads_follow_visible_map_witness:
  "holds ex_m1 ex_w1 [[107] \<mapsto> [1, 7]] \<and> (\<exists>m' w'. Count ex_m1 ex_w1 = Some (Inr 1, m', w')) \<and>
   (\<exists>m' w'. AllKeys ex_m1 ex_w1 = Some (Inr [[107]], m', w')) \<and>
   (\<exists>m' w'. GetValueSize [107] ex_m1 ex_w1 = Some (Inr (Some 2), m', w')) \<and>
   (\<exists>m' w'. WriteValueToBuffer [107] [0, 0, 9] ex_m1 ex_w1 = Some (Inr (Some (2, [1, 7, 9])), m', w'))"
proof -
  have v: "visible_of (env_of ex_m1 ex_w1) [[107] \<mapsto> [1, 7]] = [[107] \<mapsto> [1, 7]]" by (rule ex_kv1_visible)
  show ?thesis
    using ex_kv1(1) reads_follow_visible_map [OF ex_kv1(1), of "[107]" "[0, 0, 9]"] unfolding v by (auto simp: into_buffer_def)
qed

text \<open>
  C25: the zero-copy getter returns a window of the live mapping (or heap memory) that still denotes
  the stored bytes after the lock is released.
\<close>

theorem GetBytes_returns_live_view:
  assumes "holds m w c" "visible_of (env_of m w) c k = Some blob" "decode_with readBytes blob = Some b"
  shows "\<exists>s m' w'. GetBytes k m w = Some (Inr (Some s), m', w') \<and> deref (m_data m') w' s = Inr b \<and>
    slice_len s = length b \<and> holds m' w' c"
proof -
  obtain mi ps where s: "attached m w mi ps" "can_write m w" "meta_consistent mi" "log_map ps = c" "idle m w"
    using assms(1) by (auto simp: holds_def session_def)
  have lk: "can_lock SharedLock m w" using s(1,5) by (intro idle_can_lock) (auto simp: attached_def)
  obtain m1 w1 w' where r: "readOp None (bytesValue k) m w = Some (bytesValue k m1 w1, m1\<lparr>m_fl := m_fl m\<rparr>, w')"
    "loaded m1 w1 ps" "env_of m1 w1 = env_of m w" "m_info m1 = mi" "\<not> m_needLoad m1" "files w1 = files w"
    "files w' = files w" "same_instance m (m1\<lparr>m_fl := m_fl m\<rparr>)" "op_frame m w w'"
    by (rule read_run [OF s(1) lk])
  have "Option.bind (visible m1 w1 k) (decode_with readBytes) = Some b"
    using assms(2,3) visible_loaded [OF r(2)] r(3) s(4) by simp
  then obtain sl where sl: "bytesValue k m1 w1 = Inr (Some sl)" "deref (m_data m1) w1 sl = Inr b" "slice_len sl = length b"
    using bytesValue_ok [OF loaded_readable [OF r(2)], of k] by auto
  have "deref (m_data (m1\<lparr>m_fl := m_fl m\<rparr>)) w' sl = Inr b" using sl(2) deref_cong [of w' w1] r(6,7) by simp
  moreover have "holds (m1\<lparr>m_fl := m_fl m\<rparr>) w' c"
    using read_holds [OF s(1-3,5) r(2,4-9)] s(4) by simp
  ultimately show ?thesis unfolding GetBytes_def using r(1) sl(1,3) by auto
qed

theorem GetBytes_returns_live_view_witness:
  "holds ex_m1 ex_w1 [[107] \<mapsto> [1, 7]] \<and> decode_with readBytes [1, 7] = Some [7] \<and>
   (\<exists>s m' w'. GetBytes [107] ex_m1 ex_w1 = Some (Inr (Some s), m', w') \<and> deref (m_data m') w' s = Inr [7])"
proof -
  have v: "visible_of (env_of ex_m1 ex_w1) [[107] \<mapsto> [1, 7]] [107] = Some [1, 7]" by (simp add: ex_kv1_visible)
  have d: "decode_with readBytes [1, 7] = Some [7]" by code_simp
  show ?thesis using ex_kv1(1) d GetBytes_returns_live_view [OF ex_kv1(1) v d] by blast
qed

text \<open>
  C5: what was written is there after the store is opened again: an instance opened on the same files
  for writing with the same key, under whatever other options, holds exactly the map the last instance
  held.
\<close>

theorem reopen_restores_content:
  assumes "holds m w c" and "os_wf w" and "dp = dataPathFor root mid"
    and "lookup w dp = Some (mf_ino (m_data m))" and "lookup w (dp @ crcSuffix) = Some (mf_ino (m_meta m))"
    and "\<not> c_readOnly cfg" "cfg_crypt cfg = m_crypt m"
  shows "\<exists>m' w' ps. mmkv_open (newMMKV root mid key cfg) w = Some (Inr (), m', w') \<and> store_inv m' w' ps \<and>
    content m' w' = c"
  using assms by (rule reopen_ok)

theorem reopen_restores_content_witness:
  "holds ex_m1 ex_w1 [[107] \<mapsto> [1, 7]] \<and>
   (\<exists>m' w'. mmkv_open (newMMKV ''/tmp'' ''kv'' ''/tmp/kv'' (WithMultiProcess emptyConfig)) ex_w1 = Some (Inr (), m', w') \<and>
      content m' w' = [[107] \<mapsto> [1, 7]])"
proof -
  note l = ex_kv1_files(1,2) and wf = ex_kv1_files(3)
  have c: "\<not> c_readOnly (WithMultiProcess emptyConfig)" "cfg_crypt (WithMultiProcess emptyConfig) = m_crypt ex_m1"
    by (simp_all add: WithMultiProcess_def emptyConfig_def cfg_crypt_def ex_kv1_plain)
  show ?thesis
    using ex_kv1(1) reopen_restores_content [OF ex_kv1(1) wf ex_path [symmetric] l c] by blast
qed

text \<open>
  C32: opening a name with no files creates a store that holds the empty map, for every choice of
  options (single- or multi-process, plain or encrypted, with or without recovery).
\<close>

theorem open_new_store_is_empty:
  assumes "faults w = []" "4 \<le> pagesize w" "os_wf w" "dp = dataPathFor root mid"
    and "filepath_Abs (cwd w) (dp @ crcSuffix) \<noteq> filepath_Abs (cwd w) dp"
    and "lookup w dp = None" "lookup w (dp @ crcSuffix) = None" "\<not> c_readOnly cfg"
  shows "\<exists>m' w'. mmkv_open (newMMKV root mid key cfg) w = Some (Inr (), m', w') \<and> store_inv m' w' [] \<and>
    content m' w' = Map.empty \<and> m_crypt m' = cfg_crypt cfg \<and> m_multiProcess m' = c_multiProcess cfg"
proof -
  obtain m' w' where o: "mmkv_open (newMMKV root mid key cfg) w = Some (Inr (), m', w')" "store_inv m' w' []"
    "m_info m' = zero_info" "data_file m' w' = opened_data w dp" "meta_file m' w' = opened_meta w dp"
    "lookup w' dp = Some (mf_ino (m_data m'))" "lookup w' (dp @ crcSuffix) = Some (mf_ino (m_meta m'))"
    "m_fl m' = newFileLock (mf_ino (m_meta m')) (nextOfd w + 1)" "fl_inv (m_fl m') w'" "flocks w' = flocks w"
    "nowUnix w' = nowUnix w" "pagesize w' = pagesize w" "cwd w' = cwd w"
    "m_multiProcess m' = c_multiProcess cfg" "m_crypt m' = cfg_crypt cfg"
    by (rule mmkv_open_ok [OF assms(1-5,8) opened_fresh(3) [OF assms(6,7,2)] zero_info_consistent])
  then show ?thesis using store_inv_facts(4) [OF o(2)] by auto
qed

theorem open_new_store_is_empty_witness:
  "os_wf ex_disk \<and> lookup ex_disk ''/tmp/kv'' = None \<and>
   (\<exists>m' w'. mmkv_open (newMMKV ''/tmp'' ''kv'' ''/tmp/kv'' (WithCryptKey [1, 2] emptyConfig)) ex_disk = Some (Inr (), m', w') \<and>
      content m' w' = Map.empty)"
proof -
  have h: "faults ex_disk = []" "4 \<le> pagesize ex_disk"
    "filepath_Abs (cwd ex_disk) (''/tmp/kv'' @ crcSuffix) \<noteq> filepath_Abs (cwd ex_disk) ''/tmp/kv''"
    "lookup ex_disk ''/tmp/kv'' = None" "lookup ex_disk (''/tmp/kv'' @ crcSuffix) = None"
    "\<not> c_readOnly (WithCryptKey [1, 2] emptyConfig)"
    using ex_names by (simp_all add: ex_disk_def lookup_def WithCryptKey_def emptyConfig_def)
  show ?thesis
    using ex_disk_wf h open_new_store_is_empty [OF h(1,2) ex_disk_wf ex_path [symmetric] h(3-6)] by blast
qed

text \<open>
  Dropping the in-memory cache loses nothing: the instance still holds the same map, which the
  next operation loads again.
\<close>

lemma ClearMemoryCache_keeps_content:
  assumes "holds m w c"
  shows "holds (ClearMemoryCache m) w c \<and> m_dict (ClearMemoryCache m) = []"
proof -
  obtain mi ps where s: "attached m w mi ps" "can_write m w" "meta_consistent mi" "log_map ps = c" "idle m w"
    using assms by (auto simp: holds_def session_def)
  then have "attached (ClearMemoryCache m) w mi ps" "can_write (ClearMemoryCache m) w" "idle (ClearMemoryCache m) w"
    by (simp_all add: attached_def can_write_def idle_def ClearMemoryCache_def)
  moreover have "m_dict (ClearMemoryCache m) = []" using s(1) by (simp add: ClearMemoryCache_def attached_def)
  ultimately show ?thesis using s(3,4) by (auto simp: holds_def session_def)
qed

end
