(* ===== verification/Guards.thy ===== *)
theory Guards
  imports StoreProps
begin

text \<open>
  What holds without any assumption on the outcome of the system calls, on the files or on the lock:
  closed and read-only instances refuse to write, and reading writes nothing.
\<close>

section \<open>Calls that leave the disk alone\<close>

definition disk_same :: "os \<Rightarrow> os \<Rightarrow> bool" where
  "disk_same w w' \<longleftrightarrow> files w' = files w \<and> dirent w' = dirent w \<and> nextIno w' = nextIno w"

lemma disk_same_refl [simp]: "disk_same w w"
  by (simp add: disk_same_def)

lemma disk_same_trans: "disk_same w w1 \<Longrightarrow> disk_same w1 w2 \<Longrightarrow> disk_same w w2"
  by (simp add: disk_same_def)

lemma syscall_disk: "disk_same w (snd (syscall w))"
  by (simp add: disk_same_def syscall_def split: list.split)

lemma set_locks_disk [simp]: "disk_same w (set_locks i t w') = disk_same w w'"
  by (simp add: disk_same_def)

lemma flock_disk:
  "flock_wait k i ofd w = Some (r, w') \<Longrightarrow> disk_same w w'"
  "flock_nb k i ofd w = (r, w') \<Longrightarrow> disk_same w w'"
  "flock_un i ofd w = (r, w') \<Longrightarrow> disk_same w w'"
  using syscall_disk [of w]
  by (auto simp: flock_defs split: prod.splits if_splits)

lemma flock_call_disk: "flock_call b k l w = Some (r, w') \<Longrightarrow> disk_same w w'"
  by (auto simp: flock_call_def split: if_splits intro: flock_disk)

lemma platformLock_disk: "platformLock k b u l w = Some (r, w') \<Longrightarrow> disk_same w w'"
  unfolding platformLock_def
  by (auto split: if_splits prod.splits sum.splits option.splits
      dest!: flock_disk flock_call_disk intro: disk_same_trans)

lemma lock_disk: "lock t l w = Some (r, l', w') \<Longrightarrow> disk_same w w'"
  unfolding lock_def
  by (auto split: if_splits prod.splits sum.splits option.splits lockType.splits dest!: platformLock_disk)

lemma unlock_disk: "unlock t l w = Some (r, l', w') \<Longrightarrow> disk_same w w'"
  unfolding unlock_def platformUnlock_def
  by (auto split: if_splits prod.splits sum.splits option.splits lockType.splits dest!: flock_disk)

text \<open>Taking and releasing the lock of an instance changes only its counters.\<close>

definition relocked :: "mmkv \<Rightarrow> mmkv \<Rightarrow> bool" where
  "relocked m m' \<longleftrightarrow> m' = m\<lparr>m_fl := m_fl m'\<rparr>"

lemma relocked_refl [simp]: "relocked m m"
  by (simp add: relocked_def)

lemma relocked_fl [simp]: "relocked m (m\<lparr>m_fl := l\<rparr>)"
  by (simp add: relocked_def)

lemma relocked_trans: "relocked m m1 \<Longrightarrow> relocked m1 m2 \<Longrightarrow> relocked m m2"
  unfolding relocked_def by (cases m; cases m1; cases m2) simp

lemma relocked_sel:
  assumes "relocked m m'"
  shows "m_closed m' = m_closed m" "m_readOnly m' = m_readOnly m" "m_multiProcess m' = m_multiProcess m"
    "m_dict m' = m_dict m" "m_key m' = m_key m"
  by (subst assms [unfolded relocked_def], simp)+

lemma instance_lock_disk:
  "lockShared m w = Some (m', w') \<Longrightarrow> relocked m m' \<and> disk_same w w'"
  "unlockShared m w = Some (m', w') \<Longrightarrow> relocked m m' \<and> disk_same w w'"
  "lockExclusive m w = Some (m', w') \<Longrightarrow> relocked m m' \<and> disk_same w w'"
  "unlockExclusive m w = Some (m', w') \<Longrightarrow> relocked m m' \<and> disk_same w w'"
  unfolding lockShared_def unlockShared_def lockExclusive_def unlockExclusive_def
  by (auto split: if_splits prod.splits option.splits dest: lock_disk unlock_disk)

lemma withShared_cases:
  assumes "withShared body m w = Some (r, m', w')"
  obtains m1 w1 m2 w2 where "relocked m m1" "disk_same w w1" "body m1 w1 = (r, m2, w2)"
    "relocked m2 m'" "disk_same w2 w'"
  using assms unfolding withShared_def
  by (auto split: option.splits prod.splits dest!: instance_lock_disk)

lemma withExclusive_cases:
  assumes "withExclusive body m w = Some (r, m', w')"
  obtains m1 w1 m2 w2 where "relocked m m1" "disk_same w w1" "body m1 w1 = (r, m2, w2)"
    "relocked m2 m'" "disk_same w2 w'"
  using assms unfolding withExclusive_def
  by (auto split: option.splits prod.splits dest!: instance_lock_disk)

section \<open>The freshness check reads only\<close>

lemma remap_to_disk: "disk_same w (snd (snd (remap_to n mf w)))"
proof -
  have s: "disk_same u u1" if "syscall u = (b, u1)" for u b u1
    using syscall_disk [of u] that by simp
  show ?thesis
    unfolding remap_to_def by (auto split: prod.split bool.split if_split dest: s intro: disk_same_trans)
qed

lemma remap_disk: "disk_same w (snd (snd (remap mf w)))"
proof -
  obtain b w1 where s: "syscall w = (b, w1)" by fastforce
  have "disk_same w w1" using syscall_disk [of w] s by simp
  then show ?thesis
    using remap_to_disk [of w1] by (auto simp: remap_def s Let_def split: bool.split intro: disk_same_trans)
qed

lemma reload_disk: "disk_same w (snd (snd (reloadBestEffort rm m w)))"
proof -
  obtain r d w1 where p: "(if rm then remap (m_data m) w else (Inr (), m_data m, w)) = (r, d, w1)"
    by (cases "if rm then remap (m_data m) w else (Inr (), m_data m, w)")
  have "disk_same w w1" using remap_disk [of w "m_data m"] p by (auto split: if_splits)
  then show ?thesis unfolding reloadBestEffort_def p by (auto split: sum.split prod.split)
qed

lemma notifyChanged_disk [simp]: "disk_same w (notifyChanged m w') = disk_same w w'"
  by (simp add: disk_same_def notifyChanged_def)

lemma checkLoadData_disk: "disk_same w (snd (snd (checkLoadData m w)))"
proof -
  have r: "disk_same u u'" if "reloadBestEffort b n u = (x, n', u')" for b n u x n' u'
    using reload_disk [of u b n] that by simp
  show ?thesis
    unfolding checkLoadData_def using reload_disk
    by (auto split: sum.split prod.split dest: r)
qed

section \<open>Properties\<close>

text \<open>
  C23: reading never changes the disk: whatever system calls fail, whatever the files hold and whatever
  the reader computes, a read operation that returns has changed no file and no directory entry.
\<close>

theorem reads_never_write:
  assumes "readOp x body m w = Some (r, m', w')"
  shows "files w' = files w \<and> dirent w' = dirent w"
proof -
  obtain m1 w1 m2 w2 where s: "disk_same w w1" "disk_same w2 w'"
    "(if m_closed m1 then (Inr x, m1, w1)
      else case checkLoadData m1 w1 of (Inl e, m1, w1) \<Rightarrow> (Inl e, m1, w1)
           | (Inr _, m1, w1) \<Rightarrow> (body m1 w1, m1, w1)) = (r, m2, w2)"
    using assms unfolding readOp_def by (rule withShared_cases) blast
  have "disk_same w1 w2"
    using s(3) checkLoadData_disk [of w1 m1] by (auto split: if_splits prod.splits sum.splits)
  then show ?thesis using s(1,2) by (simp add: disk_same_def)
qed

theorem reads_never_write_witness:
  "\<exists>r m' w'. GetInt32 [107] ex_m1 ex_w1 = Some (r, m', w') \<and> files w' = files ex_w1"
proof -
  obtain r m' w' where g: "readOp None (scalarValue readInt32 [107]) ex_m1 ex_w1 = Some (r, m', w')"
    using scalar_get.holds_read [OF ex_kv1(1)] by blast
  show ?thesis using g reads_never_write [OF g] unfolding GetInt32_def by blast
qed

text \<open>
  C22: a closed instance and a read-only instance refuse every write with their error, and leave the
  files, the directory and the in-memory map as they are.  Only a multi-process instance may wait (for
  the file lock) before it refuses.
\<close>

theorem writes_refused:
  assumes "m_closed m \<or> m_readOnly m"
  shows "case exec cm m w of
      None \<Rightarrow> m_multiProcess m
    | Some (r, m', w') \<Rightarrow> r = Inl (if m_closed m then ErrClosed else ErrReadOnly) \<and>
        files w' = files w \<and> dirent w' = dirent w \<and> m_dict m' = m_dict m"
proof -
  have w: "case writeOp body m w of
      None \<Rightarrow> m_multiProcess m
    | Some (r, m', w') \<Rightarrow> r = Inl (if m_closed m then ErrClosed else ErrReadOnly) \<and>
        files w' = files w \<and> dirent w' = dirent w \<and> m_dict m' = m_dict m" for body :: "unit step"
  proof (cases "writeOp body m w")
    case None
    then show ?thesis
      using assms by (auto simp: writeOp_def withExclusive_def lockExclusive_def unlockExclusive_def split: if_splits)
  next
    case (Some x)
    obtain r m' w' where x: "x = (r, m', w')" by (cases x)
    obtain m1 w1 m2 w2 where s: "relocked m m1" "disk_same w w1" "relocked m2 m'" "disk_same w2 w'"
      "(if m_closed m1 then (Inl ErrClosed, m1, w1) else if m_readOnly m1 then (Inl ErrReadOnly, m1, w1)
        else andThen checkLoadData (\<lambda>_. body) m1 w1) = (r, m2, w2)"
      using Some unfolding x writeOp_def by (rule withExclusive_cases) blast
    have "r = Inl (if m_closed m then ErrClosed else ErrReadOnly)" "m2 = m1" "w2 = w1"
      using s(5) assms relocked_sel [OF s(1)] by (auto split: if_splits)
    then show ?thesis using Some x s(2,4) relocked_sel(4) [OF s(1)] relocked_sel(4) [OF s(3)] by (simp add: disk_same_def)
  qed
  show ?thesis
    by (cases cm) (simp_all only: exec.simps setValue_def RemoveValueForKey_def RemoveValuesForKeys_def ClearAll_def
        Trim_def ReKey_def EnableAutoKeyExpire_def DisableAutoKeyExpire_def w)
qed

theorem writes_refused_witness:
  "\<exists>m' w'. exec CClear (ex_m1\<lparr>m_closed := True\<rparr>) ex_w1 = Some (Inl ErrClosed, m', w') \<and> files w' = files ex_w1"
proof -
  have "\<not> m_multiProcess (ex_m1\<lparr>m_closed := True\<rparr>)" using ex_kv(6) ex_kv1(3) by (simp add: keeps_def emptyConfig_def)
  then show ?thesis
    using writes_refused [where m = "ex_m1\<lparr>m_closed := True\<rparr>" and cm = CClear and w = ex_w1] by (auto split: option.splits)
qed

end
