(* ===== verification/Processes.thy ===== *)
theory Processes
  imports StoreProps
begin

text \<open>
  Several processes on one store, in multi-process mode.  Each process has its own instance, with its
  own mapping and cache, over the same two files; the operations run one at a time because each holds
  the file lock from its first to its last access (\<open>flock_mutual_exclusion\<close> in \<open>Flock\<close>).  A state also
  carries the map the processes have agreed on so far and the number of writes.  The invariant says
  that every cache is current or that \<^verbatim>\<open>checkLoadData\<close> will notice that it is not.
\<close>

section \<open>The system\<close>

record psys =
  g_os :: os
  g_inst :: "nat \<Rightarrow> mmkv"
  g_map :: "bytes \<rightharpoonup> bytes"
  g_writes :: nat

fun shared_cmd :: "cmd \<Rightarrow> bool" where
  "shared_cmd (CReKey key) = False"
| "shared_cmd _ = True"

text \<open>
  A process writes, reads or drops its cache, or time passes.  Re-keying is left out: it gives the
  store a key the other processes do not have.
\<close>

inductive proc_step :: "nat \<Rightarrow> psys \<Rightarrow> psys \<Rightarrow> bool" for n where
  put_step: "p < n \<Longrightarrow> shared_cmd cm \<Longrightarrow> cmd_pre cm (env_of (g_inst s p) (g_os s)) (g_map s) \<Longrightarrow>
    g_writes s + 1 < 2 ^ 32 \<Longrightarrow> exec cm (g_inst s p) (g_os s) = Some (r, m', w') \<Longrightarrow>
    proc_step n s (s\<lparr>g_os := w', g_inst := (g_inst s)(p := m'),
      g_map := cmd_spec cm (env_of (g_inst s p) (g_os s)) (g_map s), g_writes := g_writes s + 1\<rparr>)"
| get_step: "p < n \<Longrightarrow> GetBytesCopy k (g_inst s p) (g_os s) = Some (r, m', w') \<Longrightarrow>
    proc_step n s (s\<lparr>g_os := w', g_inst := (g_inst s)(p := m')\<rparr>)"
| drop_step: "p < n \<Longrightarrow> proc_step n s (s\<lparr>g_inst := (g_inst s)(p := ClearMemoryCache (g_inst s p))\<rparr>)"
| tick_step: "proc_step n s (s\<lparr>g_os := (g_os s)\<lparr>nowUnix := t\<rparr>\<rparr>)"

text \<open>A process of the system: an instance on the shared files \<open>di\<close> and \<open>mi\<close>, holding no lock.\<close>

definition member :: "nat \<Rightarrow> nat \<Rightarrow> block option \<Rightarrow> mmkv \<Rightarrow> os \<Rightarrow> bool" where
  "member di ji c m w \<longleftrightarrow>
     m_multiProcess m \<and> m_crypt m = c \<and> mf_ino (m_data m) = di \<and> mf_ino (m_meta m) = ji \<and>
     fl_ino (m_fl m) = ji \<and> fl_shared (m_fl m) = 0 \<and> fl_exclusive (m_fl m) = 0 \<and> fl_ofd (m_fl m) \<notin> set (closedOfds w) \<and> can_write m w"

definition proc_inv :: "nat \<Rightarrow> psys \<Rightarrow> bool" where
  "proc_inv n s \<longleftrightarrow>
     (\<exists>di ji c mi ps s0 r. log_map ps = g_map s \<and> meta_consistent mi \<and>
        mi_sequence mi = s0 + of_nat r \<and> r \<le> g_writes s \<and> g_writes s < 2 ^ 32 \<and> flocks (g_os s) ji = [] \<and>
        (\<forall>p<n. member di ji c (g_inst s p) (g_os s) \<and> attached (g_inst s p) (g_os s) mi ps \<and>
           (\<exists>q\<le>r. mi_sequence (m_info (g_inst s p)) = s0 + of_nat q)))"

definition proc_init :: "nat \<Rightarrow> psys \<Rightarrow> bool" where
  "proc_init n s \<longleftrightarrow>
     (\<exists>di ji c mi ps. log_map ps = g_map s \<and> meta_consistent mi \<and> g_writes s = 0 \<and> flocks (g_os s) ji = [] \<and>
        (\<forall>p<n. member di ji c (g_inst s p) (g_os s) \<and> attached (g_inst s p) (g_os s) mi ps \<and>
           mi_sequence (m_info (g_inst s p)) = mi_sequence mi))"

lemma member_lock: "member di ji c m w \<Longrightarrow> fl_ino (m_fl m) = ji \<and> lock_mode (m_fl m) = None \<and> m_multiProcess m"
  by (simp add: member_def lock_mode_def)

lemma member_idle:
  assumes "member di ji c m w" "flocks w ji = []"
  shows "idle m w"
  using assms member_lock [OF assms(1)]
  by (simp add: idle_def fl_inv_def held_def locks_ok_def others_def member_def)

text \<open>An operation of one process leaves no lock behind.\<close>

lemma member_unlocked:
  assumes "member di ji c m w" "flocks w ji = []" "op_frame m w w'"
  shows "flocks w' ji = []"
proof -
  note l = member_lock [OF assms(1)]
  let ?o = "fl_ofd (m_fl m)"
  have "held w' ji ?o = None" using assms(3) l by (simp add: op_frame_def fl_inv_def)
  then have "others ?o (flocks w' ji) = flocks w' ji" by (intro others_absent) (simp add: held_def)
  then show ?thesis using assms(2,3) l by (simp add: op_frame_def others_def)
qed

lemma member_frame: "member di ji c m w \<Longrightarrow> op_frame m0 w w' \<Longrightarrow> member di ji c m w'"
  by (auto simp: member_def op_frame_def can_write_def)

lemma member_keeps:
  assumes "member di ji c m w" "keeps m m'" "op_frame m w w'" "m_crypt m' = m_crypt m" "can_write m' w'"
  shows "member di ji c m' w'"
  using assms by (auto simp: member_def keeps_def op_frame_def)

text \<open>
  What a write of one process means to another: its cache stays current, or the sequence number or the
  actual size on disk now differs from what it remembers.
\<close>

lemma other_fresh:
  assumes fr: "fresh m w mi ps" and multi: "m_multiProcess m"
    and disk: "on_disk (m_crypt m) (data_file m w) (meta_file m w) mi ps"
      "on_disk (m_crypt m) (data_file m w') (meta_file m w') mi' ps'" and meta: "mf_mapped (m_meta m) w'"
    and step: "disk_step m0 w mi w' mi'" and m0: "m_multiProcess m0" "mf_ino (m_data m0) = mf_ino (m_data m)"
      "mf_ino (m_meta m0) = mf_ino (m_meta m)"
    and seq: "mi_sequence mi' = mi_sequence mi + 1 \<Longrightarrow> mi_sequence (m_info m) \<noteq> mi_sequence mi'"
  shows "fresh m w' mi' ps'"
proof (cases "mi_sequence (m_info m) \<noteq> mi_sequence mi'")
  case False
  then have same: "mi_sequence mi' = mi_sequence mi" "length (data_file m w') = length (data_file m w)"
    and files: "data_file m w' = data_file m w \<and> meta_file m w' = meta_file m w \<or>
      versionFlag \<le> mi_version mi' \<and> disk_actual mi (data_file m w) < mi_actualSize mi'"
    using step m0 seq by (auto simp: disk_step_def)
  have old: "mf_mapped (m_data m) w" "loaded m w ps \<or>
      versionActualSize \<le> mi_version mi \<and> m_actualSize m < mi_actualSize mi"
    using fr False same(1) by (auto simp: fresh_def)
  have map: "mf_mapped (m_data m) w'" using old(1) same(2) by (simp add: mf_mapped_def)
  have info: "m_info m = mi" "m_actualSize m = disk_actual mi (data_file m w)" if "loaded m w ps"
    using that disk(1) by (auto simp: loaded_def synced_def on_disk_def)
  show ?thesis
  proof (cases "data_file m w' = data_file m w \<and> meta_file m w' = meta_file m w")
    case True
    then have mi: "mi' = mi" and lm: "log_map ps' = log_map ps"
      using disk on_disk_unique [of "m_crypt m" "data_file m w" "meta_file m w" mi ps' ps]
      by (auto simp: on_disk_def)
    have "content m w' = content m w"
      unfolding content_def dict_map_def deref_file_cong [OF conjunct1 [OF True]] ..
    then have "loaded m w' ps'" if "loaded m w ps"
      using that True disk(2) mi lm map meta info [OF that] by (simp add: loaded_def synced_def)
    then show ?thesis using old(2) map multi mi by (auto simp: fresh_def)
  next
    case False
    then have "versionFlag \<le> mi_version mi'" "disk_actual mi (data_file m w) < mi_actualSize mi'"
      using files by blast+
    moreover have "m_actualSize m < mi_actualSize mi'"
      using old(2) info(2) calculation(2) by (auto simp: disk_actual_def)
    ultimately show ?thesis using map multi versionFlag_actual by (auto simp: fresh_def)
  qed
qed (use multi in \<open>simp add: fresh_def\<close>)

lemma of_nat_seq_neq: "q \<le> r \<Longrightarrow> r + 1 < 2 ^ 32 \<Longrightarrow> s0 + of_nat q \<noteq> (s0 + of_nat r + 1 :: u32)"
proof
  assume a: "q \<le> r" "r + 1 < 2 ^ 32" "s0 + of_nat q = (s0 + of_nat r + 1 :: u32)"
  then have "of_nat q = (of_nat (r + 1) :: u32)" by (simp add: add.assoc)
  then have "unat (of_nat q :: u32) = unat (of_nat (r + 1) :: u32)" by simp
  then show False using a(1,2) by (simp add: unat_of_nat_small del: of_nat_add of_nat_Suc)
qed

lemma other_attached:
  assumes att: "attached m w mi ps" and mem: "member di ji c m w" "member di ji c m0 w" "member di ji c m1 w'"
    and inv: "store_inv m1 w' ps'" and mi': "m_info m1 = mi'" and fr: "op_frame m0 w w'" and k: "keeps m0 m1"
    and att0: "attached m0 w mi ps" and step: "disk_step m0 w mi w' mi'"
    and seq: "mi_sequence mi' = mi_sequence mi + 1 \<Longrightarrow> mi_sequence (m_info m) \<noteq> mi_sequence mi'"
  shows "attached m w' mi' ps'"
proof -
  note f = store_inv_facts [OF inv]
  have ino: "mf_ino (m_data m0) = di" "mf_ino (m_meta m0) = ji" "mf_ino (m_data m) = di" "mf_ino (m_meta m) = ji"
    "mf_ino (m_data m1) = di" "mf_ino (m_meta m1) = ji" "m_crypt m = c" "m_crypt m1 = c" "m_multiProcess m"
    "m_multiProcess m0" using mem by (auto simp: member_def)
  have disk': "on_disk (m_crypt m) (data_file m w') (meta_file m w') mi' ps'"
    using f(2) mi' ino by (simp add: synced_def)
  have len: "length (files w' ji) = length (files w ji)"
    using f(6) att0 k ino by (simp add: mf_mapped_def keeps_def attached_def)
  have meta: "mf_mapped (m_meta m) w'" using att len ino by (simp add: attached_def mf_mapped_def)
  have "fresh m w' mi' ps'" if "fresh m w mi ps"
    using other_fresh [OF that ino(9) _ disk' meta step ino(10) _ _ seq] att ino by (simp add: attached_def)
  then show ?thesis using att meta disk' fr f(12) by (auto simp: attached_def)
qed

lemma proc_inv_put:
  assumes inv: "proc_inv n s" and p: "p < n" "shared_cmd cm"
    and pre: "cmd_pre cm (env_of (g_inst s p) (g_os s)) (g_map s)" and N: "g_writes s + 1 < 2 ^ 32"
    and run: "exec cm (g_inst s p) (g_os s) = Some (r, m', w')"
  shows "proc_inv n (s\<lparr>g_os := w', g_inst := (g_inst s)(p := m'),
      g_map := cmd_spec cm (env_of (g_inst s p) (g_os s)) (g_map s), g_writes := g_writes s + 1\<rparr>)"
proof -
  let ?m = "g_inst s p" and ?w = "g_os s"
  obtain di ji c mi ps s0 r0 where i: "log_map ps = g_map s" "meta_consistent mi"
    "mi_sequence mi = s0 + of_nat r0" "r0 \<le> g_writes s" "flocks ?w ji = []"
    and all: "\<And>p. p < n \<Longrightarrow> member di ji c (g_inst s p) ?w \<and> attached (g_inst s p) ?w mi ps \<and>
      (\<exists>q\<le>r0. mi_sequence (m_info (g_inst s p)) = s0 + of_nat q)"
    using inv unfolding proc_inv_def by blast
  have mem: "member di ji c ?m ?w" and att: "attached ?m ?w mi ps" using all [OF p(1)] by auto
  have cw: "can_write ?m ?w" using mem by (simp add: member_def)
  have lk: "can_lock ExclusiveLock ?m ?w"
    using idle_can_lock [OF _ member_idle [OF mem i(5)]] att by (simp add: attached_def)
  obtain ps' where o: "r = Inr ()" "store_inv m' w' ps'" "log_map ps' = cmd_spec cm (env_of ?m ?w) (g_map s)"
    "same_env (cmd_conf cm (env_of ?m ?w)) (env_of m' w')" "keeps ?m m'" "op_frame ?m ?w w'"
    "disk_step ?m ?w mi w' (m_info m')"
    using exec_write_op [OF att cw i(2) lk, of cm] pre run i(1) by auto
  have "m_crypt m' = m_crypt ?m"
    using o(4) p(2) by (cases cm) (auto simp: same_env_def env_of_def split: if_splits)
  then have mem': "member di ji c m' w'"
    using member_keeps [OF mem o(5,6)] store_inv_attached(2) [OF o(2)] by blast
  obtain r1 where r1: "mi_sequence (m_info m') = s0 + of_nat r1" "r0 \<le> r1" "r1 \<le> g_writes s + 1"
    "mi_sequence (m_info m') = mi_sequence mi + 1 \<Longrightarrow> r1 = r0 + 1"
  proof (cases "mi_sequence (m_info m') = mi_sequence mi + 1")
    case True
    then show thesis using that [of "r0 + 1"] i(3,4) by (simp add: add.assoc)
  next
    case False
    then show thesis using that [of r0] o(7) i(3,4) by (auto simp: disk_step_def)
  qed
  have others: "attached (g_inst s q) w' (m_info m') ps'" if q: "q < n" "q \<noteq> p" for q
  proof (rule other_attached [OF _ _ mem mem' o(2) refl o(6,5) att o(7)])
    show "attached (g_inst s q) ?w mi ps" "member di ji c (g_inst s q) ?w" using all [OF q(1)] by auto
    assume step: "mi_sequence (m_info m') = mi_sequence mi + 1"
    obtain k where k: "k \<le> r0" "mi_sequence (m_info (g_inst s q)) = s0 + of_nat k" using all [OF q(1)] by blast
    show "mi_sequence (m_info (g_inst s q)) \<noteq> mi_sequence (m_info m')"
      using of_nat_seq_neq [OF k(1), of s0] i(3,4) N k(2) step by simp
  qed
  have cond: "member di ji c (((g_inst s)(p := m')) q) w' \<and> attached (((g_inst s)(p := m')) q) w' (m_info m') ps' \<and>
      (\<exists>k\<le>r1. mi_sequence (m_info (((g_inst s)(p := m')) q)) = s0 + of_nat k)" if "q < n" for q
  proof (cases "q = p")
    case True
    then show ?thesis using mem' store_inv_attached(1) [OF o(2)] r1(1) by auto
  next
    case False
    then show ?thesis
      using all [OF that] others [OF that False] member_frame [OF _ o(6)] r1(2) by (auto intro: order_trans)
  qed
  show ?thesis
    unfolding proc_inv_def
    by (rule exI [of _ di], rule exI [of _ ji], rule exI [of _ c], rule exI [of _ "m_info m'"], rule exI [of _ ps'],
        rule exI [of _ s0], rule exI [of _ r1])
      (use o(3) store_inv_attached(3) [OF o(2)] r1(1,3) N member_unlocked [OF mem i(5) o(6)] cond in simp)
qed

text \<open>A step that changes no file keeps every cache as current as it was.\<close>

lemma proc_inv_quiet:
  assumes inv: "proc_inv n s" and os: "files w' = files (g_os s)" "faults w' = faults (g_os s)"
      "pagesize w' = pagesize (g_os s)" "closedOfds w' = closedOfds (g_os s)"
    and locks: "\<And>ji. flocks (g_os s) ji = [] \<Longrightarrow> \<exists>di c. member di ji c (g_inst s p) (g_os s) \<Longrightarrow> flocks w' ji = []"
    and p: "p < n"
    and m': "\<And>di ji c mi ps. member di ji c (g_inst s p) (g_os s) \<Longrightarrow> attached (g_inst s p) (g_os s) mi ps \<Longrightarrow>
      meta_consistent mi \<Longrightarrow> flocks (g_os s) ji = [] \<Longrightarrow>
      member di ji c m' w' \<and> attached m' w' mi ps \<and> m_info m' \<in> {m_info (g_inst s p), mi}"
  shows "proc_inv n (s\<lparr>g_os := w', g_inst := (g_inst s)(p := m')\<rparr>)"
proof -
  let ?w = "g_os s"
  obtain di ji c mi ps s0 r0 where i: "log_map ps = g_map s" "meta_consistent mi"
    "mi_sequence mi = s0 + of_nat r0" "r0 \<le> g_writes s" "g_writes s < 2 ^ 32" "flocks ?w ji = []"
    and all: "\<And>p. p < n \<Longrightarrow> member di ji c (g_inst s p) ?w \<and> attached (g_inst s p) ?w mi ps \<and>
      (\<exists>q\<le>r0. mi_sequence (m_info (g_inst s p)) = s0 + of_nat q)"
    using inv unfolding proc_inv_def by blast
  have own: "member di ji c m' w' \<and> attached m' w' mi ps \<and> (\<exists>q\<le>r0. mi_sequence (m_info m') = s0 + of_nat q)"
    using all [OF p] m' [of di ji c mi ps] i(2,3,6) by auto
  have other: "member di ji c (g_inst s q) w'" "attached (g_inst s q) w' mi ps" if "q < n" for q
    using all [OF that] os loaded_cong [OF os(1)]
    by (auto simp: member_def can_write_def attached_def fresh_def mf_mapped_def)
  have fl: "flocks w' ji = []" using locks [OF i(6)] all [OF p] by blast
  show ?thesis
    unfolding proc_inv_def
    by (rule exI [of _ di], rule exI [of _ ji], rule exI [of _ c], rule exI [of _ mi], rule exI [of _ ps],
        rule exI [of _ s0], rule exI [of _ r0])
      (use i fl own other all in auto)
qed

lemma read_member:
  assumes mem: "member di ji c m w" and att: "attached m w mi ps" and mc: "meta_consistent mi"
    and fl: "flocks w ji = []" and run: "GetBytesCopy k m w = Some (r, m', w')"
  shows "member di ji c m' w'" "attached m' w' mi ps" "m_info m' = mi" "op_frame m w w'" "files w' = files w"
proof -
  have lk: "can_lock SharedLock m w"
    using idle_can_lock [OF _ member_idle [OF mem fl]] att by (simp add: attached_def)
  obtain m1 w1 w2 where o: "readOp None (bytesCopy k) m w = Some (bytesCopy k m1 w1, m1\<lparr>m_fl := m_fl m\<rparr>, w2)"
    "loaded m1 w1 ps" "env_of m1 w1 = env_of m w" "m_info m1 = mi" "\<not> m_needLoad m1" "files w1 = files w"
    "files w2 = files w" "same_instance m (m1\<lparr>m_fl := m_fl m\<rparr>)" "op_frame m w w2"
    by (rule read_run [OF att lk])
  have eq: "m' = m1\<lparr>m_fl := m_fl m\<rparr>" "w' = w2" using run o(1) by (simp_all add: GetBytesCopy_def)
  show "m_info m' = mi" "op_frame m w w'" "files w' = files w" using o(4,7,9) eq by simp_all
  have cw: "can_write m' w'"
    using mem o(8,9) eq can_write_instance [of m m' w' w] by (simp add: member_def op_frame_def)
  have ld: "loaded m' w' ps" using o(2,6,7) eq loaded_cong [of w2 w1] by simp
  have "store_inv m' w' ps"
    using ld cw mc att o(4,5,8,9) eq
    by (intro loaded_store_inv) (auto simp: attached_def same_instance_def op_frame_def)
  then show "attached m' w' mi ps" using store_inv_attached(1) o(4) eq by fastforce
  show "member di ji c m' w'"
    using mem cw o(8,9) eq by (auto simp: member_def same_instance_def op_frame_def)
qed

interpretation procs: invariant_system "proc_init n" "proc_step n" "proc_inv n" for n
proof
  show "proc_inv n s" if init: "proc_init n s" for s
  proof -
    obtain di ji c mi ps where i: "log_map ps = g_map s" "meta_consistent mi" "g_writes s = 0" "flocks (g_os s) ji = []"
      "\<forall>p<n. member di ji c (g_inst s p) (g_os s) \<and> attached (g_inst s p) (g_os s) mi ps \<and>
         mi_sequence (m_info (g_inst s p)) = mi_sequence mi"
      using init unfolding proc_init_def by blast
    show ?thesis
      unfolding proc_inv_def
      by (rule exI [of _ di], rule exI [of _ ji], rule exI [of _ c], rule exI [of _ mi], rule exI [of _ ps],
          rule exI [of _ "mi_sequence mi"], rule exI [of _ 0]) (use i in simp)
  qed
  show "proc_inv n t" if "proc_inv n s" "proc_step n s t" for s t
    using that(2,1)
  proof (induction rule: proc_step.induct)
    case (put_step p cm s r m' w')
    then show ?case by (intro proc_inv_put)
  next
    case (get_step p k s r m' w')
    obtain di ji c mi ps where i: "meta_consistent mi" "flocks (g_os s) ji = []"
      "member di ji c (g_inst s p) (g_os s)" "attached (g_inst s p) (g_os s) mi ps"
      using get_step.prems get_step.hyps(1) unfolding proc_inv_def by blast
    note g = read_member [OF i(3,4,1,2) get_step.hyps(2)]
    have os: "faults w' = faults (g_os s)" "pagesize w' = pagesize (g_os s)" "closedOfds w' = closedOfds (g_os s)"
      using g(4) by (simp_all add: op_frame_def)
    have own: "member di ji c m' w' \<and> attached m' w' mi ps \<and> m_info m' \<in> {m_info (g_inst s p), mi}"
      if a: "member di ji c (g_inst s p) (g_os s)" "attached (g_inst s p) (g_os s) mi ps"
        "meta_consistent mi" "flocks (g_os s) ji = []" for di ji c mi ps
      using read_member(1-3) [OF a get_step.hyps(2)] by blast
    have fl: "flocks w' ji = []" if "flocks (g_os s) ji = []" "\<exists>di c. member di ji c (g_inst s p) (g_os s)" for ji
      using that(2) member_unlocked [OF _ that(1) g(4)] by blast
    show ?case by (rule proc_inv_quiet [OF get_step.prems g(5) os fl get_step.hyps(1) own])
  next
    case (drop_step p s)
    have "member di ji c (ClearMemoryCache m) w = member di ji c m w" for di ji c m w
      by (simp add: member_def ClearMemoryCache_def can_write_def)
    moreover have "attached (ClearMemoryCache m) w mi ps" if "attached m w mi ps" for m w mi ps
      using that by (simp add: attached_def ClearMemoryCache_def)
    moreover have "m_info (ClearMemoryCache m) = m_info m" for m by (simp add: ClearMemoryCache_def)
    ultimately show ?case
      using proc_inv_quiet [OF drop_step.prems refl refl refl refl _ drop_step.hyps, of "ClearMemoryCache (g_inst s p)"]
      by simp
  next
    case (tick_step s t)
    have "attached m (w\<lparr>nowUnix := t\<rparr>) mi ps = attached m w mi ps" for m w mi ps
      using attached_locked [where w' = "w\<lparr>nowUnix := t\<rparr>" and w = w and m = m and l = "m_fl m"] by simp
    moreover have "member di ji c m (w\<lparr>nowUnix := t\<rparr>) = member di ji c m w" for di ji c m w
      by (simp add: member_def can_write_def)
    ultimately show ?case using tick_step.prems by (simp add: proc_inv_def)
  qed
qed

lemma proc_holds:
  assumes "reach (proc_init n) (proc_step n) s" "p < n"
  shows "holds (g_inst s p) (g_os s) (g_map s)"
proof -
  obtain di ji c mi ps where i: "log_map ps = g_map s" "meta_consistent mi" "flocks (g_os s) ji = []"
    "member di ji c (g_inst s p) (g_os s)" "attached (g_inst s p) (g_os s) mi ps"
    using procs.reach_inv [OF assms(1)] assms(2) unfolding proc_inv_def by blast
  have "session (g_inst s p) (g_os s) mi ps" using i(2,4,5) by (simp add: session_def member_def)
  then show ?thesis using i(1) member_idle [OF i(4,3)] unfolding holds_def by blast
qed

section \<open>Properties\<close>


text \<open>Two processes that have just opened the same new store.\<close>

abbreviation ex_mp :: mmkvConfig where "ex_mp \<equiv> WithMultiProcess emptyConfig"

definition ex_procs :: psys where
  "ex_procs = \<lparr>g_os = snd (ex_open ex_mp),
     g_inst = (\<lambda>p. (fst (ex_open ex_mp))\<lparr>m_fl := newFileLock (mf_ino (m_meta (fst (ex_open ex_mp)))) (2 + p)\<rparr>),
     g_map = Map.empty, g_writes = 0\<rparr>"

lemma ex_mp_cfg: "\<not> c_readOnly ex_mp" "cfg_crypt ex_mp = None" "c_multiProcess ex_mp"
  by (simp_all add: WithMultiProcess_def emptyConfig_def cfg_crypt_def)

lemma ex_procs_member:
  "member (mf_ino (m_data (fst (ex_open ex_mp)))) (mf_ino (m_meta (fst (ex_open ex_mp)))) None (g_inst ex_procs p) (g_os ex_procs)"
  "attached (g_inst ex_procs p) (g_os ex_procs) (m_info (fst (ex_open ex_mp))) []"
  "flocks (g_os ex_procs) i = []"
  "env_of (g_inst ex_procs p) (g_os ex_procs) =
     \<lparr>e_crypt = None, e_expire = False, e_seconds = 0, e_now = 1000, e_size = 4096\<rparr>"
proof -
  let ?m = "fst (ex_open ex_mp)"
  note o = ex_open_ok [OF ex_mp_cfg(1)]
  note a = store_inv_attached [OF o(1)]
  have c: "m_crypt ?m = None" using o(3) ex_mp_cfg(2) by (simp add: env_of_def)
  show "member (mf_ino (m_data ?m)) (mf_ino (m_meta ?m)) None (g_inst ex_procs p) (g_os ex_procs)"
    "attached (g_inst ex_procs p) (g_os ex_procs) (m_info ?m) []"
    using a(1,2) o(6,10) c ex_mp_cfg(3)
    by (simp_all add: member_def can_write_def newFileLock_def attached_def fresh_def ex_procs_def)
  show "flocks (g_os ex_procs) i = []" using o(9) by (simp add: ex_procs_def)
  show "env_of (g_inst ex_procs p) (g_os ex_procs) =
     \<lparr>e_crypt = None, e_expire = False, e_seconds = 0, e_now = 1000, e_size = 4096\<rparr>"
    using o(3) ex_mp_cfg(2) by (simp add: ex_procs_def)
qed

lemma ex_procs_pre: "cmd_pre (CSet [107] [1, 7]) (env_of (g_inst ex_procs p) (g_os ex_procs)) Map.empty"
proof -
  have e: "encode_pair ([107], [1, 7]) = [1, 107, 2, 1, 7]" by code_simp
  then show ?thesis
    unfolding ex_procs_member(4)
    by (simp add: set_pre_def stored_def stored_value_def entry_ok_def small_def packed_size_single pair_ok_def)
qed

lemma ex_procs_init: "proc_init 2 ex_procs"
proof -
  let ?m = "fst (ex_open ex_mp)"
  note o = ex_open_ok [OF ex_mp_cfg(1)]
  have "mi_sequence (m_info (g_inst ex_procs p)) = mi_sequence (m_info ?m)" for p by (simp add: ex_procs_def)
  moreover have "log_map [] = g_map ex_procs" "g_writes ex_procs = 0" by (simp_all add: ex_procs_def)
  ultimately show ?thesis
    unfolding proc_init_def using ex_procs_member(1-3) store_inv_attached(3) [OF o(1)] by blast
qed


end
