(* ===== verification/Reader.thy ===== *)
theory Reader
  imports Dict Meta Crypt MemFile
begin

text \<open>
  The read-only \<^verbatim>\<open>Reader\<close> of \<^verbatim>\<open>reader.go\<close>: an immutable snapshot of the store, published under a
  shared file lock and refreshed when the change canary of the mapped meta file (CRC, actual size,
  sequence) moves.  Values of a snapshot are byte lists: its backing buffer is private and never
  written.  A \<open>Decryptor\<close> is an arbitrary function from ciphertext and IV (\<^verbatim>\<open>WithDecryptor\<close>), or the
  region cipher (\<^verbatim>\<open>WithEncryption\<close>).
\<close>

section \<open>State\<close>

type_synonym decryptor = "bytes \<Rightarrow> bytes \<Rightarrow> goerr + bytes"

record snapshot =
  s_meta :: metaInfo
  s_m :: "bytes gomap"
  s_expire :: bool

record reader =
  r_rootDir :: string
  r_mmapID :: string
  r_dec :: "decryptor option"
  r_snap :: "snapshot option"
  r_crcFile :: "(nat \<times> nat) option"
  r_crcMmap :: "nat option"
  r_loadedCRC :: u32
  r_loadedActual :: u32
  r_loadedSeq :: u32
  r_lastErr :: "goerr option"

definition WithDecryptor :: "decryptor \<Rightarrow> reader \<Rightarrow> reader" where
  "WithDecryptor d r = r\<lparr>r_dec := Some d\<rparr>"

definition WithEncryption :: "bytes \<Rightarrow> reader \<Rightarrow> reader" where
  "WithEncryption key r = r\<lparr>r_dec := Some (Decrypt (newAESCFB key))\<rparr>"

definition dataPath :: "reader \<Rightarrow> string" where
  "dataPath r = dataPathFor (r_rootDir r) (r_mmapID r)"

definition metaPath :: "reader \<Rightarrow> string" where
  "metaPath r = dataPath r @ crcSuffix"

section \<open>System calls\<close>

definition flockShared :: "nat \<times> nat \<Rightarrow> os \<Rightarrow> ((goerr + unit) \<times> os) option" where
  "flockShared f w = flock_wait SharedLock (fst f) (snd f) w"

definition flockExclusive :: "nat \<times> nat \<Rightarrow> os \<Rightarrow> ((goerr + unit) \<times> os) option" where
  "flockExclusive f w = flock_wait ExclusiveLock (fst f) (snd f) w"

definition flockUnlock :: "nat \<times> nat \<Rightarrow> os \<Rightarrow> os" where
  "flockUnlock f w = snd (flock_un (fst f) (snd f) w)"

definition mmapReadonly :: "nat \<Rightarrow> os \<Rightarrow> (goerr + nat) \<times> os" where
  "mmapReadonly sz w =
     (if sz < metaSize then (Inl ErrCrcTooSmall, w)
      else (case syscall w of (ok, w1) \<Rightarrow> (if ok then Inr sz else Inl ErrMmap, w1)))"

text \<open>The result is ignored by the only caller.\<close>

definition munmap :: "nat option \<Rightarrow> os \<Rightarrow> os" where
  "munmap b w = (case b of None \<Rightarrow> w | Some n \<Rightarrow> if n = 0 then w else snd (syscall w))"

text \<open>\<^verbatim>\<open>os.ReadFile\<close>.\<close>

definition os_ReadFile :: "string \<Rightarrow> os \<Rightarrow> (goerr + bytes) \<times> os" where
  "os_ReadFile path w =
     (case syscall w of
        (False, w1) \<Rightarrow> (Inl ErrRead, w1)
      | (True, w1) \<Rightarrow>
          (case lookup w1 path of None \<Rightarrow> (Inl ErrNotExist, w1) | Some i \<Rightarrow> (Inr (files w1 i), w1)))"

section \<open>Loading a snapshot\<close>

definition crcMem :: "reader \<Rightarrow> os \<Rightarrow> bytes" where
  "crcMem r w =
     (case (r_crcFile r, r_crcMmap r) of
        (Some f, Some n) \<Rightarrow> take n (files w (fst f))
      | _ \<Rightarrow> [])"

definition buildSnapshot :: "reader \<Rightarrow> bytes \<Rightarrow> os \<Rightarrow> (goerr + snapshot) \<times> os" where
  "buildSnapshot r metaBuf w =
     (case parseMeta metaBuf of
        Inl e \<Rightarrow> (Inl e, w)
      | Inr meta \<Rightarrow>
          if mi_version meta > maxSupportedVersion
          then (Inl (ErrUnsupportedVersion (mi_version meta)), w)
          else
            (case os_ReadFile (dataPath r) w of
               (Inl e, w1) \<Rightarrow> (Inl e, w1)
             | (Inr data, w1) \<Rightarrow>
                 let actual = (if mi_version meta \<ge> versionActualSize then mi_actualSize meta
                               else if length data \<ge> 4 then getUint32 data else 0)
                 in if unat actual + 4 > length data then (Inl (ErrActualSize actual (length data)), w1)
                    else
                      (case go_slice 4 (unat (4 + actual)) data of
                         Inl e \<Rightarrow> (Inl e, w1)
                       | Inr region \<Rightarrow>
                           if crc32_ChecksumIEEE region \<noteq> mi_crcDigest meta then (Inl ErrCRCMismatch, w1)
                           else
                             (case (case r_dec r of None \<Rightarrow> Inr region | Some d \<Rightarrow> d region (mi_iv meta)) of
                                Inl e \<Rightarrow> (Inl e, w1)
                              | Inr plain \<Rightarrow>
                                  (case parseDict plain of
                                     Inl e \<Rightarrow> (Inl e, w1)
                                   | Inr m \<Rightarrow>
                                       (Inr \<lparr>s_meta = meta,
                                             s_m = map (\<lambda>(k, v). (k, view_bytes plain v)) m,
                                             s_expire = (mi_version meta \<ge> versionFlag \<and> expireEnabled meta)\<rparr>,
                                        w1))))))"

definition reloadFrom :: "bytes \<Rightarrow> reader \<Rightarrow> os \<Rightarrow> (goerr + unit) \<times> reader \<times> os" where
  "reloadFrom metaBuf r w =
     (case buildSnapshot r metaBuf w of
        (Inl e, w1) \<Rightarrow> (Inl e, r, w1)
      | (Inr s, w1) \<Rightarrow>
          (Inr (), r\<lparr>r_snap := Some s, r_loadedCRC := mi_crcDigest (s_meta s),
                     r_loadedActual := mi_actualSize (s_meta s), r_loadedSeq := mi_sequence (s_meta s)\<rparr>, w1))"

definition reloadLocked :: "reader \<Rightarrow> os \<Rightarrow> ((goerr + unit) \<times> reader \<times> os) option" where
  "reloadLocked r w =
     (case r_crcFile r of
        None \<Rightarrow> Some (Inl ErrFlock, r, w)
      | Some f \<Rightarrow>
          (case flockShared f w of
             None \<Rightarrow> None
           | Some (Inl e, w1) \<Rightarrow> Some (Inl e, r, w1)
           | Some (Inr _, w1) \<Rightarrow>
               (case reloadFrom (crcMem r w1) r w1 of (res, r1, w2) \<Rightarrow> Some (res, r1, flockUnlock f w2))))"

definition openLive :: "reader \<Rightarrow> os \<Rightarrow> ((goerr + unit) \<times> reader \<times> os) option" where
  "openLive r w =
     (case os_open_read (metaPath r) w of
        (Inl e, w1) \<Rightarrow> Some (Inl e, r, w1)
      | (Inr f, w1) \<Rightarrow>
          (case syscall w1 of
             (False, w2) \<Rightarrow> Some (Inl ErrStat, r, snd (os_close (fst f) (snd f) w2))
           | (True, w2) \<Rightarrow>
               (case mmapReadonly (length (files w2 (fst f))) w2 of
                  (Inl e, w3) \<Rightarrow> Some (Inl e, r, snd (os_close (fst f) (snd f) w3))
                | (Inr n, w3) \<Rightarrow> reloadLocked (r\<lparr>r_crcFile := Some f, r_crcMmap := Some n\<rparr>) w3)))"

definition Open :: "string \<Rightarrow> string \<Rightarrow> (reader \<Rightarrow> reader) list \<Rightarrow> os \<Rightarrow> ((goerr + reader) \<times> os) option" where
  "Open rootDir mmapID opts w =
     (let r = fold (\<lambda>opt r. opt r) opts
                \<lparr>r_rootDir = rootDir, r_mmapID = mmapID, r_dec = None, r_snap = None, r_crcFile = None,
                 r_crcMmap = None, r_loadedCRC = 0, r_loadedActual = 0, r_loadedSeq = 0, r_lastErr = None\<rparr>
      in case openLive r w of
           None \<Rightarrow> None
         | Some (Inl e, _, w1) \<Rightarrow> Some (Inl e, w1)
         | Some (Inr _, r1, w1) \<Rightarrow> Some (Inr r1, w1))"

text \<open>The canary of the mapped meta file; the index expressions panic on a closed reader.\<close>

definition metaTuple :: "reader \<Rightarrow> os \<Rightarrow> goerr + u32 \<times> u32 \<times> u32" where
  "metaTuple r w =
     (let mem = crcMem r w
      in if length mem < offActualSize + 4 then Inl Panic
         else Inr (getUint32 (drop offCRC mem), getUint32 (drop offActualSize mem),
                   getUint32 (drop offSequence mem)))"

definition tupleFresh :: "u32 \<times> u32 \<times> u32 \<Rightarrow> reader \<Rightarrow> bool" where
  "tupleFresh t r \<longleftrightarrow> t = (r_loadedCRC r, r_loadedActual r, r_loadedSeq r)"

definition ensureFresh :: "reader \<Rightarrow> os \<Rightarrow> ((goerr + unit) \<times> reader \<times> os) option" where
  "ensureFresh r w =
     (case metaTuple r w of
        Inl e \<Rightarrow> Some (Inl e, r, w)
      | Inr t \<Rightarrow>
          if tupleFresh t r then Some (Inr (), r, w)
          else (case reloadLocked r w of
                  None \<Rightarrow> None
                | Some (Inr _, r1, w1) \<Rightarrow> Some (Inr (), r1, w1)
                | Some (Inl e, r1, w1) \<Rightarrow>
                    if e = Panic then Some (Inl Panic, r1, w1)
                    else Some (Inr (), r1\<lparr>r_lastErr := Some e\<rparr>, w1)))"

definition r_Err :: "reader \<Rightarrow> goerr option" where
  "r_Err r = r_lastErr r"

definition r_Close :: "reader \<Rightarrow> os \<Rightarrow> (goerr + unit) \<times> reader \<times> os" where
  "r_Close r w =
     (let w1 = munmap (r_crcMmap r) w; r1 = r\<lparr>r_snap := None, r_crcMmap := None\<rparr>
      in case r_crcFile r1 of
           None \<Rightarrow> (Inr (), r1, w1)
         | Some f \<Rightarrow> (case os_close (fst f) (snd f) w1 of (e, w2) \<Rightarrow> (e, r1\<lparr>r_crcFile := None\<rparr>, w2)))"

section \<open>Reading\<close>

definition snapshot_value :: "u32 \<Rightarrow> bytes \<Rightarrow> snapshot \<Rightarrow> bytes option" where
  "snapshot_value now key s =
     (case gm_get (s_m s) key of
        None \<Rightarrow> None
      | Some v \<Rightarrow>
          if s_expire s \<and> length v \<ge> 4
          then let t = getUint32 (drop (length v - 4) v)
               in if t \<noteq> 0 \<and> t \<le> now then None else Some (take (length v - 4) v)
          else Some v)"

definition snapshot_bytesValue :: "u32 \<Rightarrow> bytes \<Rightarrow> snapshot \<Rightarrow> bytes option" where
  "snapshot_bytesValue now key s =
     (case snapshot_value now key s of
        None \<Rightarrow> None
      | Some v \<Rightarrow> (case fst (readBytes (newCodedInput v)) of Inl _ \<Rightarrow> None | Inr b \<Rightarrow> Some b))"

text \<open>
  \<^verbatim>\<open>r.current()\<close> and a read of the snapshot it returns; a nil snapshot is a nil-pointer panic.
\<close>

definition current :: "(u32 \<Rightarrow> snapshot \<Rightarrow> 'a) \<Rightarrow> reader \<Rightarrow> os \<Rightarrow> ((goerr + 'a) \<times> reader \<times> os) option" where
  "current f r w =
     (case ensureFresh r w of
        None \<Rightarrow> None
      | Some (Inl e, r1, w1) \<Rightarrow> Some (Inl e, r1, w1)
      | Some (Inr _, r1, w1) \<Rightarrow>
          (case r_snap r1 of
             None \<Rightarrow> Some (Inl Panic, r1, w1)
           | Some s \<Rightarrow> Some (Inr (f (nowUnix w1) s), r1, w1)))"

definition r_scalar :: "(codedInput \<Rightarrow> (goerr + 'a) \<times> codedInput) \<Rightarrow> bytes \<Rightarrow> u32 \<Rightarrow> snapshot \<Rightarrow> 'a option" where
  "r_scalar rd key now s =
     (case snapshot_value now key s of
        None \<Rightarrow> None
      | Some v \<Rightarrow> (case fst (rd (newCodedInput v)) of Inl _ \<Rightarrow> None | Inr x \<Rightarrow> Some x))"

definition Keys :: "reader \<Rightarrow> os \<Rightarrow> ((goerr + bytes list) \<times> reader \<times> os) option" where
  "Keys = current (\<lambda>now s. sort_Strings (filter (\<lambda>k. snapshot_value now k s \<noteq> None) (gm_keys (s_m s))))"

definition r_Contains :: "bytes \<Rightarrow> reader \<Rightarrow> os \<Rightarrow> ((goerr + bool) \<times> reader \<times> os) option" where
  "r_Contains key = current (\<lambda>now s. snapshot_value now key s \<noteq> None)"

definition r_GetBytes :: "bytes \<Rightarrow> reader \<Rightarrow> os \<Rightarrow> ((goerr + bytes option) \<times> reader \<times> os) option" where
  "r_GetBytes key = current (\<lambda>now s. snapshot_bytesValue now key s)"

definition r_GetBytesCopy :: "bytes \<Rightarrow> reader \<Rightarrow> os \<Rightarrow> ((goerr + bytes option) \<times> reader \<times> os) option" where
  "r_GetBytesCopy key = current (\<lambda>now s. snapshot_bytesValue now key s)"

definition r_GetString :: "bytes \<Rightarrow> reader \<Rightarrow> os \<Rightarrow> ((goerr + bytes option) \<times> reader \<times> os) option" where
  "r_GetString key = current (\<lambda>now s. snapshot_bytesValue now key s)"

definition r_GetStringCopy :: "bytes \<Rightarrow> reader \<Rightarrow> os \<Rightarrow> ((goerr + bytes option) \<times> reader \<times> os) option" where
  "r_GetStringCopy key = current (\<lambda>now s. snapshot_bytesValue now key s)"

definition r_GetBool :: "bytes \<Rightarrow> reader \<Rightarrow> os \<Rightarrow> ((goerr + bool option) \<times> reader \<times> os) option" where
  "r_GetBool key = current (r_scalar readBool key)"

definition r_GetInt32 :: "bytes \<Rightarrow> reader \<Rightarrow> os \<Rightarrow> ((goerr + u32 option) \<times> reader \<times> os) option" where
  "r_GetInt32 key = current (r_scalar readInt32 key)"

definition r_GetInt64 :: "bytes \<Rightarrow> reader \<Rightarrow> os \<Rightarrow> ((goerr + u64 option) \<times> reader \<times> os) option" where
  "r_GetInt64 key = current (r_scalar readVarint64 key)"

definition r_GetUInt32 :: "bytes \<Rightarrow> reader \<Rightarrow> os \<Rightarrow> ((goerr + u32 option) \<times> reader \<times> os) option" where
  "r_GetUInt32 key = current (r_scalar readUInt32 key)"

definition r_GetUInt64 :: "bytes \<Rightarrow> reader \<Rightarrow> os \<Rightarrow> ((goerr + u64 option) \<times> reader \<times> os) option" where
  "r_GetUInt64 key = current (r_scalar readVarint64 key)"

definition r_GetFloat32 :: "bytes \<Rightarrow> reader \<Rightarrow> os \<Rightarrow> ((goerr + u32 option) \<times> reader \<times> os) option" where
  "r_GetFloat32 key = current (r_scalar readFixed32 key)"

definition r_GetFloat64 :: "bytes \<Rightarrow> reader \<Rightarrow> os \<Rightarrow> ((goerr + u64 option) \<times> reader \<times> os) option" where
  "r_GetFloat64 key = current (r_scalar readFixed64 key)"

end
