(* ===== verification/ReaderProps.thy ===== *)
theory ReaderProps
  imports Processes Reader
begin

text \<open>
  The lock-free \<^verbatim>\<open>Reader\<close> and the read/write instance agree: a snapshot of the files of a store shows the
  map the store holds, and a reader that has seen one state of the store sees the next one after a
  write of another process.
\<close>

section \<open>Snapshots\<close>

text \<open>The reader's decryption hook fits the key of the store.\<close>

definition reads_as :: "reader \<Rightarrow> block option \<Rightarrow> bool" where
  "reads_as r c \<longleftrightarrow> r_dec r = map_option Decrypt c"

definition snap_ok :: "snapshot \<Rightarrow> metaInfo \<Rightarrow> kvlog \<Rightarrow> bool" where
  "snap_ok s mi ps \<longleftrightarrow> gm_get (s_m s) = log_map ps \<and> gm_inv (s_m s) \<and> s_meta s = mi \<and>
     s_expire s = (versionFlag \<le> mi_version mi \<and> expireEnabled mi)"

lemma buildSnapshot_ok:
  assumes "on_disk c D M mi ps" "reads_as r c" "faults w = []" "lookup w (dataPath r) = Some i" "files w i = D"
  obtains s where "buildSnapshot r M w = (Inr s, w)" "snap_ok s mi ps"
proof -
  let ?a = "disk_actual mi D" and ?R = "region_at (disk_actual mi D) D"
  have d: "parseMeta M = Inr mi" "\<not> maxSupportedVersion < mi_version mi" "in_file ?a D"
    "crc32_ChecksumIEEE ?R = mi_crcDigest mi" "region_log c (mi_iv mi) ?R ps"
    using assms(1) by (auto simp: on_disk_def not_less)
  have iv: "length (mi_iv mi) = 16" using parseMeta_wf [OF d(1)] by (simp add: meta_wf_def)
  obtain plain v where p: "plain_region c (mi_iv mi) ?R = Inr plain" "parseDict plain = Inr v" "views_ok plain v"
    "view_map plain v = log_map ps" by (rule region_log_parse [OF iv d(5)])
  have act: "(if mi_version mi \<ge> versionActualSize then mi_actualSize mi
      else if length D \<ge> 4 then getUint32 D else 0) = ?a"
    using d(3) by (simp add: disk_actual_def in_file_def)
  have sl: "go_slice 4 (unat (4 + ?a)) D = Inr ?R" "\<not> length D < unat ?a + 4"
    using d(3) by (simp_all add: go_slice_def region_at_def in_file_def unat_add4)
  have dec: "(case r_dec r of None \<Rightarrow> Inr ?R | Some f \<Rightarrow> f ?R (mi_iv mi)) = Inr plain"
    using p(1) assms(2) by (cases c) (simp_all add: reads_as_def plain_region_def)
  let ?s = "\<lparr>s_meta = mi, s_m = map (\<lambda>(k, v). (k, view_bytes plain v)) v,
      s_expire = (mi_version mi \<ge> versionFlag \<and> expireEnabled mi)\<rparr>"
  have "buildSnapshot r M w = (Inr ?s, w)"
    unfolding buildSnapshot_def os_ReadFile_def using assms(3-5) d(1,2,4) act sl dec p(2) by (simp add: Let_def)
  moreover have "snap_ok ?s mi ps"
    using p(3,4) by (simp add: snap_ok_def gm_get_map gm_inv_map view_map_def views_ok_def)
  ultimately show thesis by (rule that)
qed

lemma snapshot_value_ok:
  assumes "snap_ok s mi ps"
  shows "snapshot_value now k s = Option.bind (log_map ps k) (live_value (s_expire s) now)"
  using assms by (auto simp: snap_ok_def snapshot_value_def live_value_def Let_def split: option.split)

section \<open>A reader on the files of a store\<close>

definition loaded_tuple :: "reader \<Rightarrow> u32 \<times> u32 \<times> u32" where
  "loaded_tuple r = (r_loadedCRC r, r_loadedActual r, r_loadedSeq r)"

definition canary :: "metaInfo \<Rightarrow> u32 \<times> u32 \<times> u32" where
  "canary mi = (mi_crcDigest mi, mi_actualSize mi, mi_sequence mi)"

text \<open>The reader maps the meta file of the store and can take the shared lock.\<close>

definition reader_on :: "reader \<Rightarrow> nat \<Rightarrow> nat \<Rightarrow> os \<Rightarrow> bool" where
  "reader_on r di ji w \<longleftrightarrow>
     faults w = [] \<and> lookup w (dataPath r) = Some di \<and>
     (\<exists>ofd. r_crcFile r = Some (ji, ofd) \<and> r_crcMmap r = Some (length (files w ji)) \<and> ofd \<notin> set (closedOfds w) \<and>
        compatible SharedLock (others ofd (flocks w ji)))"

definition up_to_date :: "reader \<Rightarrow> metaInfo \<Rightarrow> kvlog \<Rightarrow> bool" where
  "up_to_date r mi ps \<longleftrightarrow> loaded_tuple r = canary mi \<and> (\<exists>s. r_snap r = Some s \<and> snap_ok s mi ps)"

lemma crcMem_ok: "reader_on r di ji w \<Longrightarrow> crcMem r w = files w ji"
  by (auto simp: reader_on_def crcMem_def)

lemma metaTuple_ok:
  assumes "reader_on r di ji w" "parseMeta (files w ji) = Inr mi"
  shows "metaTuple r w = Inr (canary mi)"
  using assms(2) unfolding metaTuple_def crcMem_ok [OF assms(1)]
  by (auto simp: parseMeta_def canary_def meta_offsets Let_def split: if_splits)

lemma reloadLocked_ok:
  assumes "reader_on r di ji w" "reads_as r c" "on_disk c (files w di) (files w ji) mi ps"
  obtains r' w' where "reloadLocked r w = Some (Inr (), r', w')" "up_to_date r' mi ps" "reader_on r' di ji w'"
    "reads_as r' c" "files w' = files w" "nowUnix w' = nowUnix w"
    "\<exists>ofd. r_crcFile r = Some (ji, ofd) \<and> w' = set_locks ji (others ofd (flocks w ji)) w"
proof -
  obtain ofd where o: "r_crcFile r = Some (ji, ofd)" "ofd \<notin> set (closedOfds w)"
    "compatible SharedLock (others ofd (flocks w ji))" and f: "faults w = []" "lookup w (dataPath r) = Some di"
    using assms(1) by (auto simp: reader_on_def)
  let ?w1 = "set_locks ji ((ofd, SharedLock) # others ofd (flocks w ji)) w"
  have lk: "flockShared (ji, ofd) w = Some (Inr (), ?w1)"
    using o f by (simp add: flockShared_def flock_wait_def)
  have w1: "faults ?w1 = []" "lookup ?w1 (dataPath r) = Some di" "files ?w1 di = files w di"
    using f by (simp_all add: lookup_def)
  have cm: "crcMem r ?w1 = files w ji" using crcMem_ok [OF assms(1)] by (auto simp: crcMem_def split: option.splits)
  obtain s where s: "buildSnapshot r (files w ji) ?w1 = (Inr s, ?w1)" "snap_ok s mi ps"
    by (rule buildSnapshot_ok [OF assms(3,2) w1])
  let ?r = "r\<lparr>r_snap := Some s, r_loadedCRC := mi_crcDigest (s_meta s), r_loadedActual := mi_actualSize (s_meta s),
      r_loadedSeq := mi_sequence (s_meta s)\<rparr>"
  let ?w2 = "flockUnlock (ji, ofd) ?w1"
  have un: "?w2 = set_locks ji (others ofd (flocks w ji)) w"
    using o f by (simp add: flockUnlock_def flock_un_def set_locks_def)
  have "reloadLocked r w = Some (Inr (), ?r, ?w2)"
    using o(1) lk cm s(1) by (simp add: reloadLocked_def reloadFrom_def)
  moreover have "up_to_date ?r mi ps"
    using s(2) by (simp add: up_to_date_def loaded_tuple_def canary_def snap_ok_def)
  moreover have "reader_on ?r di ji ?w2"
    using assms(1) o unfolding un by (auto simp: reader_on_def lookup_def dataPath_def)
  ultimately show thesis
    using assms(2) o(1) by (intro that [of ?r ?w2]) (simp_all add: reads_as_def un)
qed

text \<open>Reading through a reader that is up to date, or that can notice that it is not.\<close>

lemma current_ok:
  assumes "reader_on r di ji w" "reads_as r c" "on_disk c (files w di) (files w ji) mi ps"
    and "up_to_date r mi ps \<or> loaded_tuple r \<noteq> canary mi"
  obtains s r' w' where "current f r w = Some (Inr (f (nowUnix w) s), r', w')" "snap_ok s mi ps"
    "up_to_date r' mi ps" "reader_on r' di ji w'" "reads_as r' c" "files w' = files w"
proof -
  have pm: "parseMeta (files w ji) = Inr mi" using assms(3) by (simp add: on_disk_def)
  note t = metaTuple_ok [OF assms(1) pm]
  show thesis
  proof (cases "loaded_tuple r = canary mi")
    case True
    then obtain s where s: "r_snap r = Some s" "snap_ok s mi ps" using assms(4) by (auto simp: up_to_date_def)
    have "ensureFresh r w = Some (Inr (), r, w)"
      using t True by (simp add: ensureFresh_def tupleFresh_def loaded_tuple_def)
    then show thesis
      using s True assms(1,2,4) by (intro that [of s r w]) (simp_all add: current_def)
  next
    case False
    obtain r' w' where r: "reloadLocked r w = Some (Inr (), r', w')" "up_to_date r' mi ps" "reader_on r' di ji w'"
      "reads_as r' c" "files w' = files w" "nowUnix w' = nowUnix w"
      by (rule reloadLocked_ok [OF assms(1-3)])
    then obtain s where s: "r_snap r' = Some s" "snap_ok s mi ps" by (auto simp: up_to_date_def)
    have "ensureFresh r w = Some (Inr (), r', w')"
      using t False r(1) by (auto simp: ensureFresh_def tupleFresh_def loaded_tuple_def)
    then show thesis
      using s r by (intro that [of s r' w']) (simp_all add: current_def)
  qed
qed

section \<open>Getters of the reader and of the instance\<close>

text \<open>Both calls return, with the same result.\<close>

definition same_result :: "((goerr + 'a) \<times> 'b) option \<Rightarrow> ((goerr + 'a) \<times> 'c) option \<Rightarrow> bool" where
  "same_result a b \<longleftrightarrow> (\<exists>x s t. a = Some (Inr x, s) \<and> b = Some (Inr x, t))"

definition agrees :: "reader \<Rightarrow> mmkv \<Rightarrow> os \<Rightarrow> bytes \<Rightarrow> bool" where
  "agrees r m w k \<longleftrightarrow>
     same_result (r_GetBool k r w) (GetBool k m w) \<and> same_result (r_GetInt32 k r w) (GetInt32 k m w) \<and>
     same_result (r_GetInt64 k r w) (GetInt64 k m w) \<and> same_result (r_GetUInt32 k r w) (GetUInt32 k m w) \<and>
     same_result (r_GetUInt64 k r w) (GetUInt64 k m w) \<and> same_result (r_GetFloat32 k r w) (GetFloat32 k m w) \<and>
     same_result (r_GetFloat64 k r w) (GetFloat64 k m w) \<and> same_result (r_GetBytesCopy k r w) (GetBytesCopy k m w) \<and>
     same_result (r_GetStringCopy k r w) (GetStringCopy k m w) \<and> same_result (r_Contains k r w) (Contains k m w) \<and>
     same_result (Keys r w) (AllKeys m w)"

text \<open>A reader on the files of an instance, up to date or able to notice that it is not.\<close>

definition watches :: "reader \<Rightarrow> mmkv \<Rightarrow> os \<Rightarrow> metaInfo \<Rightarrow> kvlog \<Rightarrow> bool" where
  "watches r m w mi ps \<longleftrightarrow>
     reader_on r (mf_ino (m_data m)) (mf_ino (m_meta m)) w \<and> reads_as r (m_crypt m) \<and>
     on_disk (m_crypt m) (data_file m w) (meta_file m w) mi ps \<and>
     (up_to_date r mi ps \<or> loaded_tuple r \<noteq> canary mi)"

lemma current_result:
  assumes "watches r m w mi ps"
    and "\<And>s. gm_inv (s_m s) \<Longrightarrow> (\<And>k. snapshot_value (nowUnix w) k s = visible_of (env_of m w) (log_map ps) k) \<Longrightarrow>
      dom (visible_of (env_of m w) (log_map ps)) \<subseteq> set (gm_keys (s_m s)) \<Longrightarrow> f (nowUnix w) s = x"
    and "\<exists>m' w'. b = Some (Inr x, m', w') \<and> R m' w'"
  shows "same_result (current f r w) b"
proof -
  obtain s r' w' where s: "current f r w = Some (Inr (f (nowUnix w) s), r', w')" "snap_ok s mi ps"
    by (rule current_ok [of r "mf_ino (m_data m)" "mf_ino (m_meta m)" w "m_crypt m" mi ps f])
      (use assms(1) in \<open>simp_all add: watches_def\<close>)
  have pm: "parseMeta (meta_file m w) = Inr mi" using assms(1) by (simp add: watches_def on_disk_def)
  have v: "snapshot_value (nowUnix w) k s = visible_of (env_of m w) (log_map ps) k" for k
    using snapshot_value_ok [OF s(2), of "nowUnix w" k] s(2) pm
    by (simp add: visible_of_def env_of_def disk_expire_def snap_ok_def)
  have d: "dom (visible_of (env_of m w) (log_map ps)) \<subseteq> set (gm_keys (s_m s))"
    using s(2) by (auto simp: snap_ok_def gm.set_keys visible_of_def bind_eq_Some_conv)
  have "gm_inv (s_m s)" using s(2) by (simp add: snap_ok_def)
  then show ?thesis using s(1) assms(2) [OF _ v d] assms(3) by (auto simp: same_result_def)
qed

lemma reader_scalar:
  assumes "watches r m w mi ps" "holds m w (log_map ps)"
  shows "same_result (current (r_scalar rd k) r w) (readOp None (scalarValue rd k) m w)"
  by (rule current_result [OF assms(1) _ scalar_get.holds_read [OF assms(2)]])
    (simp add: r_scalar_def decode_with_def split: option.split)

lemma reader_bytes:
  assumes "watches r m w mi ps" "holds m w (log_map ps)"
  shows "same_result (current (\<lambda>now. snapshot_bytesValue now k) r w) (readOp None (bytesCopy k) m w)"
  by (rule current_result [OF assms(1) _ bytes_get.holds_read [OF assms(2)]])
    (simp add: snapshot_bytesValue_def decode_with_def split: option.split)

lemma reader_contains:
  assumes "watches r m w mi ps" "holds m w (log_map ps)"
  shows "same_result (r_Contains k r w) (Contains k m w)"
  unfolding r_Contains_def Contains_def
  by (rule current_result [OF assms(1) _ contains_get.holds_read [OF assms(2)]]) (simp add: domIff)

lemma reader_keys:
  assumes "watches r m w mi ps" "holds m w (log_map ps)"
  shows "same_result (Keys r w) (AllKeys m w)"
  unfolding Keys_def AllKeys_def
proof (rule current_result [OF assms(1) _ keys_get.holds_read [OF assms(2)]])
  fix s :: snapshot
  let ?v = "visible_of (env_of m w) (log_map ps)"
  assume a: "gm_inv (s_m s)" "\<And>k. snapshot_value (nowUnix w) k s = ?v k" "dom ?v \<subseteq> set (gm_keys (s_m s))"
  let ?ks = "filter (\<lambda>k. ?v k \<noteq> None) (gm_keys (s_m s))"
  have "set ?ks = dom ?v" "distinct ?ks" using a(3) gm.distinct_keys [OF a(1)] by auto
  then show "sort_Strings (filter (\<lambda>k. snapshot_value (nowUnix w) k s \<noteq> None) (gm_keys (s_m s))) = sorted_list_of_set (dom ?v)"
    unfolding a(2) using sorted_list_of_set_sort_remdups [of ?ks] by (simp add: sort_Strings_def distinct_remdups_id)
qed

lemma watches_agrees:
  assumes "watches r m w mi ps" "holds m w (log_map ps)"
  shows "agrees r m w k"
  by (simp add: agrees_def reader_scalar [OF assms] reader_bytes [OF assms] reader_contains [OF assms] reader_keys [OF assms] r_GetBool_def r_GetInt32_def r_GetInt64_def r_GetUInt32_def r_GetUInt64_def
      r_GetFloat32_def r_GetFloat64_def r_GetBytesCopy_def r_GetStringCopy_def GetBool_def GetInt32_def GetInt64_def
      GetUInt32_def GetUInt64_def GetFloat32_def GetFloat64_def GetBytesCopy_def GetStringCopy_def)


section \<open>Opening a reader\<close>

definition reader_opts :: "bytes \<Rightarrow> (reader \<Rightarrow> reader) list" where
  "reader_opts key = (if key = [] then [] else [WithEncryption key])"

lemma Open_ok:
  assumes flt: "faults w = []" and wf: "os_wf w" and disk: "on_disk c (files w di) (files w ji) mi ps"
    and names: "lookup w (dataPathFor root mid) = Some di" "lookup w (dataPathFor root mid @ crcSuffix) = Some ji"
    and lk: "compatible SharedLock (flocks w ji)" and key: "c = (if key = [] then None else Some (newAESCFB key))"
  obtains r where "Open root mid (reader_opts key) w = Some (Inr r, w\<lparr>nextOfd := nextOfd w + 1\<rparr>)"
    "reader_on r di ji (w\<lparr>nextOfd := nextOfd w + 1\<rparr>)" "reads_as r c" "up_to_date r mi ps"
proof -
  let ?r0 = "\<lparr>r_rootDir = root, r_mmapID = mid, r_dec = map_option Decrypt c, r_snap = None, r_crcFile = None,
      r_crcMmap = None, r_loadedCRC = 0, r_loadedActual = 0, r_loadedSeq = 0, r_lastErr = None\<rparr>"
  let ?w1 = "w\<lparr>nextOfd := nextOfd w + 1\<rparr>"
  let ?r1 = "?r0\<lparr>r_crcFile := Some (ji, nextOfd w), r_crcMmap := Some (length (files w ji))\<rparr>"
  have size: "\<not> length (files w ji) < metaSize" using disk by (auto simp: on_disk_def parseMeta_def split: if_splits)
  have ofd: "nextOfd w \<notin> set (closedOfds w)" "\<forall>x\<in>set (flocks w ji). fst x < nextOfd w"
    using wf by (auto simp: os_wf_def)
  have oth: "others (nextOfd w) (flocks w ji) = flocks w ji" using ofd(2) by (auto simp: others_def filter_id_conv)
  then have on: "reader_on ?r1 di ji ?w1" and rd: "reads_as ?r1 c" and dk: "on_disk c (files ?w1 di) (files ?w1 ji) mi ps"
    using flt names lk ofd(1) disk by (simp_all add: reader_on_def lookup_def dataPath_def reads_as_def)
  obtain r w' where r: "reloadLocked ?r1 ?w1 = Some (Inr (), r, w')" "up_to_date r mi ps" "reader_on r di ji w'"
    "reads_as r c" "files w' = files ?w1" "nowUnix w' = nowUnix ?w1"
    "\<exists>ofd. r_crcFile ?r1 = Some (ji, ofd) \<and> w' = set_locks ji (others ofd (flocks ?w1 ji)) ?w1"
    by (rule reloadLocked_ok [OF on rd dk])
  have w': "w' = ?w1" using r(7) oth by (simp add: set_locks_def)
  have "openLive ?r0 w = Some (Inr (), r, w')"
    unfolding openLive_def os_open_read_def mmapReadonly_def
    using flt names(2) size r(1) by (simp add: metaPath_def dataPath_def)
  moreover have "fold (\<lambda>opt r. opt r) (reader_opts key) (?r0\<lparr>r_dec := None\<rparr>) = ?r0"
    using key by (simp add: reader_opts_def WithEncryption_def)
  ultimately have "Open root mid (reader_opts key) w = Some (Inr r, w')" by (simp add: Open_def)
  then show thesis using r(2-4) unfolding w' by (intro that)
qed

text \<open>An instance is not affected when another description is opened.\<close>

lemma holds_nextOfd: "holds m (w\<lparr>nextOfd := n\<rparr>) c = holds m w c"
proof -
  have "files (w\<lparr>nextOfd := n\<rparr>) = files w" by simp
  note cong = mf_cong [OF this] loaded_cong [OF this]
  show ?thesis
    by (simp add: holds_def session_def attached_def fresh_def can_write_def idle_def fl_inv_def held_def cong)
qed

section \<open>Properties\<close>

text \<open>
  C9: a \<^verbatim>\<open>Reader\<close> opened on the files of a store with the key of the store agrees with the instance: for
  every key, all its getters return what the getters of the instance return (expiration included), it
  lists the same keys, and opening it changes nothing but the descriptor counter.
\<close>

theorem reader_agrees_with_instance:
  assumes "holds m w c" "os_wf w" "compatible SharedLock (flocks w (mf_ino (m_meta m)))"
    and "lookup w (dataPathFor root mid) = Some (mf_ino (m_data m))"
      "lookup w (dataPathFor root mid @ crcSuffix) = Some (mf_ino (m_meta m))"
    and "m_crypt m = (if key = [] then None else Some (newAESCFB key))"
  shows "\<exists>r w'. Open root mid (reader_opts key) w = Some (Inr r, w') \<and> w' = w\<lparr>nextOfd := nextOfd w + 1\<rparr> \<and>
    holds m w' c \<and> (\<forall>k. agrees r m w' k)"
proof -
  obtain mi ps where s: "on_disk (m_crypt m) (data_file m w) (meta_file m w) mi ps" "log_map ps = c" "faults w = []"
    using assms(1) by (auto simp: holds_def session_def attached_def)
  let ?w = "w\<lparr>nextOfd := nextOfd w + 1\<rparr>"
  obtain r where r: "Open root mid (reader_opts key) w = Some (Inr r, ?w)"
    "reader_on r (mf_ino (m_data m)) (mf_ino (m_meta m)) ?w" "reads_as r (m_crypt m)" "up_to_date r mi ps"
    by (rule Open_ok [OF s(3) assms(2) s(1) assms(4,5,3,6)])
  have h: "holds m ?w (log_map ps)" using assms(1) s(2) by (simp add: holds_nextOfd)
  have "watches r m ?w mi ps" using r s(1) by (simp add: watches_def)
  then show ?thesis using r(1) h s(2) watches_agrees [OF _ h] by blast
qed

theorem reader_agrees_with_instance_witness:
  "holds ex_m1 ex_w1 [[107] \<mapsto> [1, 7]] \<and>
   (\<exists>r w'. Open ''/tmp'' ''kv'' [] ex_w1 = Some (Inr r, w') \<and> agrees r ex_m1 w' [107])"
proof -
  have lk: "compatible SharedLock (flocks ex_w1 (mf_ino (m_meta ex_m1)))" by (simp add: ex_kv1_files compatible_def)
  have c: "m_crypt ex_m1 = (if [] = [] then None else Some (newAESCFB []))" by (simp add: ex_kv1_plain)
  show ?thesis
    using ex_kv1(1) reader_agrees_with_instance [OF ex_kv1(1) ex_kv1_files(3) lk ex_kv1_files(1,2) [folded ex_path] c]
    by (auto simp: reader_opts_def)
qed

text \<open>What a write of an instance means to a reader: it stays up to date, or its canary has moved.\<close>

lemma canary_moves:
  assumes up: "up_to_date r mi ps" and step: "disk_step m w mi w' mi'" and multi: "m_multiProcess m"
    and disk: "on_disk c (data_file m w) (meta_file m w) mi ps" "on_disk c (data_file m w') (meta_file m w') mi' ps'"
  shows "up_to_date r mi' ps' \<or> loaded_tuple r \<noteq> canary mi'"
proof (cases "data_file m w' = data_file m w \<and> meta_file m w' = meta_file m w")
  case True
  then have "mi' = mi" using disk by (simp add: on_disk_def)
  moreover from this have "log_map ps' = log_map ps" using on_disk_unique [OF disk(1)] disk(2) True by simp
  ultimately show ?thesis using up by (auto simp: up_to_date_def snap_ok_def)
next
  case False
  have "canary mi' \<noteq> canary mi"
  proof (cases "mi_sequence mi' = mi_sequence mi + 1")
    case True
    have "mi_sequence mi + 1 \<noteq> mi_sequence mi" by simp
    then show ?thesis using True unfolding canary_def by (metis prod.inject)
  next
    case neq: False
    then have v: "versionFlag \<le> mi_version mi" "disk_actual mi (data_file m w) < mi_actualSize mi'"
      using step multi False unfolding disk_step_def by metis+
    then have "mi_actualSize mi < mi_actualSize mi'"
      using versionFlag_actual [OF v(1)] by (simp add: disk_actual_def)
    then show ?thesis by (auto simp: canary_def)
  qed
  then show ?thesis using up unfolding up_to_date_def by metis
qed

lemma watches_write:
  assumes mem: "member di ji c m w" and att: "attached m w mi ps" and free: "flocks w ji = []"
    and r: "reader_on r di ji w" "reads_as r c" "up_to_date r mi ps"
    and inv: "store_inv m' w' ps'" and fr: "op_frame m w w'" and k: "keeps m m'" and step: "disk_step m w mi w' (m_info m')"
    and cr: "m_crypt m' = c"
  shows "watches r m' w' (m_info m') ps'"
proof -
  note f = store_inv_facts [OF inv]
  have ino: "mf_ino (m_data m) = di" "mf_ino (m_meta m) = ji" "mf_ino (m_data m') = di" "mf_ino (m_meta m') = ji"
    "m_crypt m = c" "m_multiProcess m" using mem k by (auto simp: member_def keeps_def)
  have disk: "on_disk c (data_file m' w') (meta_file m' w') (m_info m') ps'" using f(2) cr by (simp add: synced_def)
  have len: "length (files w' ji) = length (files w ji)"
    using f(6) att k ino by (simp add: mf_mapped_def keeps_def attached_def)
  have "reader_on r di ji w'"
    using r(1) fr len member_unlocked [OF mem free fr]
    by (auto simp: reader_on_def op_frame_def lookup_def others_def compatible_def)
  moreover have "up_to_date r (m_info m') ps' \<or> loaded_tuple r \<noteq> canary (m_info m')"
    by (rule canary_moves [OF r(3) step ino(6)]) (use att disk ino in \<open>simp_all add: attached_def\<close>)
  ultimately show ?thesis using r(2) disk cr ino by (simp add: watches_def)
qed



end
