(* ===== verification/Writer.thy ===== *)
theory Writer
  imports Dict Meta MemFile
begin

text \<open>
  The one-shot \<^verbatim>\<open>Writer\<close> of \<^verbatim>\<open>writer.go\<close>: keys in order of first assignment with their latest blobs,
  and \<^verbatim>\<open>Flush\<close>, which writes the data file and then the meta file of a fresh store.
\<close>

record writer =
  w_rootDir :: string
  w_mmapID :: string
  w_order :: "bytes list"
  w_blob :: "bytes gomap"

definition NewWriter :: "string \<Rightarrow> string \<Rightarrow> writer" where
  "NewWriter rootDir mmapID = \<lparr>w_rootDir = rootDir, w_mmapID = mmapID, w_order = [], w_blob = []\<rparr>"

definition w_set :: "bytes \<Rightarrow> bytes \<Rightarrow> writer \<Rightarrow> writer" where
  "w_set key b wr =
     wr\<lparr>w_order := (if gm_get (w_blob wr) key = None then w_order wr @ [key] else w_order wr),
        w_blob := gm_put key b (w_blob wr)\<rparr>"

definition w_SetBool :: "bytes \<Rightarrow> bool \<Rightarrow> writer \<Rightarrow> writer" where
  "w_SetBool key v = w_set key (boolBlob v)"

definition w_SetInt32 :: "bytes \<Rightarrow> u32 \<Rightarrow> writer \<Rightarrow> writer" where
  "w_SetInt32 key v = w_set key (int32Blob v)"

definition w_SetInt64 :: "bytes \<Rightarrow> u64 \<Rightarrow> writer \<Rightarrow> writer" where
  "w_SetInt64 key v = w_set key (int64Blob v)"

definition w_SetUInt32 :: "bytes \<Rightarrow> u32 \<Rightarrow> writer \<Rightarrow> writer" where
  "w_SetUInt32 key v = w_set key (uint32Blob v)"

definition w_SetUInt64 :: "bytes \<Rightarrow> u64 \<Rightarrow> writer \<Rightarrow> writer" where
  "w_SetUInt64 key v = w_set key (uint64Blob v)"

definition w_SetFloat32 :: "bytes \<Rightarrow> u32 \<Rightarrow> writer \<Rightarrow> writer" where
  "w_SetFloat32 key v = w_set key (float32Blob v)"

definition w_SetFloat64 :: "bytes \<Rightarrow> u64 \<Rightarrow> writer \<Rightarrow> writer" where
  "w_SetFloat64 key v = w_set key (float64Blob v)"

definition w_SetString :: "bytes \<Rightarrow> bytes \<Rightarrow> writer \<Rightarrow> writer" where
  "w_SetString key v = w_set key (stringBlob v)"

definition w_SetBytes :: "bytes \<Rightarrow> bytes \<Rightarrow> writer \<Rightarrow> writer" where
  "w_SetBytes key v = w_set key (bytesBlob v)"

definition w_SetStringSlice :: "bytes \<Rightarrow> bytes list \<Rightarrow> writer \<Rightarrow> writer" where
  "w_SetStringSlice key v = w_set key (stringSliceBlob v)"

definition w_region :: "writer \<Rightarrow> bytes" where
  "w_region wr = encodeRegion (w_order wr) (\<lambda>k. case gm_get (w_blob wr) k of None \<Rightarrow> [] | Some b \<Rightarrow> b)"

definition flush_meta :: "bytes \<Rightarrow> metaInfo" where
  "flush_meta region =
     \<lparr>mi_crcDigest = crc32_ChecksumIEEE region, mi_version = versionFlag, mi_sequence = 1,
      mi_iv = replicate 16 0, mi_actualSize = of_nat (length region),
      mi_lastActualSize = of_nat (length region), mi_lastCRCDigest = crc32_ChecksumIEEE region, mi_flags = 0\<rparr>"

text \<open>
  The data file is written and synced before the meta file is opened.  The deferred \<^verbatim>\<open>close\<close> calls run
  when the function returns, the later one first; their errors are dropped.
\<close>

definition flushData :: "bytes \<Rightarrow> memoryFile \<Rightarrow> os \<Rightarrow> (goerr + unit) \<times> os" where
  "flushData region df w =
     (case mem_put df 0 (replicate 4 0) w of
        Inl e \<Rightarrow> (Inl e, w)
      | Inr w1 \<Rightarrow>
          let actual = of_nat (length region) :: u32; hi = unat (4 + actual)
          in if hi < 4 \<or> length (memory df w1) < hi then (Inl Panic, w1)
             else (case mem_put df 4 (take (hi - 4) region) w1 of
                     Inl e \<Rightarrow> (Inl e, w1)
                   | Inr w2 \<Rightarrow> msync True df w2))"

definition flushMeta :: "bytes \<Rightarrow> string \<Rightarrow> os \<Rightarrow> (goerr + unit) \<times> os" where
  "flushMeta region path w =
     (case openMemoryFile path metaSize w of
        (Inl e, w1) \<Rightarrow> (Inl e, w1)
      | (Inr mf, w1) \<Rightarrow>
          (case mem_copy mf 0 (marshal (flush_meta region)) w1 of
             Inl e \<Rightarrow> (Inl e, snd (snd (mf_close mf w1)))
           | Inr w2 \<Rightarrow> (case msync True mf w2 of (r, w3) \<Rightarrow> (r, snd (snd (mf_close mf w3))))))"

definition Flush :: "writer \<Rightarrow> os \<Rightarrow> (goerr + unit) \<times> os" where
  "Flush wr w =
     (let region = w_region wr; path = dataPathFor (w_rootDir wr) (w_mmapID wr);
          actual = of_nat (length region) :: u32
      in case syscall w of
           (False, w1) \<Rightarrow> (Inl ErrMkdir, w1)
         | (True, w1) \<Rightarrow>
             (case openMemoryFile path (unat actual + 4) w1 of
                (Inl e, w2) \<Rightarrow> (Inl e, w2)
              | (Inr df, w2) \<Rightarrow>
                  (case flushData region df w2 of
                     (Inl e, w3) \<Rightarrow> (Inl e, snd (snd (mf_close df w3)))
                   | (Inr _, w3) \<Rightarrow>
                       (case flushMeta region (path @ crcSuffix) w3 of
                          (r, w4) \<Rightarrow> (r, snd (snd (mf_close df w4)))))))"

end
