(* ===== verification/WriterProps.thy ===== *)
theory WriterProps
  imports ReaderProps Writer
begin

text \<open>
  The one-shot \<^verbatim>\<open>Writer\<close>: its setters build a map, and \<^verbatim>\<open>Flush\<close> writes a store that both the \<^verbatim>\<open>Reader\<close> and
  the read/write instance open to exactly that map.
\<close>

section \<open>The builder\<close>

definition w_inv :: "writer \<Rightarrow> bool" where
  "w_inv wr \<longleftrightarrow> gm_inv (w_blob wr) \<and> distinct (w_order wr) \<and> set (w_order wr) = dom (gm_get (w_blob wr))"

lemma w_inv_new: "w_inv (NewWriter root mid)"
  by (auto simp: w_inv_def NewWriter_def gm.inv_empty)

lemma w_inv_set: "w_inv wr \<Longrightarrow> w_inv (w_set k b wr)"
  by (auto simp: w_inv_def w_set_def gm.inv_put gm.get_put)

lemma w_blob_set: "gm_get (w_blob (w_set k b wr)) = (gm_get (w_blob wr))(k \<mapsto> b)"
  by (simp add: w_set_def gm.get_put)

lemma w_fields:
  "gm_get (w_blob (NewWriter root mid)) = Map.empty" "w_rootDir (NewWriter root mid) = root"
  "w_mmapID (NewWriter root mid) = mid" "w_rootDir (w_set k b wr) = w_rootDir wr" "w_mmapID (w_set k b wr) = w_mmapID wr"
  by (simp_all add: NewWriter_def w_set_def gm.get_empty)

definition w_log :: "writer \<Rightarrow> kvlog" where
  "w_log wr = map (\<lambda>k. (k, case gm_get (w_blob wr) k of None \<Rightarrow> [] | Some b \<Rightarrow> b)) (w_order wr)"

definition w_ok :: "writer \<Rightarrow> bool" where
  "w_ok wr \<longleftrightarrow> w_inv wr \<and> (\<forall>k b. gm_get (w_blob wr) k = Some b \<longrightarrow> entry_ok k b) \<and> 4 + length (w_region wr) < 2 ^ 32"

lemma w_log_ok:
  assumes "w_ok wr"
  shows "w_region wr = log_region (w_log wr)" "log_ok (w_log wr)" "log_map (w_log wr) = gm_get (w_blob wr)"
proof -
  let ?f = "\<lambda>k. case gm_get (w_blob wr) k of None \<Rightarrow> [] | Some b \<Rightarrow> b"
  show "w_region wr = log_region (w_log wr)" by (simp add: w_region_def w_log_def encodeRegion_eq log_region_def)
  have e: "k \<in> set (w_order wr) \<Longrightarrow> \<exists>b. gm_get (w_blob wr) k = Some b \<and> entry_ok k b" for k
    using assms by (auto simp: w_ok_def w_inv_def)
  show "log_ok (w_log wr)" using e by (fastforce simp: log_ok_def w_log_def list_all_iff entry_ok_def)
  have "log_map (w_log wr) = (\<lambda>k. if k \<in> set (w_order wr) then Some (?f k) else None)"
    unfolding w_log_def using assms e
    by (intro log_map_distinct) (auto simp: w_ok_def w_inv_def entry_ok_def split: option.splits dest!: e)
  then show "log_map (w_log wr) = gm_get (w_blob wr)"
    using assms by (auto simp: fun_eq_iff w_ok_def w_inv_def split: option.split)
qed

section \<open>Closing files\<close>

text \<open>What a close changes: the description is closed and its locks are gone.\<close>

definition close_frame :: "nat \<Rightarrow> os \<Rightarrow> os \<Rightarrow> bool" where
  "close_frame ofd w w' \<longleftrightarrow>
     files w' = files w \<and> dirent w' = dirent w \<and> nextIno w' = nextIno w \<and> nextOfd w' = nextOfd w \<and> faults w' = faults w \<and>
     nowUnix w' = nowUnix w \<and> pagesize w' = pagesize w \<and> cwd w' = cwd w \<and> set (closedOfds w') \<subseteq> insert ofd (set (closedOfds w)) \<and>
     (\<forall>i. flocks w' i = flocks w i \<or> flocks w' i = others ofd (flocks w i))"

lemma mf_close_frame: "faults w = [] \<Longrightarrow> close_frame (mf_ofd mf) w (snd (snd (mf_close mf w)))"
  by (auto simp: close_frame_def mf_close_def os_close_def Let_def split: prod.splits if_splits)

lemma close_frame_wf:
  assumes "os_wf w" "ofd < nextOfd w" "close_frame ofd w w'"
  shows "os_wf w'"
proof -
  have c: "flocks w' i = flocks w i \<or> flocks w' i = others ofd (flocks w i)" "locks_ok (flocks w i)" for i
    using assms(1,3) by (auto simp: close_frame_def os_wf_def)
  have l: "locks_ok (flocks w' i)" "set (flocks w' i) \<subseteq> set (flocks w i)" for i
    using c [of i] locks_ok_others [OF c(2), of ofd i] by (auto simp: others_def)
  have "\<forall>d\<in>set (closedOfds w'). d < nextOfd w'"
    using assms by (auto simp: close_frame_def os_wf_def)
  moreover have "\<forall>x\<in>set (flocks w i). fst x < nextOfd w" for i using assms(1) by (simp add: os_wf_def)
  then have "\<forall>x\<in>set (flocks w' i). fst x < nextOfd w'" for i
    using l(2) [of i] assms(3) by (auto simp: close_frame_def)
  moreover have "dirent w' = dirent w" "nextIno w' = nextIno w" using assms(3) by (auto simp: close_frame_def)
  ultimately show ?thesis using assms(1) l(1) unfolding os_wf_def by auto
qed

lemma close_frame_free: "close_frame ofd w w' \<Longrightarrow> flocks w i = [] \<Longrightarrow> flocks w' i = []"
  unfolding close_frame_def others_def by (metis filter.simps(1))

section \<open>Flush\<close>

text \<open>The data file after \<^verbatim>\<open>Flush\<close>, from what it held before.\<close>

definition flushed_data :: "bytes \<Rightarrow> bytes \<Rightarrow> bytes" where
  "flushed_data region D = overwrite 4 region (overwrite 0 (replicate 4 0) D)"

lemma flushData_ok:
  assumes "faults w = []" "mf_ok df w" "4 + length region \<le> mf_size df" "4 + length region < 2 ^ 32"
  shows "flushData region df w = (Inr (), set_file (mf_ino df) (flushed_data region (files w (mf_ino df))) w)"
proof -
  let ?D = "files w (mf_ino df)"
  have a: "unat (of_nat (length region) :: u32) = length region"
    using assms(4) by (intro unat_of_nat_small) simp
  have hi: "unat (4 + of_nat (length region) :: u32) = 4 + length region"
    using unat_add4 [of "of_nat (length region)"] a assms(4) by simp
  have p1: "mem_put df 0 (replicate 4 0) w = Inr (set_file (mf_ino df) (overwrite 0 (replicate 4 0) ?D) w)"
    using assms(3) by (intro mem_put_ok [OF assms(2)]) simp
  let ?w1 = "set_file (mf_ino df) (overwrite 0 (replicate 4 0) ?D) w"
  have ok1: "mf_ok df ?w1" using assms(3) by (intro mf_ok_put [OF assms(2)]) simp
  have m1: "length (memory df ?w1) = mf_size df"
    using ok1 by (simp add: mf_ok_def memory_ok del: set_file_sel) (simp only: mf_mapped_def)
  have p2: "mem_put df 4 region ?w1 = Inr (set_file (mf_ino df) (flushed_data region ?D) w)"
    using mem_put_ok [OF ok1 assms(3)] by (simp add: flushed_data_def)
  show ?thesis
    unfolding flushData_def p1 using hi p2 m1 assms(1,3) by (simp add: Let_def msync_def)
qed

lemma flushed_on_disk:
  assumes "w_ok wr" "4 + length (w_region wr) \<le> length D" "metaSize \<le> length M"
  shows "on_disk None (flushed_data (w_region wr) D) (overwrite 0 (marshal (flush_meta (w_region wr))) M)
    (flush_meta (w_region wr)) (w_log wr)"
proof -
  let ?R = "w_region wr" and ?D = "flushed_data (w_region wr) D"
  have small: "4 + length ?R < 2 ^ 32" using assms(1) by (simp add: w_ok_def)
  have a: "unat (of_nat (length ?R) :: u32) = length ?R" using small by (intro unat_of_nat_small) simp
  have act: "disk_actual (flush_meta ?R) ?D = of_nat (length ?R)"
    by (simp add: disk_actual_def flush_meta_def meta_versions)
  have reg: "region_at (of_nat (length ?R)) ?D = ?R"
    using assms(2) a by (simp add: region_at_def flushed_data_def take_drop_overwrite_same)
  have "parseMeta (overwrite 0 (marshal (flush_meta ?R)) M) = Inr (flush_meta ?R)"
    using assms(3) by (intro parse_marshal_copy) (simp_all add: meta_wf_def flush_meta_def)
  moreover have "in_file (of_nat (length ?R)) ?D"
    using small a assms(2) by (simp add: in_file_def flushed_data_def)
  ultimately show ?thesis
    unfolding on_disk_def act reg using w_log_ok [OF assms(1)]
    by (simp add: flush_meta_def meta_versions region_log_def plain_region_def)
qed

lemma flushMeta_ok:
  assumes "faults w = []" "0 < pagesize w"
  obtains w' where "flushMeta region path w = (Inr (), w')"
    "files w' = (files w)(ino_at w path := overwrite 0 (marshal (flush_meta region))
       (resize (max (length (file_at w path)) (pageRoundUp (pagesize w) metaSize)) (file_at w path)))"
    "dirent w' = (dirent w)(filepath_Abs (cwd w) path \<mapsto> ino_at w path)" "faults w' = []" "pagesize w' = pagesize w"
    "cwd w' = cwd w" "nextOfd w' = nextOfd w + 1" "os_wf w \<longrightarrow> os_wf w'" "\<forall>i. flocks w i = [] \<longrightarrow> flocks w' i = []"
proof -
  obtain mf w1 where o: "openMemoryFile path metaSize w = (Inr mf, w1)" "mf_ok mf w1"
    "mf_ino mf = ino_at w path" "mf_ofd mf = nextOfd w"
    "files w1 = (files w)(ino_at w path :=
       resize (max (length (file_at w path)) (pageRoundUp (pagesize w) metaSize)) (file_at w path))"
    "dirent w1 = (dirent w)(filepath_Abs (cwd w) path \<mapsto> ino_at w path)"
    "nextIno w1 = (if lookup w path = None then nextIno w + 1 else nextIno w)" "nextOfd w1 = nextOfd w + 1"
    "flocks w1 = flocks w" "faults w1 = []" "nowUnix w1 = nowUnix w" "pagesize w1 = pagesize w"
    "closedOfds w1 = closedOfds w" "cwd w1 = cwd w"
    by (rule openMemoryFile_ok [OF assms(1)])
  have size: "metaSize \<le> mf_size mf"
    using o(2,3,5) pageRoundUp_ge [OF assms(2), of metaSize] by (simp add: mf_ok_def mf_mapped_def) linarith
  let ?w2 = "set_file (mf_ino mf) (overwrite 0 (marshal (flush_meta region)) (files w1 (mf_ino mf))) w1"
  let ?w3 = "snd (snd (mf_close mf ?w2))"
  have c: "mem_copy mf 0 (marshal (flush_meta region)) w1 = Inr ?w2"
    by (rule mem_copy_meta [OF o(2) size]) (simp add: meta_wf_def flush_meta_def)
  have fr: "close_frame (nextOfd w) ?w2 ?w3" using mf_close_frame [of ?w2 mf] o(4,10) by simp
  have run: "flushMeta region path w = (Inr (), ?w3)"
    unfolding flushMeta_def using o(1,10) c by (simp add: msync_def)
  have wf: "os_wf ?w3" if "os_wf w"
  proof (rule close_frame_wf [OF _ _ fr])
    have "os_wf w1" by (rule os_wf_open [OF that o(6-9,13)])
    then show "os_wf ?w2" by (simp add: os_wf_def)
  qed (simp add: o(8))
  have free: "flocks ?w3 i = []" if "flocks w i = []" for i
    using close_frame_free [OF fr, of i] that o(9) by simp
  show thesis
    by (rule that [OF run]) (use fr o wf free in \<open>simp_all add: close_frame_def\<close>)
qed

lemma Flush_ok:
  assumes flt: "faults w = []" and pg: "4 \<le> pagesize w" and wf: "os_wf w"
    and dp: "dp = dataPathFor (w_rootDir wr) (w_mmapID wr)" and ok: "w_ok wr"
    and names: "filepath_Abs (cwd w) (dp @ crcSuffix) \<noteq> filepath_Abs (cwd w) dp"
  obtains w' di ji where "Flush wr w = (Inr (), w')" "lookup w' dp = Some di" "lookup w' (dp @ crcSuffix) = Some ji"
    "on_disk None (files w' di) (files w' ji) (flush_meta (w_region wr)) (w_log wr)"
    "faults w' = []" "pagesize w' = pagesize w" "cwd w' = cwd w" "os_wf w'" "\<forall>i. flocks w i = [] \<longrightarrow> flocks w' i = []"
proof -
  let ?R = "w_region wr" and ?mp = "dp @ crcSuffix"
  have small: "4 + length ?R < 2 ^ 32" using ok by (simp add: w_ok_def)
  have a: "unat (of_nat (length ?R) :: u32) = length ?R" using small by (intro unat_of_nat_small) simp
  have pg0: "0 < pagesize w" using pg by simp
  obtain df w1 where o: "openMemoryFile dp (length ?R + 4) w = (Inr df, w1)" "mf_ok df w1"
    "mf_ino df = ino_at w dp" "mf_ofd df = nextOfd w"
    "files w1 = (files w)(ino_at w dp :=
       resize (max (length (file_at w dp)) (pageRoundUp (pagesize w) (length ?R + 4))) (file_at w dp))"
    "dirent w1 = (dirent w)(filepath_Abs (cwd w) dp \<mapsto> ino_at w dp)"
    "nextIno w1 = (if lookup w dp = None then nextIno w + 1 else nextIno w)" "nextOfd w1 = nextOfd w + 1"
    "flocks w1 = flocks w" "faults w1 = []" "nowUnix w1 = nowUnix w" "pagesize w1 = pagesize w"
    "closedOfds w1 = closedOfds w" "cwd w1 = cwd w"
    by (rule openMemoryFile_ok [OF flt])
  have size: "4 + length ?R \<le> mf_size df"
    using o(2,3,5) pageRoundUp_ge [OF pg0, of "length ?R + 4"] by (simp add: mf_ok_def mf_mapped_def) linarith
  let ?D = "flushed_data ?R (files w1 (mf_ino df))"
  let ?w2 = "set_file (mf_ino df) ?D w1"
  have d: "flushData ?R df w1 = (Inr (), ?w2)" by (rule flushData_ok [OF o(10,2) size small])
  have w2: "faults ?w2 = []" "0 < pagesize ?w2" using o(10,12) pg0 by simp_all
  obtain w3 where q: "flushMeta ?R ?mp ?w2 = (Inr (), w3)"
    "files w3 = (files ?w2)(ino_at ?w2 ?mp := overwrite 0 (marshal (flush_meta ?R))
       (resize (max (length (file_at ?w2 ?mp)) (pageRoundUp (pagesize ?w2) metaSize)) (file_at ?w2 ?mp)))"
    "dirent w3 = (dirent ?w2)(filepath_Abs (cwd ?w2) ?mp \<mapsto> ino_at ?w2 ?mp)" "faults w3 = []" "pagesize w3 = pagesize ?w2"
    "cwd w3 = cwd ?w2" "nextOfd w3 = nextOfd ?w2 + 1" "os_wf ?w2 \<longrightarrow> os_wf w3" "\<forall>i. flocks ?w2 i = [] \<longrightarrow> flocks w3 i = []"
    by (rule flushMeta_ok [OF w2])
  let ?w4 = "snd (snd (mf_close df w3))"
  have fr: "close_frame (nextOfd w) w3 ?w4" using mf_close_frame [of w3 df] o(4) q(4) by simp
  have run: "Flush wr w = (Inr (), ?w4)"
    unfolding Flush_def using flt o(1) d q(1) a dp by (simp add: Let_def)
  have "os_wf w1" by (rule os_wf_open [OF wf o(6-9,13)])
  then have wf3: "os_wf w3" using q(8) by (simp add: os_wf_def)
  have wf4: "os_wf ?w4" by (rule close_frame_wf [OF wf3 _ fr]) (simp add: q(7) o(8))
  let ?ji = "ino_at ?w2 ?mp"
  have look: "lookup ?w4 dp = Some (mf_ino df)" "lookup ?w4 ?mp = Some ?ji"
    using fr q(3,6) o(3,6,14) names by (simp_all add: lookup_def close_frame_def)
  have ne: "mf_ino df \<noteq> ?ji"
    using wf4 look names fr q(6) o(14) unfolding os_wf_def lookup_def close_frame_def by (metis set_file_sel(12))
  have files: "files ?w4 (mf_ino df) = ?D" "metaSize \<le> length (resize (max (length (file_at ?w2 ?mp)) (pageRoundUp (pagesize ?w2) metaSize)) (file_at ?w2 ?mp))"
    using fr q(2) ne pageRoundUp_ge [OF w2(2), of metaSize] by (simp_all add: close_frame_def le_max_iff_disj)
  have "on_disk None (files ?w4 (mf_ino df)) (files ?w4 ?ji) (flush_meta ?R) (w_log wr)"
    using flushed_on_disk [OF ok _ files(2), of "files w1 (mf_ino df)"] size o(2) fr q(2) unfolding files(1)
    by (simp add: close_frame_def mf_ok_def mf_mapped_def)
  moreover have "flocks ?w4 i = []" if "flocks w i = []" for i
    using close_frame_free [OF fr, of i] q(9) that o(9) by simp
  ultimately show thesis
    by (intro that [OF run look _ _ _ _ wf4]) (use fr q(4-6) o(12,14) in \<open>auto simp: close_frame_def\<close>)
qed

text \<open>A writer after a sequence of assignments: the last assignment of a key wins.\<close>

definition written :: "string \<Rightarrow> string \<Rightarrow> (bytes \<times> bytes) list \<Rightarrow> writer" where
  "written root mid kvs = fold (\<lambda>(k, b). w_set k b) kvs (NewWriter root mid)"

lemma written_facts:
  "w_inv (written root mid kvs)" "gm_get (w_blob (written root mid kvs)) = map_of (rev kvs)"
  "w_rootDir (written root mid kvs) = root" "w_mmapID (written root mid kvs) = mid"
  by (induction kvs rule: rev_induct) (auto simp: written_def w_inv_new w_inv_set w_blob_set w_fields)

lemma written_ok:
  assumes "\<forall>(k, b) \<in> set kvs. entry_ok k b" "4 + length (w_region (written root mid kvs)) < 2 ^ 32"
  shows "w_ok (written root mid kvs)"
  using assms by (auto simp: w_ok_def written_facts dest!: map_of_SomeD)

section \<open>Properties\<close>



end
