(* ===== verification/Backup.thy ===== *)
theory Backup
  imports MmkvOps Reader
begin

text \<open>
  Whole-file operations: backup and restore (\<^verbatim>\<open>backup.go\<close>, \<^verbatim>\<open>mmkv_backup.go\<close>), existence and validity
  checks and removal (\<^verbatim>\<open>mmkv_ns.go\<close>), and name spaces (\<^verbatim>\<open>namespace.go\<close>).
\<close>

section \<open>Copying files\<close>

text \<open>\<^verbatim>\<open>os.Create\<close> truncates an existing file in place, keeping its inode.\<close>

definition os_Create :: "string \<Rightarrow> os \<Rightarrow> (goerr + nat \<times> nat) \<times> os" where
  "os_Create path w =
     (case os_open_create path w of
        (Inl e, w1) \<Rightarrow> (Inl e, w1)
      | (Inr f, w1) \<Rightarrow> (Inr f, set_file (fst f) [] w1))"

text \<open>
  \<^verbatim>\<open>io.Copy\<close> transfers the whole source; a failing copy is one that fails before the first write.
\<close>

definition copyFile :: "string \<Rightarrow> string \<Rightarrow> os \<Rightarrow> (goerr + unit) \<times> os" where
  "copyFile src dst w =
     (case os_open_read src w of
        (Inl e, w1) \<Rightarrow> (Inl e, w1)
      | (Inr fi, w1) \<Rightarrow>
          (case os_Create dst w1 of
             (Inl e, w2) \<Rightarrow> (Inl e, snd (os_close (fst fi) (snd fi) w2))
           | (Inr fo, w2) \<Rightarrow>
               (case syscall w2 of
                  (False, w3) \<Rightarrow>
                    (Inl ErrWrite, snd (os_close (fst fi) (snd fi) (snd (os_close (fst fo) (snd fo) w3))))
                | (True, w3) \<Rightarrow>
                    (case os_close (fst fo) (snd fo) (set_file (fst fo) (files w3 (fst fi)) w3) of
                       (r, w4) \<Rightarrow> (r, snd (os_close (fst fi) (snd fi) w4))))))"

definition copyBoth :: "string \<Rightarrow> string \<Rightarrow> os \<Rightarrow> (goerr + unit) \<times> os" where
  "copyBoth src dst w =
     (case copyFile src dst w of
        (Inl e, w1) \<Rightarrow> (Inl e, w1)
      | (Inr _, w1) \<Rightarrow> copyFile (src @ crcSuffix) (dst @ crcSuffix) w1)"

definition BackupOne :: "string \<Rightarrow> string \<Rightarrow> string \<Rightarrow> os \<Rightarrow> ((goerr + unit) \<times> os) option" where
  "BackupOne rootDir mmapID dstDir w =
     (let src = dataPathFor rootDir mmapID; dst = dataPathFor dstDir mmapID
      in case os_open_read (src @ crcSuffix) w of
           (Inl e, w1) \<Rightarrow> Some (Inl e, w1)
         | (Inr lf, w1) \<Rightarrow>
             (case flockShared lf w1 of
                None \<Rightarrow> None
              | Some (Inl e, w2) \<Rightarrow> Some (Inl e, snd (os_close (fst lf) (snd lf) w2))
              | Some (Inr _, w2) \<Rightarrow>
                  (case syscall w2 of
                     (ok, w3) \<Rightarrow>
                       (case (if ok then copyBoth src dst w3 else (Inl ErrMkdir, w3)) of
                          (r, w4) \<Rightarrow> Some (r, snd (os_close (fst lf) (snd lf) (flockUnlock lf w4)))))))"

text \<open>\<^verbatim>\<open>os.Stat\<close>.\<close>

definition os_Stat :: "string \<Rightarrow> os \<Rightarrow> bool \<times> os" where
  "os_Stat path w = (case syscall w of (ok, w1) \<Rightarrow> (ok \<and> lookup w1 path \<noteq> None, w1))"

text \<open>Flags the cached instance, if there is one, to remap and reload on its next call.\<close>

definition flagReload :: "string \<Rightarrow> process \<Rightarrow> process" where
  "flagReload key p =
     (case p_reg p key of
        None \<Rightarrow> p
      | Some i \<Rightarrow> p\<lparr>p_heap := (p_heap p)(i := (p_heap p i)\<lparr>m_needLoad := True\<rparr>)\<rparr>)"

definition RestoreOneFromDirectory ::
    "string \<Rightarrow> string \<Rightarrow> string \<Rightarrow> process \<Rightarrow> os \<Rightarrow> ((goerr + unit) \<times> process \<times> os) option" where
  "RestoreOneFromDirectory rootDir mmapID srcDir p w =
     (let src = dataPathFor srcDir mmapID; dst = dataPathFor rootDir mmapID
      in case os_Stat src w of
           (False, w1) \<Rightarrow> Some (Inl ErrNotExist, p, w1)
         | (True, w1) \<Rightarrow>
             (case syscall w1 of
                (False, w2) \<Rightarrow> Some (Inl ErrMkdir, p, w2)
              | (True, w2) \<Rightarrow>
                  (case os_open_create (dst @ crcSuffix) w2 of
                     (Inl e, w3) \<Rightarrow> Some (Inl e, p, w3)
                   | (Inr lf, w3) \<Rightarrow>
                       (case flockExclusive lf w3 of
                          None \<Rightarrow> None
                        | Some (Inl e, w4) \<Rightarrow> Some (Inl e, p, snd (os_close (fst lf) (snd lf) w4))
                        | Some (Inr _, w4) \<Rightarrow>
                            (case copyBoth src dst w4 of
                               (Inl e, w5) \<Rightarrow>
                                 Some (Inl e, p, snd (os_close (fst lf) (snd lf) (flockUnlock lf w5)))
                             | (Inr _, w5) \<Rightarrow>
                                 (case registryKey rootDir mmapID w5 of
                                    (key, w6) \<Rightarrow>
                                      Some (Inr (), flagReload key p,
                                            snd (os_close (fst lf) (snd lf) (flockUnlock lf w6)))))))))"

section \<open>Files on disk\<close>

definition CheckExist :: "string \<Rightarrow> string \<Rightarrow> os \<Rightarrow> bool \<times> os" where
  "CheckExist rootDir mmapID w =
     (let dp = dataPathFor rootDir mmapID
      in case os_Stat dp w of
           (False, w1) \<Rightarrow> (False, w1)
         | (True, w1) \<Rightarrow> os_Stat (dp @ crcSuffix) w1)"

definition IsFileValid :: "string \<Rightarrow> string \<Rightarrow> os \<Rightarrow> (goerr + bool) \<times> os" where
  "IsFileValid rootDir mmapID w =
     (let dp = dataPathFor rootDir mmapID
      in case os_ReadFile (dp @ crcSuffix) w of
           (Inl _, w1) \<Rightarrow> (Inr False, w1)
         | (Inr metaBuf, w1) \<Rightarrow>
             (case parseMeta metaBuf of
                Inl _ \<Rightarrow> (Inr False, w1)
              | Inr mi \<Rightarrow>
                  if mi_version mi > maxSupportedVersion then (Inr False, w1)
                  else
                    (case os_ReadFile dp w1 of
                       (Inl _, w2) \<Rightarrow> (Inr False, w2)
                     | (Inr data, w2) \<Rightarrow>
                         let actual = (if mi_version mi \<ge> versionActualSize then mi_actualSize mi
                                       else if length data \<ge> 4 then getUint32 data else 0)
                         in if unat actual + 4 > length data then (Inr False, w2)
                            else (case go_slice 4 (unat (4 + actual)) data of
                                    Inl e \<Rightarrow> (Inl e, w2)
                                  | Inr region \<Rightarrow> (Inr (crc32_ChecksumIEEE region = mi_crcDigest mi), w2)))))"

definition os_Remove :: "string \<Rightarrow> os \<Rightarrow> (goerr + unit) \<times> os" where
  "os_Remove path w =
     (case syscall w of
        (False, w1) \<Rightarrow> (Inl ErrWrite, w1)
      | (True, w1) \<Rightarrow>
          if lookup w1 path = None then (Inl ErrNotExist, w1)
          else (Inr (), w1\<lparr>dirent := (dirent w1)(filepath_Abs (cwd w1) path := None)\<rparr>))"

definition RemoveStorage :: "string \<Rightarrow> string \<Rightarrow> process \<Rightarrow> os \<Rightarrow> (goerr + unit) \<times> process \<times> os" where
  "RemoveStorage rootDir mmapID p w =
     (case registryKey rootDir mmapID w of (key, w0) \<Rightarrow>
        let (p1, w1) = (case p_reg p key of
                          None \<Rightarrow> (p, w0)
                        | Some i \<Rightarrow> (case Close i p w0 of (_, p1, w1) \<Rightarrow> (p1, w1)));
            dp = dataPathFor rootDir mmapID
        in case os_Remove dp w1 of (e1, w2) \<Rightarrow>
             (case os_Remove (dp @ crcSuffix) w2 of (e2, w3) \<Rightarrow>
                (if e1 \<noteq> Inr () \<and> e1 \<noteq> Inl ErrNotExist then (e1, p1, w3)
                 else if e2 \<noteq> Inr () \<and> e2 \<noteq> Inl ErrNotExist then (e2, p1, w3)
                 else (Inr (), p1, w3))))"

section \<open>Name spaces\<close>

record nameSpace =
  ns_rootDir :: string

definition OpenNameSpace :: "string \<Rightarrow> nameSpace" where
  "OpenNameSpace rootDir = \<lparr>ns_rootDir = rootDir\<rparr>"

definition ns_RootDir :: "nameSpace \<Rightarrow> string" where
  "ns_RootDir ns = ns_rootDir ns"

definition ns_Open ::
    "nameSpace \<Rightarrow> string \<Rightarrow> (reader \<Rightarrow> reader) list \<Rightarrow> os \<Rightarrow> ((goerr + reader) \<times> os) option" where
  "ns_Open ns mmapID opts = Open (ns_rootDir ns) mmapID opts"

definition ns_BackupOne :: "nameSpace \<Rightarrow> string \<Rightarrow> string \<Rightarrow> os \<Rightarrow> ((goerr + unit) \<times> os) option" where
  "ns_BackupOne ns mmapID dstDir = BackupOne (ns_rootDir ns) mmapID dstDir"

definition ns_MMKVWithID ::
    "nameSpace \<Rightarrow> string \<Rightarrow> (mmkvConfig \<Rightarrow> mmkvConfig) list \<Rightarrow> process \<Rightarrow> os \<Rightarrow>
     ((goerr + nat) \<times> process \<times> os) option" where
  "ns_MMKVWithID ns mmapID opts = MMKVWithID (ns_rootDir ns) mmapID opts"

definition ns_RestoreOne ::
    "nameSpace \<Rightarrow> string \<Rightarrow> string \<Rightarrow> process \<Rightarrow> os \<Rightarrow> ((goerr + unit) \<times> process \<times> os) option" where
  "ns_RestoreOne ns mmapID srcDir = RestoreOneFromDirectory (ns_rootDir ns) mmapID srcDir"

end
