(* ===== verification/BackupProps.thy ===== *)
theory BackupProps
  imports WriterProps Backup
begin

text \<open>
  Backup and restore: a backup is a byte-for-byte copy of the two files taken under the shared lock, it
  opens to the same map, and restoring a store makes the instance that has it open reload it.
\<close>

section \<open>Copying a file\<close>

lemma others_fresh: "\<forall>x\<in>set t. fst x < ofd \<Longrightarrow> others ofd t = t"
  by (auto simp: others_def filter_id_conv)

lemma os_close_fresh:
  assumes "faults w = []" "others ofd (flocks w i) = flocks w i"
  shows "os_close i ofd w = (Inr (), w\<lparr>closedOfds := ofd # closedOfds w\<rparr>)"
  using assms by (simp add: os_close_def set_locks_def)

text \<open>What a copy changes: the target file, and two more descriptor numbers are used up.\<close>

definition copied :: "string \<Rightarrow> bytes \<Rightarrow> os \<Rightarrow> os \<Rightarrow> bool" where
  "copied dst b w w' \<longleftrightarrow>
     files w' = (files w)(ino_at w dst := b) \<and> dirent w' = (dirent w)(filepath_Abs (cwd w) dst \<mapsto> ino_at w dst) \<and>
     nextIno w' = (if lookup w dst = None then nextIno w + 1 else nextIno w) \<and> nextOfd w' = nextOfd w + 2 \<and>
     flocks w' = flocks w \<and> faults w' = [] \<and> nowUnix w' = nowUnix w \<and> pagesize w' = pagesize w \<and> cwd w' = cwd w \<and>
     closedOfds w' = nextOfd w # (nextOfd w + 1) # closedOfds w"

lemma copyFile_ok:
  assumes flt: "faults w = []" and wf: "os_wf w" and src: "lookup w src = Some i"
    and names: "filepath_Abs (cwd w) dst \<noteq> filepath_Abs (cwd w) src"
  obtains w' where "copyFile src dst w = (Inr (), w')" "copied dst (files w i) w w'"
proof -
  let ?w1 = "w\<lparr>nextOfd := nextOfd w + 1\<rparr>" and ?o = "nextOfd w"
  have r: "os_open_read src w = (Inr (i, ?o), ?w1)" using flt src by (simp add: os_open_read_def)
  have ne: "ino_at w dst \<noteq> i"
    using ino_at_inj [OF wf names] src by (simp add: ino_at_def)
  obtain w2 where c: "os_open_create dst ?w1 = (Inr (ino_at w dst, ?o + 1), w2)"
    "files w2 = (files w)(ino_at w dst := file_at w dst)" "dirent w2 = (dirent w)(filepath_Abs (cwd w) dst \<mapsto> ino_at w dst)"
    "nextIno w2 = (if lookup w dst = None then nextIno w + 1 else nextIno w)" "nextOfd w2 = nextOfd w + 2"
    "flocks w2 = flocks w" "faults w2 = []" "nowUnix w2 = nowUnix w" "pagesize w2 = pagesize w"
    "closedOfds w2 = closedOfds w" "cwd w2 = cwd w"
    by (cases "lookup w dst")
      (use flt in \<open>auto simp: os_open_create_def lookup_def ino_at_def file_at_def Let_def fun_upd_idem\<close>)
  have fl: "\<forall>x\<in>set (flocks w j). fst x < ?o" for j using wf by (simp add: os_wf_def)
  have oth: "others ?o (flocks w j) = flocks w j" "others (Suc ?o) (flocks w j) = flocks w j" for j
    using fl [of j] by (auto intro!: others_fresh)
  let ?w3 = "set_file (ino_at w dst) (files w i) (set_file (ino_at w dst) [] w2)"
  let ?w4 = "?w3\<lparr>closedOfds := (?o + 1) # closedOfds w2\<rparr>"
  let ?w5 = "?w4\<lparr>closedOfds := ?o # (?o + 1) # closedOfds w2\<rparr>"
  have cl: "os_close (ino_at w dst) (Suc ?o) ?w3 = (Inr (), ?w4)" "os_close i ?o ?w4 = (Inr (), ?w5)"
    using c(6,7) oth by (simp_all add: os_close_def set_locks_def)
  have "copyFile src dst w = (Inr (), ?w5)"
    unfolding copyFile_def os_Create_def using r c(1,2,7) ne cl by simp
  moreover have "copied dst (files w i) w ?w5" using c by (simp add: copied_def)
  ultimately show thesis by (rule that)
qed

lemma copied_wf:
  assumes "os_wf w" "copied dst b w w'"
  shows "os_wf w'"
proof -
  let ?w = "w'\<lparr>closedOfds := closedOfds w, nextOfd := nextOfd w + 1\<rparr>"
  have "os_wf ?w" by (rule os_wf_open [OF assms(1), of _ dst]) (use assms(2) in \<open>simp_all add: copied_def\<close>)
  then have d: "\<forall>p i. dirent w' p = Some i \<longrightarrow> i < nextIno w'" "\<forall>p q i. dirent w' p = Some i \<longrightarrow> dirent w' q = Some i \<longrightarrow> p = q"
    "\<forall>i. locks_ok (flocks w' i) \<and> (\<forall>x\<in>set (flocks w' i). fst x < nextOfd w + 1)"
    by (simp_all add: os_wf_def)
  have "\<forall>d\<in>set (closedOfds w). d < nextOfd w" using assms(1) by (simp add: os_wf_def)
  then have "\<forall>d\<in>set (closedOfds w'). d < nextOfd w'" "nextOfd w' = nextOfd w + 2" using assms(2) by (auto simp: copied_def)
  then show ?thesis using d unfolding os_wf_def by (simp add: less_Suc_eq)
qed

text \<open>The four files of a copy are different files.\<close>

definition apart :: "os \<Rightarrow> string \<Rightarrow> string \<Rightarrow> bool" where
  "apart w src dst \<longleftrightarrow>
     filepath_Abs (cwd w) dst \<notin> {filepath_Abs (cwd w) src, filepath_Abs (cwd w) (src @ crcSuffix)} \<and>
     filepath_Abs (cwd w) (dst @ crcSuffix) \<notin>
       {filepath_Abs (cwd w) src, filepath_Abs (cwd w) (src @ crcSuffix), filepath_Abs (cwd w) dst}"

definition both_copied :: "string \<Rightarrow> bytes \<Rightarrow> bytes \<Rightarrow> os \<Rightarrow> os \<Rightarrow> bool" where
  "both_copied dst D M w w' \<longleftrightarrow>
     (\<exists>di ji. lookup w' dst = Some di \<and> lookup w' (dst @ crcSuffix) = Some ji \<and> di \<noteq> ji \<and>
        di = ino_at w dst \<and> (\<forall>j. lookup w (dst @ crcSuffix) = Some j \<longrightarrow> ji = j) \<and>
        files w' di = D \<and> files w' ji = M \<and> (\<forall>i. i \<noteq> di \<and> i \<noteq> ji \<longrightarrow> files w' i = files w i)) \<and>
     (\<forall>p. p \<notin> {filepath_Abs (cwd w) dst, filepath_Abs (cwd w) (dst @ crcSuffix)} \<longrightarrow> dirent w' p = dirent w p) \<and>
     os_wf w' \<and> flocks w' = flocks w \<and> faults w' = [] \<and> nowUnix w' = nowUnix w \<and> pagesize w' = pagesize w \<and> cwd w' = cwd w \<and>
     nextOfd w' = nextOfd w + 4 \<and> (\<forall>d < nextOfd w. d \<in> set (closedOfds w') \<longleftrightarrow> d \<in> set (closedOfds w))"

lemma copyBoth_ok:
  assumes flt: "faults w = []" and wf: "os_wf w" and src: "lookup w src = Some i" "lookup w (src @ crcSuffix) = Some j"
    and ap: "apart w src dst"
  obtains w' where "copyBoth src dst w = (Inr (), w')" "both_copied dst (files w i) (files w j) w w'"
proof -
  let ?S = "src @ crcSuffix" and ?T = "dst @ crcSuffix"
  have n: "filepath_Abs (cwd w) dst \<noteq> filepath_Abs (cwd w) src" "filepath_Abs (cwd w) ?T \<noteq> filepath_Abs (cwd w) ?S"
    "filepath_Abs (cwd w) dst \<noteq> filepath_Abs (cwd w) ?S" "filepath_Abs (cwd w) ?T \<noteq> filepath_Abs (cwd w) dst"
    using ap by (auto simp: apart_def)
  obtain w1 where a: "copyFile src dst w = (Inr (), w1)" "copied dst (files w i) w w1"
    by (rule copyFile_ok [OF flt wf src(1) n(1)])
  have wf1: "os_wf w1" by (rule copied_wf [OF wf a(2)])
  have l1: "lookup w1 ?S = Some j" "faults w1 = []" "cwd w1 = cwd w" "lookup w1 dst = Some (ino_at w dst)"
    using a(2) src(2) n(3) by (auto simp: copied_def lookup_def)
  have n1: "filepath_Abs (cwd w1) ?T \<noteq> filepath_Abs (cwd w1) ?S" using n(2) l1(3) by simp
  obtain w2 where b: "copyFile ?S ?T w1 = (Inr (), w2)" "copied ?T (files w1 j) w1 w2"
    by (rule copyFile_ok [OF l1(2) wf1 l1(1) n1])
  have wf2: "os_wf w2" by (rule copied_wf [OF wf1 b(2)])
  have j: "files w1 j = files w j"
    using a(2) ino_at_inj [OF wf n(3)] src(2) by (auto simp: copied_def ino_at_def)
  have ne: "ino_at w1 ?T \<noteq> ino_at w dst"
    using ino_at_inj [OF wf1, of ?T dst] l1(3,4) n(4) by (simp add: ino_at_def)
  have lt: "lookup w1 ?T = lookup w ?T" using a(2) n(4) by (auto simp: copied_def lookup_def)
  have "both_copied dst (files w i) (files w j) w w2"
    unfolding both_copied_def
  proof (intro conjI)
    show "\<exists>di ji. lookup w2 dst = Some di \<and> lookup w2 ?T = Some ji \<and> di \<noteq> ji \<and> di = ino_at w dst \<and>
        (\<forall>j. lookup w ?T = Some j \<longrightarrow> ji = j) \<and> files w2 di = files w i \<and> files w2 ji = files w j \<and>
        (\<forall>i. i \<noteq> di \<and> i \<noteq> ji \<longrightarrow> files w2 i = files w i)"
      using a(2) b(2) j ne n(4) l1(3) lt
      by (intro exI [of _ "ino_at w dst"] exI [of _ "ino_at w1 ?T"]) (simp add: copied_def lookup_def ino_at_def)
    show "\<forall>d<nextOfd w. (d \<in> set (closedOfds w2)) = (d \<in> set (closedOfds w))" using a(2) b(2) by (auto simp: copied_def)
  qed (use a(2) b(2) wf2 in \<open>auto simp: copied_def\<close>)
  moreover have "copyBoth src dst w = (Inr (), w2)" using a(1) b(1) by (simp add: copyBoth_def)
  ultimately show thesis by (intro that)
qed

section \<open>Backup\<close>

lemma os_wf_frame:
  assumes "os_wf w" "dirent w' = dirent w" "nextIno w' = nextIno w" "\<forall>d\<in>set (closedOfds w'). d < nextOfd w'"
    "\<forall>i. locks_ok (flocks w' i)" "\<forall>i. \<forall>x\<in>set (flocks w' i). fst x < nextOfd w'"
  shows "os_wf w'"
  using assms unfolding os_wf_def by simp

text \<open>Taking the shared lock on a fresh description.\<close>

lemma flockShared_fresh:
  assumes "faults w = []" "os_wf w" "compatible SharedLock (flocks w j)"
  defines "w1 \<equiv> w\<lparr>nextOfd := nextOfd w + 1\<rparr>"
  defines "w2 \<equiv> set_locks j ((nextOfd w, SharedLock) # flocks w j) w1"
  shows "flockShared (j, nextOfd w) w1 = Some (Inr (), w2)" "os_wf w2" "others (nextOfd w) (flocks w2 j) = flocks w j"
proof -
  have f: "nextOfd w \<notin> set (closedOfds w)" "\<forall>x\<in>set (flocks w i). fst x < nextOfd w" "locks_ok (flocks w i)" for i
    using assms(2) by (auto simp: os_wf_def)
  have o: "others (nextOfd w) (flocks w j) = flocks w j" by (rule others_fresh [OF f(2)])
  show "flockShared (j, nextOfd w) w1 = Some (Inr (), w2)"
    using assms(1,3) f(1) o by (simp add: w1_def w2_def flockShared_def flock_wait_def)
  show "others (nextOfd w) (flocks w2 j) = flocks w j" using o by (simp add: w2_def)
  have "locks_ok ((nextOfd w, SharedLock) # flocks w j)"
    using locks_ok_grant [OF f(3), of SharedLock "nextOfd w" j] o assms(3) by simp
  moreover have "\<forall>d\<in>set (closedOfds w). d < nextOfd w" using assms(2) by (simp add: os_wf_def)
  ultimately show "os_wf w2"
    using f(2,3) by (intro os_wf_frame [OF assms(2)]) (simp_all add: w2_def w1_def less_Suc_eq)
qed

lemma BackupOne_ok:
  assumes flt: "faults w = []" and wf: "os_wf w" and dp: "src = dataPathFor root mid" "dst = dataPathFor dir mid"
    and src: "lookup w src = Some i" "lookup w (src @ crcSuffix) = Some j"
    and ap: "apart w src dst" and lk: "compatible SharedLock (flocks w j)"
  obtains w' where "BackupOne root mid dir w = Some (Inr (), w')" "file_at w' dst = files w i"
    "file_at w' (dst @ crcSuffix) = files w j" "lookup w' dst \<noteq> None" "lookup w' (dst @ crcSuffix) \<noteq> None"
    "files w' i = files w i" "files w' j = files w j" "lookup w' src = Some i" "lookup w' (src @ crcSuffix) = Some j"
    "os_wf w'" "flocks w' = flocks w" "faults w' = []" "pagesize w' = pagesize w" "cwd w' = cwd w" "nowUnix w' = nowUnix w"
proof -
  let ?o = "nextOfd w"
  let ?w1 = "w\<lparr>nextOfd := ?o + 1\<rparr>"
  let ?w2 = "set_locks j ((?o, SharedLock) # flocks w j) ?w1"
  note l = flockShared_fresh [OF flt wf lk]
  have s2: "faults ?w2 = []" "lookup ?w2 src = Some i" "lookup ?w2 (src @ crcSuffix) = Some j" "apart ?w2 src dst"
    using flt src ap by (simp_all add: lookup_def apart_def)
  obtain w3 where c: "copyBoth src dst ?w2 = (Inr (), w3)" "both_copied dst (files ?w2 i) (files ?w2 j) ?w2 w3"
    by (rule copyBoth_ok [OF s2(1) l(2) s2(2-4)])
  have "\<forall>d\<in>set (closedOfds w). d < ?o" using wf by (simp add: os_wf_def)
  then have "?o \<notin> set (closedOfds ?w2)" by auto
  moreover have "\<forall>d < nextOfd ?w2. d \<in> set (closedOfds w3) \<longleftrightarrow> d \<in> set (closedOfds ?w2)"
    using c(2) unfolding both_copied_def by blast
  ultimately have o3: "?o \<notin> set (closedOfds w3)" by simp
  let ?w4 = "set_locks j (flocks w j) w3"
  let ?w5 = "?w4\<lparr>closedOfds := ?o # closedOfds w3\<rparr>"
  have w3: "faults w3 = []" "flocks w3 = flocks ?w2" "os_wf w3" "nextOfd w3 = ?o + 5"
    "cwd w3 = cwd w" "pagesize w3 = pagesize w" "nowUnix w3 = nowUnix w"
    using c(2) by (auto simp: both_copied_def)
  have un: "flockUnlock (j, ?o) w3 = ?w4"
    using w3(1,2) o3 l(3) by (simp add: flockUnlock_def flock_un_def)
  have o: "others ?o (flocks w k) = flocks w k" for k using wf by (intro others_fresh) (simp add: os_wf_def)
  have cl: "os_close j ?o ?w4 = (Inr (), ?w5)"
    using os_close_fresh [of ?w4 ?o j] w3(1) o by simp
  have run: "BackupOne root mid dir w = Some (Inr (), ?w5)"
    unfolding BackupOne_def os_open_read_def using flt src(2) l(1) c(1) un cl dp by (simp add: Let_def)
  have fl: "flocks ?w5 = flocks w" using w3(2) by (simp add: fun_eq_iff)
  have cl5: "\<forall>d\<in>set (closedOfds w3). d < nextOfd w3" using w3(3) by (simp add: os_wf_def)
  have fl5: "\<forall>k. locks_ok (flocks w k) \<and> (\<forall>x\<in>set (flocks w k). fst x < nextOfd w)" using wf by (simp add: os_wf_def)
  have wf5: "os_wf ?w5"
    by (rule os_wf_frame [OF w3(3)]) (use cl5 fl5 w3(4) in \<open>simp_all add: fl less_Suc_eq\<close>, fastforce+)
  obtain di ji where t: "lookup w3 dst = Some di" "lookup w3 (dst @ crcSuffix) = Some ji" "files w3 di = files w i"
    "files w3 ji = files w j" "\<forall>k. k \<noteq> di \<and> k \<noteq> ji \<longrightarrow> files w3 k = files w k"
    using c(2) by (auto simp: both_copied_def)
  have keep: "lookup w3 src = Some i" "lookup w3 (src @ crcSuffix) = Some j"
    using c(2) src ap w3(5) by (auto simp: both_copied_def lookup_def apart_def)
  have ne: "i \<noteq> di" "i \<noteq> ji" "j \<noteq> di" "j \<noteq> ji"
    using w3(3,5) keep t(1,2) ap unfolding os_wf_def lookup_def apart_def by (metis insertI1 insertI2)+
  show thesis
    by (rule that [OF run]) (use t keep ne wf5 fl w3 in \<open>simp_all add: file_at_def lookup_def\<close>)
qed

section \<open>Restore\<close>

text \<open>Opening and locking the meta file of the target for the time of the copy.\<close>

lemma flockExclusive_fresh:
  assumes "faults w = []" "os_wf w" "flocks w j = []"
  defines "w1 \<equiv> w\<lparr>nextOfd := nextOfd w + 1\<rparr>"
  defines "w2 \<equiv> set_locks j [(nextOfd w, ExclusiveLock)] w1"
  shows "flockExclusive (j, nextOfd w) w1 = Some (Inr (), w2)" "os_wf w2" "others (nextOfd w) (flocks w2 j) = []"
proof -
  have f: "nextOfd w \<notin> set (closedOfds w)" "\<forall>x\<in>set (flocks w i). fst x < nextOfd w" "locks_ok (flocks w i)" for i
    using assms(2) by (auto simp: os_wf_def)
  show "flockExclusive (j, nextOfd w) w1 = Some (Inr (), w2)"
    using assms(1,3) f(1) by (simp add: w1_def w2_def flockExclusive_def flock_wait_def others_def compatible_def)
  show "others (nextOfd w) (flocks w2 j) = []" by (simp add: w2_def others_def)
  have "\<forall>d\<in>set (closedOfds w). d < nextOfd w" using assms(2) by (simp add: os_wf_def)
  then show "os_wf w2"
    using f(2,3) by (intro os_wf_frame [OF assms(2)]) (simp_all add: w2_def w1_def less_Suc_eq locks_ok_def)
qed

lemma Restore_ok:
  assumes flt: "faults w = []" and wf: "os_wf w" and dp: "src = dataPathFor dir mid" "dst = dataPathFor root mid"
    and src: "lookup w src = Some si" "lookup w (src @ crcSuffix) = Some sj"
    and dst: "lookup w dst = Some i" "lookup w (dst @ crcSuffix) = Some j"
    and ap: "apart w src dst" and free: "flocks w j = []"
  obtains w' where
    "RestoreOneFromDirectory root mid dir p w = Some (Inr (), flagReload (fst (registryKey root mid w)) p, w')"
    "files w' i = files w si" "files w' j = files w sj" "\<forall>d < nextOfd w. d \<in> set (closedOfds w') \<longleftrightarrow> d \<in> set (closedOfds w)"
    "flocks w' = flocks w" "faults w' = []" "pagesize w' = pagesize w"
proof -
  let ?o = "nextOfd w"
  let ?w1 = "w\<lparr>nextOfd := ?o + 1\<rparr>"
  let ?w2 = "set_locks j [(?o, ExclusiveLock)] ?w1"
  note l = flockExclusive_fresh [OF flt wf free]
  have s2: "faults ?w2 = []" "lookup ?w2 src = Some si" "lookup ?w2 (src @ crcSuffix) = Some sj" "apart ?w2 src dst"
    using flt src ap by (simp_all add: lookup_def apart_def)
  obtain w3 where c: "copyBoth src dst ?w2 = (Inr (), w3)" "both_copied dst (files ?w2 si) (files ?w2 sj) ?w2 w3"
    by (rule copyBoth_ok [OF s2(1) l(2) s2(2-4)])
  have w3: "faults w3 = []" "flocks w3 = flocks ?w2" "cwd w3 = cwd w" "pagesize w3 = pagesize w"
    and cl3: "\<forall>d < nextOfd ?w2. d \<in> set (closedOfds w3) \<longleftrightarrow> d \<in> set (closedOfds ?w2)"
    using c(2) unfolding both_copied_def by simp_all
  have "\<forall>d\<in>set (closedOfds w). d < ?o" using wf by (simp add: os_wf_def)
  then have o3: "?o \<notin> set (closedOfds w3)" using cl3 by auto
  let ?w4 = "set_locks j [] w3"
  let ?w5 = "?w4\<lparr>closedOfds := ?o # closedOfds w3\<rparr>"
  have un: "flockUnlock (j, ?o) w3 = ?w4" using w3(1,2) o3 l(3) by (simp add: flockUnlock_def flock_un_def)
  have cl: "os_close j ?o ?w4 = (Inr (), ?w5)"
    using os_close_fresh [of ?w4 ?o j] w3(1) by (simp add: others_def)
  have key: "registryKey root mid w3 = (fst (registryKey root mid w), w3)"
    using w3(1,3) flt by (simp add: registryKey_def Let_def)
  have cr: "os_open_create (dst @ crcSuffix) w = (Inr (j, ?o), ?w1)"
    using flt dst(2) by (simp add: os_open_create_def lookup_def Let_def)
  have run: "RestoreOneFromDirectory root mid dir p w = Some (Inr (), flagReload (fst (registryKey root mid w)) p, ?w5)"
    unfolding RestoreOneFromDirectory_def os_Stat_def
    using flt src(1) cr l(1) c(1) key un cl dp by (simp add: Let_def)
  have ino: "ino_at ?w2 dst = i" "lookup ?w2 (dst @ crcSuffix) = Some j" using dst by (simp_all add: ino_at_def lookup_def)
  then have "files w3 i = files w si" "files w3 j = files w sj" using c(2) by (auto simp: both_copied_def)
  then show thesis
    using cl3 w3 free by (intro that [OF run]) (auto simp: fun_eq_iff)
qed

section \<open>A backup of the example store\<close>

lemma ex_bak:
  "dataPathFor ''/bak'' ''kv'' = ''/bak/kv''" "apart ex_w1 ''/tmp/kv'' ''/bak/kv''" "apart ex_w1 ''/bak/kv'' ''/tmp/kv''"
  "faults ex_w1 = []" "compatible SharedLock (flocks ex_w1 i)" "cfg_crypt emptyConfig = m_crypt ex_m1"
proof -
  show "dataPathFor ''/bak'' ''kv'' = ''/bak/kv''"
    by (simp add: dataPathFor_def encodeFilePath_def strings_ContainsAny_def specialChars_def
        filepath_Join_def filepath_Clean_def is_abs_def)
  show "apart ex_w1 ''/tmp/kv'' ''/bak/kv''" "apart ex_w1 ''/bak/kv'' ''/tmp/kv''"
    by (simp_all add: apart_def filepath_Abs_def crcSuffix_def filepath_Clean_def is_abs_def)
  show "faults ex_w1 = []" using ex_kv1(1) by (auto simp: holds_def session_def attached_def)
  show "compatible SharedLock (flocks ex_w1 i)" "cfg_crypt emptyConfig = m_crypt ex_m1"
    by (simp_all add: ex_kv1_files compatible_def ex_kv1_plain ex_cfg)
qed

section \<open>Properties\<close>

text \<open>
  C14: a backup is a byte-for-byte copy of both files, taken without touching the source, and opens to
  the map the store holds.
\<close>

theorem backup_opens_to_same_map:
  assumes h: "holds m w c" and wf: "os_wf w"
    and dp: "lookup w (dataPathFor root mid) = Some (mf_ino (m_data m))"
      "lookup w (dataPathFor root mid @ crcSuffix) = Some (mf_ino (m_meta m))"
    and ap: "apart w (dataPathFor root mid) (dataPathFor dir mid)"
    and lk: "compatible SharedLock (flocks w (mf_ino (m_meta m)))"
    and cfg: "\<not> c_readOnly cfg" "cfg_crypt cfg = m_crypt m"
  shows "\<exists>w'. BackupOne root mid dir w = Some (Inr (), w') \<and>
    file_at w' (dataPathFor dir mid) = data_file m w \<and> file_at w' (dataPathFor dir mid @ crcSuffix) = meta_file m w \<and>
    data_file m w' = data_file m w \<and> meta_file m w' = meta_file m w \<and> flocks w' = flocks w \<and>
    (\<exists>m' w2 ps. mmkv_open (newMMKV dir mid key cfg) w' = Some (Inr (), m', w2) \<and> store_inv m' w2 ps \<and> content m' w2 = c)"
proof -
  let ?src = "dataPathFor root mid" and ?dst = "dataPathFor dir mid"
  obtain mi ps where s: "attached m w mi ps" "can_write m w" "meta_consistent mi" "log_map ps = c"
    using h by (auto simp: holds_def session_def)
  have w: "faults w = []" "4 \<le> pagesize w" "on_disk (m_crypt m) (data_file m w) (meta_file m w) mi ps"
    using s(1,2) by (auto simp: attached_def can_write_def)
  obtain w' where b: "BackupOne root mid dir w = Some (Inr (), w')" "file_at w' ?dst = data_file m w"
    "file_at w' (?dst @ crcSuffix) = meta_file m w" "lookup w' ?dst \<noteq> None" "lookup w' (?dst @ crcSuffix) \<noteq> None"
    "data_file m w' = data_file m w" "meta_file m w' = meta_file m w" "lookup w' ?src = Some (mf_ino (m_data m))"
    "lookup w' (?src @ crcSuffix) = Some (mf_ino (m_meta m))"
    "os_wf w'" "flocks w' = flocks w" "faults w' = []" "pagesize w' = pagesize w" "cwd w' = cwd w" "nowUnix w' = nowUnix w"
    by (rule BackupOne_ok [OF w(1) wf refl refl dp ap lk])
  have disk: "on_disk (cfg_crypt cfg) (opened_data w' ?dst) (opened_meta w' ?dst) mi ps"
    unfolding opened_data_def opened_meta_def b(2,3) using on_disk_resize [OF w(3)] cfg(2) by simp
  have w': "4 \<le> pagesize w'" "filepath_Abs (cwd w') (?dst @ crcSuffix) \<noteq> filepath_Abs (cwd w') ?dst"
    using w(2) b(13,14) ap by (auto simp: apart_def)
  obtain m' w2 where "mmkv_open (newMMKV dir mid key cfg) w' = Some (Inr (), m', w2)" "store_inv m' w2 ps"
    by (rule mmkv_open_ok [OF b(12) w'(1) b(10) refl w'(2) cfg(1) disk s(3)]) blast
  moreover from this have "content m' w2 = c" using s(4) by (simp add: store_inv_def loaded_def)
  ultimately show ?thesis using b(1-3,6,7,11) by blast
qed

theorem backup_opens_to_same_map_witness:
  "\<exists>w' m' w2. BackupOne ''/tmp'' ''kv'' ''/bak'' ex_w1 = Some (Inr (), w') \<and>
     mmkv_open (newMMKV ''/bak'' ''kv'' ''/bak/kv'' emptyConfig) w' = Some (Inr (), m', w2) \<and> content m' w2 = [[107] \<mapsto> [1, 7]]"
proof -
  have a: "apart ex_w1 (dataPathFor ''/tmp'' ''kv'') (dataPathFor ''/bak'' ''kv'')" unfolding ex_path ex_bak(1) by (rule ex_bak(2))
  show ?thesis
    using backup_opens_to_same_map [OF ex_kv1(1) ex_kv1_files(3) ex_kv1_files(1,2) [folded ex_path] a ex_bak(5) ex_cfg(1) ex_bak(6),
        where key = "''/bak/kv''"] by blast
qed

text \<open>
  C15: restoring a store that a process has open takes effect in that process: its instance, whatever it
  had cached, holds the restored map from its next operation on.
\<close>

theorem restore_reaches_open_instance:
  assumes h: "holds m w c0" and wf: "os_wf w" and reg: "p_reg p (fst (registryKey root mid w)) = Some n" "p_heap p n = m"
    and dp: "lookup w (dataPathFor root mid) = Some (mf_ino (m_data m))"
      "lookup w (dataPathFor root mid @ crcSuffix) = Some (mf_ino (m_meta m))"
    and src: "lookup w (dataPathFor dir mid) = Some si" "lookup w (dataPathFor dir mid @ crcSuffix) = Some sj"
    and ap: "apart w (dataPathFor dir mid) (dataPathFor root mid)"
    and free: "flocks w (mf_ino (m_meta m)) = []" "m_multiProcess m \<longrightarrow> fl_ofd (m_fl m) < nextOfd w"
    and disk: "on_disk (m_crypt m) (files w si) (files w sj) mi ps" "meta_consistent mi"
      "length (files w sj) = length (meta_file m w)"
  shows "\<exists>p' w'. RestoreOneFromDirectory root mid dir p w = Some (Inr (), p', w') \<and> holds (p_heap p' n) w' (log_map ps)"
proof -
  have w: "faults w = []" using h by (auto simp: holds_def session_def attached_def)
  let ?p = "flagReload (fst (registryKey root mid w)) p"
  obtain w' where r: "RestoreOneFromDirectory root mid dir p w = Some (Inr (), ?p, w')"
    "data_file m w' = files w si" "meta_file m w' = files w sj"
    "\<forall>d < nextOfd w. d \<in> set (closedOfds w') \<longleftrightarrow> d \<in> set (closedOfds w)" "flocks w' = flocks w" "faults w' = []"
    "pagesize w' = pagesize w"
    by (rule Restore_ok [OF w wf refl refl src dp ap free(1)])
  have i: "p_heap ?p n = m\<lparr>m_needLoad := True\<rparr>" using reg by (simp add: flagReload_def)
  have "attached (m\<lparr>m_needLoad := True\<rparr>) w' mi ps" "can_write (m\<lparr>m_needLoad := True\<rparr>) w'" "idle (m\<lparr>m_needLoad := True\<rparr>) w'"
    using h disk(1,3) r(2-7) free(2)
    by (auto simp: holds_def session_def attached_def mf_mapped_def can_write_def idle_def fl_inv_def held_def)
  then show ?thesis using r(1) i disk(2) by (auto simp: holds_def session_def)
qed

theorem restore_reaches_open_instance_witness:
  "\<exists>w p p' w'. BackupOne ''/tmp'' ''kv'' ''/bak'' ex_w1 = Some (Inr (), w) \<and> p_heap p 0 = ClearMemoryCache ex_m1 \<and>
     RestoreOneFromDirectory ''/tmp'' ''kv'' ''/bak'' p w = Some (Inr (), p', w') \<and> holds (p_heap p' 0) w' [[107] \<mapsto> [1, 7]]"
proof -
  let ?src = "dataPathFor ''/tmp'' ''kv''" and ?dst = "dataPathFor ''/bak'' ''kv''" and ?m = "ClearMemoryCache ex_m1"
  have a: "apart ex_w1 ?src ?dst" unfolding ex_path ex_bak(1) by (rule ex_bak(2))
  obtain w where b: "BackupOne ''/tmp'' ''kv'' ''/bak'' ex_w1 = Some (Inr (), w)" "file_at w ?dst = data_file ex_m1 ex_w1"
    "file_at w (?dst @ crcSuffix) = meta_file ex_m1 ex_w1" "lookup w ?dst \<noteq> None" "lookup w (?dst @ crcSuffix) \<noteq> None"
    "data_file ex_m1 w = data_file ex_m1 ex_w1" "meta_file ex_m1 w = meta_file ex_m1 ex_w1"
    "lookup w ?src = Some (mf_ino (m_data ex_m1))" "lookup w (?src @ crcSuffix) = Some (mf_ino (m_meta ex_m1))"
    "os_wf w" "flocks w = flocks ex_w1" "faults w = []" "pagesize w = pagesize ex_w1" "cwd w = cwd ex_w1" "nowUnix w = nowUnix ex_w1"
    by (rule BackupOne_ok [OF ex_bak(4) ex_kv1_files(3) refl refl ex_kv1_files(1,2) [folded ex_path] a ex_bak(5)])
  obtain si sj where l: "lookup w ?dst = Some si" "lookup w (?dst @ crcSuffix) = Some sj" using b(4,5) by blast
  have f: "files w si = data_file ex_m1 ex_w1" "files w sj = meta_file ex_m1 ex_w1" using b(2,3) l by (simp_all add: file_at_def)
  obtain mi ps where s: "attached ex_m1 ex_w1 mi ps" "can_write ex_m1 ex_w1" "meta_consistent mi" "log_map ps = [[107] \<mapsto> [1, 7]]"
    using ex_kv1(1) by (auto simp: holds_def session_def)
  have single: "\<not> m_multiProcess ex_m1" using ex_kv(6) ex_kv1(3) by (simp add: keeps_def emptyConfig_def)
  have inst: "m_data ?m = m_data ex_m1" "m_meta ?m = m_meta ex_m1" "m_crypt ?m = m_crypt ex_m1" "m_multiProcess ?m = m_multiProcess ex_m1"
    by (simp_all add: ClearMemoryCache_def)
  have h: "holds ?m w (log_map ps)"
    using s b(6,7,12,13) single
    by (auto simp: holds_def session_def attached_def mf_mapped_def can_write_def idle_def ClearMemoryCache_def)
  let ?p = "\<lparr>p_heap = (\<lambda>_. ?m), p_next = 1, p_reg = (\<lambda>_. Some 0)\<rparr>"
  have g: "p_reg ?p (fst (registryKey ''/tmp'' ''kv'' w)) = Some 0" "p_heap ?p 0 = ?m"
    "apart w ?dst ?src" "flocks w (mf_ino (m_meta ?m)) = []" "m_multiProcess ?m \<longrightarrow> fl_ofd (m_fl ?m) < nextOfd w"
    "on_disk (m_crypt ?m) (files w si) (files w sj) mi ps" "length (files w sj) = length (meta_file ?m w)"
    using ex_bak(3) b(7,11,14) single s(1) f unfolding inst ex_path ex_bak(1)
    by (simp_all add: apart_def ex_kv1_files attached_def)
  have k: "lookup w ?src = Some (mf_ino (m_data ?m))" "lookup w (?src @ crcSuffix) = Some (mf_ino (m_meta ?m))"
    using b(8,9) unfolding inst by simp_all
  show ?thesis
    using restore_reaches_open_instance [OF h b(10) g(1,2) k l g(3-6) s(3) g(7)] b(1) g(2) s(4) by metis
qed

end
