(* ===== verification/Registry.thy ===== *)
theory Registry
  imports Guards BackupProps
begin

text \<open>
  The registry of open instances (\<^verbatim>\<open>gInstances\<close>): at most one open instance per data file in a process,
  kept by opening, closing, removing and using instances; and the window inside \<^verbatim>\<open>Close\<close> in which this
  fails.
\<close>

section \<open>Operations keep the identity of an instance\<close>

definition same_id :: "mmkv \<Rightarrow> mmkv \<Rightarrow> bool" where
  "same_id m m' \<longleftrightarrow> m_key m' = m_key m \<and> m_closed m' = m_closed m"

lemma same_id_refl [simp]: "same_id m m"
  by (simp add: same_id_def)

lemma same_id_trans: "same_id m m1 \<Longrightarrow> same_id m1 m2 \<Longrightarrow> same_id m m2"
  by (simp add: same_id_def)

definition keeps_id :: "'a step \<Rightarrow> bool" where
  "keeps_id f \<longleftrightarrow> (\<forall>m w. same_id m (fst (snd (f m w))))"

lemma keeps_idD: "keeps_id f \<Longrightarrow> f m w = (r, m', w') \<Longrightarrow> same_id m m'"
  unfolding keeps_id_def by (metis fst_conv snd_conv)

lemma keeps_id_return: "keeps_id (\<lambda>m w. (r, m, w))"
  by (simp add: keeps_id_def)

lemma keeps_id_andThen:
  assumes "keeps_id f" "\<And>x. keeps_id (g x)"
  shows "keeps_id (andThen f g)"
  unfolding keeps_id_def
proof (intro allI)
  fix m w
  obtain r m1 w1 where f: "f m w = (r, m1, w1)" by (cases "f m w")
  have "same_id m m1" by (rule keeps_idD [OF assms(1) f])
  moreover have "same_id m1 (fst (snd (g x m1 w1)))" for x using assms(2) by (simp add: keeps_id_def)
  ultimately show "same_id m (fst (snd (andThen f g m w)))"
    by (cases r) (auto simp: andThen_def f intro: same_id_trans)
qed

lemma decodeRegion_id: "same_id m (snd (decodeRegion a c m w))"
  by (simp add: decodeRegion_def same_id_def split: sum.split option.split)

lemma salvage_id: "same_id m (snd (salvage m w))"
  by (simp add: salvage_def same_id_def Let_def split: sum.split)

lemma loadData_id: "same_id m (snd (loadData m w))"
proof -
  have d: "same_id m (snd (decodeRegion a c m1 w))" "same_id m (snd (salvage m1 w))" if "same_id m m1" for a c m1
    using same_id_trans [OF that decodeRegion_id] same_id_trans [OF that salvage_id] by blast+
  have i: "same_id m (m\<lparr>m_info := i\<rparr>)" "same_id m (m\<lparr>m_info := i, m_enableExpire := e\<rparr>)"
    "same_id m (m\<lparr>m_enableExpire := e, m_info := i\<rparr>)"
    "same_id m (m\<lparr>m_info := i, m_enableExpire := e, m_dict := [], m_actualSize := 0, m_crcDigest := 0\<rparr>)" for i e
    by (simp_all add: same_id_def)
  show ?thesis
    unfolding loadData_def Let_def by (simp add: d i split: sum.split bool.split)
qed

lemma keeps_id_sealRegion: "keeps_id (sealRegion region)"
  by (auto simp: keeps_id_def sealRegion_def same_id_def split: option.split prod.split sum.split)

lemma keeps_id_growFile: "keeps_id (growFile b n l)"
  by (auto simp: keeps_id_def growFile_def same_id_def split: prod.split if_split)

lemma keeps_id_storeRegion: "keeps_id (storeRegion payload)"
  by (auto simp: keeps_id_def storeRegion_def same_id_def Let_def split: prod.split sum.split)

lemma keeps_id_rebuildDict: "keeps_id (rebuildDict region)"
  by (auto simp: keeps_id_def rebuildDict_def same_id_def split: option.split sum.split)

lemma keeps_id_msyncBoth: "keeps_id (msyncBoth b)"
  by (auto simp: keeps_id_def msyncBoth_def split: prod.split sum.split)

lemma keeps_id_fullWritebackGrow: "keeps_id (fullWritebackGrow b n)"
proof -
  have k: "keeps_id (andThen (sealRegion region) (\<lambda>payload.
           andThen (growFile b n (length payload)) (\<lambda>_.
           andThen (storeRegion payload) (\<lambda>_.
           andThen (rebuildDict region) (\<lambda>_.
           if b then msyncBoth True else (\<lambda>m w. (Inr (), m, w)))))))" for region
    by (intro keeps_id_andThen keeps_id_sealRegion keeps_id_growFile keeps_id_storeRegion keeps_id_rebuildDict)
      (simp add: keeps_id_msyncBoth keeps_id_return)
  have "same_id m (fst (snd (fullWritebackGrow b n m w)))" for m w
    using k [unfolded keeps_id_def] unfolding fullWritebackGrow_def Let_def by simp
  then show ?thesis by (simp add: keeps_id_def)
qed

lemma relocked_id: "relocked m m' \<Longrightarrow> same_id m m'"
  by (simp add: same_id_def relocked_sel)

lemma mmkv_open_id:
  assumes "mmkv_open m w = Some (r, m', w')"
  shows "same_id m m'"
proof -
  have l: "same_id m m2" if "loadData (m\<lparr>m_data := d, m_meta := mt, m_fl := l\<rparr>) w1 = (x, m2)" for d mt l w1 x m2
    using loadData_id [of "m\<lparr>m_data := d, m_meta := mt, m_fl := l\<rparr>" w1] that by (simp add: same_id_def)
  have e: "same_id m2 m3" if "withExclusive fullWriteback m2 w2 = Some (x, m3, w3)" for m2 w2 x m3 w3
    using that
  proof (rule withExclusive_cases)
    fix m4 w4 m5 w5
    assume a: "relocked m2 m4" "fullWriteback m4 w4 = (x, m5, w5)" "relocked m5 m3"
    have "same_id m4 m5" using keeps_idD [OF keeps_id_fullWritebackGrow] a(2) unfolding fullWriteback_def by blast
    then show ?thesis using relocked_id [OF a(1)] relocked_id [OF a(3)] by (auto intro: same_id_trans)
  qed
  show ?thesis
    using assms unfolding mmkv_open_def
    by (auto split: prod.splits sum.splits if_splits dest: l e intro: same_id_trans)
qed

section \<open>Every operation keeps it\<close>

lemma reload_id: "same_id m (fst (snd (reloadBestEffort rm m w)))"
proof -
  obtain r d w1 where r: "(if rm then remap (m_data m) w else (Inr (), m_data m, w)) = (r, d, w1)"
    by (cases "if rm then remap (m_data m) w else (Inr (), m_data m, w)")
  obtain x m2 where l: "loadData (m\<lparr>m_data := d\<rparr>) w1 = (x, m2)" by fastforce
  have "same_id m m2" using loadData_id [of "m\<lparr>m_data := d\<rparr>" w1] l by (simp add: same_id_def)
  then show ?thesis
    unfolding reloadBestEffort_def r by (simp add: l same_id_def split: sum.split)
qed

lemma keeps_id_checkLoadData: "keeps_id checkLoadData"
proof -
  have l: "same_id m m2" if "reloadBestEffort rm m w = (x, m2, w1)" for rm m w x m2 w1
    using reload_id [of m rm w] that by simp
  have n: "same_id m (fst (snd (reloadBestEffort rm (m\<lparr>m_needLoad := False\<rparr>) w)))" for rm m w
    using reload_id [of "m\<lparr>m_needLoad := False\<rparr>" rm w] by (simp add: same_id_def)
  show ?thesis
    unfolding keeps_id_def checkLoadData_def
    by (auto split: prod.split sum.split dest!: l simp: n) (simp_all add: same_id_def)
qed

lemma putMeta_id: "putMeta m w = (r, m', w') \<Longrightarrow> m' = m"
  by (auto simp: putMeta_def split: sum.splits)

lemma keeps_id_appendRaw: "keeps_id (appendRaw bs)"
  by (auto simp: keeps_id_def appendRaw_def putMeta_def same_id_def Let_def split: prod.split sum.split)

lemma keeps_id_writeback_upd:
  assumes "same_id m m0"
  shows "same_id m (fst (snd (fullWritebackGrow b n m0 w)))" "same_id m (fst (snd (fullWriteback m0 w)))"
  using keeps_id_fullWritebackGrow assms unfolding keeps_id_def fullWriteback_def
  by (blast intro: same_id_trans)+

lemma keeps_id_setBlob: "keeps_id (setBlob k b)"
proof -
  have a: "same_id m m1" if "appendRaw bs m w = (x, m1, w1)" for bs m w x m1 w1
    using keeps_idD [OF keeps_id_appendRaw that] .
  have o: "keeps_id (overrideRaw k pair n)" for pair n
    by (auto simp: keeps_id_def overrideRaw_def same_id_def Let_def split: prod.split sum.split dest!: putMeta_id)
  have o': "same_id m (fst (snd (overrideRaw k pair n m w)))" for pair n m w using o by (simp add: keeps_id_def)
  have "same_id m (m\<lparr>m_dict := d\<rparr>)" for m d by (simp add: same_id_def)
  note f = keeps_id_writeback_upd(1) [OF this]
  show ?thesis
    unfolding keeps_id_def setBlob_def Let_def
    by (auto split: prod.split sum.split dest!: a simp: o' f) (simp_all add: same_id_def)
qed

lemma keeps_id_trim:
  "keeps_id (andThen fullWriteback (\<lambda>_ m w.
        let floor = pageRoundUp (pagesize w) 0;
            target = max (shrinkSize ((unat (m_actualSize m) + 4) * 2) (fileSize (m_data m))) floor
        in if target \<ge> fileSize (m_data m) then (Inr (), m, w)
           else (case MemFile.truncate target (m_data m) w of
                   (Inl e, d, w1) \<Rightarrow> (Inl e, m\<lparr>m_data := d\<rparr>, w1)
                 | (Inr _, d, w1) \<Rightarrow>
                     (case decodeRegion (m_actualSize m) (m_crcDigest m) (m\<lparr>m_data := d\<rparr>) w1 of
                        (Inl e, m1) \<Rightarrow> (Inl e, m1, w1)
                      | (Inr _, m1) \<Rightarrow> (case msync True (m_meta m1) w1 of (r, w2) \<Rightarrow> (r, m1, w2))))))"
proof (rule keeps_id_andThen)
  show "keeps_id fullWriteback" using keeps_id_fullWritebackGrow by (simp add: fullWriteback_def)
  have d: "same_id m m1" if "decodeRegion a c (m\<lparr>m_data := d\<rparr>) w = (x, m1)" for m a c d w x m1
    using decodeRegion_id [of "m\<lparr>m_data := d\<rparr>" a c w] that by (simp add: same_id_def)
  show "keeps_id (\<lambda>m w. let floor = pageRoundUp (pagesize w) 0;
            target = max (shrinkSize ((unat (m_actualSize m) + 4) * 2) (fileSize (m_data m))) floor
        in if target \<ge> fileSize (m_data m) then (Inr (), m, w)
           else (case MemFile.truncate target (m_data m) w of
                   (Inl e, d, w1) \<Rightarrow> (Inl e, m\<lparr>m_data := d\<rparr>, w1)
                 | (Inr _, d, w1) \<Rightarrow>
                     (case decodeRegion (m_actualSize m) (m_crcDigest m) (m\<lparr>m_data := d\<rparr>) w1 of
                        (Inl e, m1) \<Rightarrow> (Inl e, m1, w1)
                      | (Inr _, m1) \<Rightarrow> (case msync True (m_meta m1) w1 of (r, w2) \<Rightarrow> (r, m1, w2)))))" for x :: unit
    unfolding keeps_id_def Let_def
    by (auto split: prod.split sum.split dest!: d) (simp_all add: same_id_def)
qed

lemma keeps_id_bodies:
  "keeps_id (setValueLocked k b)" "keeps_id (removeLocked k)" "keeps_id (removeKeysLocked ks)" "keeps_id clearAllLocked"
  "keeps_id trimLocked" "keeps_id (rekeyLocked key)" "keeps_id (enableExpireLocked s)" "keeps_id disableExpireLocked"
proof -
  have u: "same_id m (m\<lparr>m_dict := d\<rparr>)" "same_id m (m\<lparr>m_crypt := c\<rparr>)" for m d c by (simp_all add: same_id_def)
  note f = keeps_id_writeback_upd(2)
  have b: "same_id m (fst (snd (setBlob k v m w)))" for k v m w using keeps_id_setBlob by (simp add: keeps_id_def)
  have a: "same_id m (fst (snd (appendRaw v (m\<lparr>m_dict := d\<rparr>) w)))" for v m d w
    using keeps_id_appendRaw [unfolded keeps_id_def] u(1) by (blast intro: same_id_trans)
  have fw: "same_id m m2" if "fullWriteback m0 w = (x, m2, w2)" "same_id m m0" for m m0 w x m2 w2
    using f [OF that(2), of w] that(1) by simp
  show "keeps_id (setValueLocked k b)"
    unfolding keeps_id_def setValueLocked_def Let_def by (auto split: option.split sum.split bool.split simp: b)
  show "keeps_id (removeLocked k)" unfolding keeps_id_def removeLocked_def Let_def by (simp add: a f u)
  show "keeps_id (removeKeysLocked ks)"
    unfolding keeps_id_def removeKeysLocked_def by (simp add: f u split: prod.split)
  have m: "keeps_id (msyncBoth b)" for b by (rule keeps_id_msyncBoth)
  have m': "same_id m (fst (snd (msyncBoth b m0 w)))" if "same_id m m0" for b m m0 w
    using m that unfolding keeps_id_def by (blast intro: same_id_trans)
  show "keeps_id clearAllLocked"
    unfolding keeps_id_def clearAllLocked_def Let_def
    by (auto split: prod.split sum.split intro!: m') (simp_all add: same_id_def)
  show "keeps_id (rekeyLocked key)"
    unfolding keeps_id_def rekeyLocked_def Let_def
    by (auto split: prod.split sum.split dest!: fw [OF _ u(2)]) (simp_all add: same_id_def)
  show "keeps_id (enableExpireLocked s)"
    unfolding keeps_id_def enableExpireLocked_def Let_def by (auto intro!: f) (simp_all add: same_id_def)
  show "keeps_id disableExpireLocked"
    unfolding keeps_id_def disableExpireLocked_def by (auto split: sum.split intro!: f) (simp_all add: same_id_def)
  show "keeps_id trimLocked" using \<open>keeps_id clearAllLocked\<close> keeps_id_trim by (simp add: keeps_id_def trimLocked_def)
qed

lemma withExclusive_id: "keeps_id body \<Longrightarrow> withExclusive body m w = Some (r, m', w') \<Longrightarrow> same_id m m'"
  by (erule withExclusive_cases) (blast intro: same_id_trans relocked_id keeps_idD)

lemma withShared_id: "keeps_id body \<Longrightarrow> withShared body m w = Some (r, m', w') \<Longrightarrow> same_id m m'"
  by (erule withShared_cases) (blast intro: same_id_trans relocked_id keeps_idD)

lemma exec_id:
  assumes "exec cm m w = Some (r, m', w')"
  shows "same_id m m'"
proof -
  have k: "keeps_id (\<lambda>m w. if m_closed m then (Inl ErrClosed, m, w) else if m_readOnly m then (Inl ErrReadOnly, m, w)
      else andThen checkLoadData (\<lambda>_. body) m w)" if "keeps_id body" for body :: "unit step"
    using keeps_id_andThen [OF keeps_id_checkLoadData that] by (simp add: keeps_id_def)
  obtain body where "exec cm = writeOp body" "keeps_id body"
    by (cases cm) (auto simp: setValue_def RemoveValueForKey_def RemoveValuesForKeys_def ClearAll_def Trim_def ReKey_def
        EnableAutoKeyExpire_def DisableAutoKeyExpire_def intro: keeps_id_bodies)
  then show ?thesis using assms withExclusive_id [OF k] unfolding writeOp_def by simp
qed

lemma readOp_id:
  assumes "readOp dflt body m w = Some (r, m', w')"
  shows "same_id m m'"
proof -
  have l: "same_id m m2" if "checkLoadData m w = (x, m2, w1)" for m w x m2 w1
    using keeps_idD [OF keeps_id_checkLoadData that] .
  have "keeps_id (\<lambda>m w. if m_closed m then (Inr dflt, m, w)
      else (case checkLoadData m w of (Inl e, m1, w1) \<Rightarrow> (Inl e, m1, w1) | (Inr _, m1, w1) \<Rightarrow> (body m1 w1, m1, w1)))"
    unfolding keeps_id_def by (auto split: prod.split sum.split dest!: l)
  then show ?thesis using assms unfolding readOp_def by (rule withShared_id)
qed

section \<open>The registry\<close>

text \<open>
  A process and the system it runs on.  It opens an instance (or gets the registered one), closes one,
  removes a store, or uses one: any operation that keeps the identity of the instance, which the
  commands and the reads do by \<open>exec_id\<close> and \<open>readOp_id\<close>.
\<close>

inductive reg_step :: "process \<times> os \<Rightarrow> process \<times> os \<Rightarrow> bool" where
  open_reg: "MMKVWithID root mid opts p w = Some (r, p', w') \<Longrightarrow> reg_step (p, w) (p', w')"
| close_reg: "Close i p w = (r, p', w') \<Longrightarrow> reg_step (p, w) (p', w')"
| remove_reg: "RemoveStorage root mid p w = (r, p', w') \<Longrightarrow> reg_step (p, w) (p', w')"
| use_reg: "same_id (p_heap p i) m' \<Longrightarrow> reg_step (p, w) (p\<lparr>p_heap := (p_heap p)(i := m')\<rparr>, w')"

definition reg_init :: "process \<times> os \<Rightarrow> bool" where
  "reg_init s \<longleftrightarrow> p_next (fst s) = 0 \<and> p_reg (fst s) = Map.empty"

text \<open>The registered instances are exactly the open ones, each under its own key.\<close>

definition reg_inv :: "process \<times> os \<Rightarrow> bool" where
  "reg_inv s \<longleftrightarrow>
     (\<forall>key i. p_reg (fst s) key = Some i \<longleftrightarrow>
        i < p_next (fst s) \<and> m_key (p_heap (fst s) i) = key \<and> \<not> m_closed (p_heap (fst s) i))"

lemma reg_inv_open:
  assumes "reg_inv (p, w)" "MMKVWithID root mid opts p w = Some (r, p', w')"
  shows "reg_inv (p', w')"
proof -
  obtain key w0 where k: "registryKey root mid w = (key, w0)" by fastforce
  let ?new = "newMMKV root mid key (fold (\<lambda>opt c. opt c) opts emptyConfig)"
  have c: "p_reg p key = Some i \<Longrightarrow> \<not> m_closed (p_heap p i)" for i using assms(1) by (auto simp: reg_inv_def)
  show ?thesis
  proof (cases "p' = p")
    case True
    then show ?thesis using assms(1) by (simp add: reg_inv_def)
  next
    case False
    then obtain m where m: "mmkv_open ?new w0 = Some (Inr (), m, w')" "p_reg p key = None"
      "p' = p\<lparr>p_heap := (p_heap p)(p_next p := m), p_next := p_next p + 1, p_reg := (p_reg p)(key \<mapsto> p_next p)\<rparr>"
      using assms(2) c unfolding MMKVWithID_def k by (auto simp: Let_def split: option.splits prod.splits sum.splits)
    have "m_key m = key" "\<not> m_closed m" using mmkv_open_id [OF m(1)] by (simp_all add: same_id_def newMMKV_def)
    moreover have "m_closed (p_heap p i)" if "i < p_next p" "m_key (p_heap p i) = key" for i
      using assms(1) m(2) that unfolding reg_inv_def by (metis fst_conv option.distinct(1))
    ultimately show ?thesis using assms(1) unfolding m(3) reg_inv_def by (auto simp: less_Suc_eq)
  qed
qed

lemma closeFiles_id: "closeFiles m w = (r, m', w') \<Longrightarrow> same_id m m'"
  by (auto simp: closeFiles_def same_id_def split: prod.splits)

lemma reg_inv_close:
  assumes "reg_inv (p, w)" "Close i p w = (r, p', w')"
  shows "reg_inv (p', w')"
proof (cases "m_closed (p_heap p i)")
  case True
  then have "unregister i p = p" using assms(1) by (auto simp: unregister_def reg_inv_def)
  then have "p' = p" using assms(2) True by (simp add: Close_def shutdown_def)
  then show ?thesis using assms(1) by (simp add: reg_inv_def)
next
  case False
  have u: "p_heap (unregister i p) = p_heap p" "p_next (unregister i p) = p_next p"
    by (simp_all add: unregister_def Let_def)
  obtain m w1 where m: "closeFiles ((p_heap p i)\<lparr>m_closed := True\<rparr>) w = (r, m, w1)"
    "p' = (unregister i p)\<lparr>p_heap := (p_heap p)(i := m)\<rparr>"
    using assms(2) False u(1) by (auto simp: Close_def shutdown_def split: prod.splits)
  have "m_closed m" using closeFiles_id [OF m(1)] by (simp add: same_id_def)
  moreover have "p_reg (unregister i p) key = Some j \<longleftrightarrow> p_reg p key = Some j \<and> j \<noteq> i" for key j
  proof (cases "p_reg p key = Some i")
    case True
    then have "m_key (p_heap p i) = key" using assms(1) by (simp add: reg_inv_def)
    then show ?thesis using True by (auto simp: unregister_def Let_def)
  qed (auto simp: unregister_def Let_def)
  ultimately show ?thesis using assms(1) unfolding m(2) reg_inv_def by (auto simp: u)
qed

lemma reg_inv_remove:
  assumes "reg_inv (p, w)" "RemoveStorage root mid p w = (r, p', w')"
  shows "reg_inv (p', w')"
proof -
  obtain key w0 where k: "registryKey root mid w = (key, w0)" by fastforce
  have w: "reg_inv (p, w) = reg_inv (p, v)" for p w v by (simp add: reg_inv_def)
  show ?thesis
  proof (cases "p_reg p key")
    case None
    then have "p' = p" using assms(2) k by (auto simp: RemoveStorage_def Let_def split: prod.splits if_splits)
    then show ?thesis using assms(1) w by blast
  next
    case (Some i)
    obtain x p1 w1 where c: "Close i p w0 = (x, p1, w1)" by (cases "Close i p w0")
    then have "p' = p1" using assms(2) k Some by (auto simp: RemoveStorage_def Let_def split: prod.splits if_splits)
    then show ?thesis using reg_inv_close [OF _ c] assms(1) w by blast
  qed
qed

interpretation registry: invariant_system reg_init reg_step reg_inv
proof
  show "reg_inv s" if "reg_init s" for s using that by (simp add: reg_init_def reg_inv_def)
  show "reg_inv t" if "reg_inv s" "reg_step s t" for s t
    using that(2,1)
  proof (cases rule: reg_step.cases)
    case (use_reg p i m' w w')
    then show ?thesis using that(1) by (auto simp: reg_inv_def same_id_def)
  qed (auto intro: reg_inv_open reg_inv_close reg_inv_remove)
qed

section \<open>Properties\<close>

text \<open>
  C16: one open instance per file.  In every state a process reaches by opening, closing, removing and
  using stores, two open instances with the same registry key are the same instance, and opening a
  path whose instance is open returns that instance and changes nothing.
\<close>

theorem one_open_instance_per_file:
  assumes "reach reg_init reg_step (p, w)"
  shows "(i < p_next p \<and> j < p_next p \<and> \<not> m_closed (p_heap p i) \<and> \<not> m_closed (p_heap p j) \<and>
      m_key (p_heap p i) = m_key (p_heap p j) \<longrightarrow> i = j) \<and>
    (i < p_next p \<and> \<not> m_closed (p_heap p i) \<and> registryKey root mid w = (m_key (p_heap p i), w0) \<longrightarrow>
      MMKVWithID root mid opts p w = Some (Inr i, p, w0))"
proof -
  have "reg_inv (p, w)" using assms by (rule registry.reach_inv)
  then have r: "i < p_next p \<Longrightarrow> \<not> m_closed (p_heap p i) \<Longrightarrow> p_reg p (m_key (p_heap p i)) = Some i" for i
    by (auto simp: reg_inv_def)
  have "i < p_next p \<and> j < p_next p \<and> \<not> m_closed (p_heap p i) \<and> \<not> m_closed (p_heap p j) \<and>
      m_key (p_heap p i) = m_key (p_heap p j) \<longrightarrow> i = j"
    using r [of i] r [of j] by (metis option.inject)
  moreover have "MMKVWithID root mid opts p w = Some (Inr i, p, w0)"
    if a: "i < p_next p" "\<not> m_closed (p_heap p i)" "registryKey root mid w = (m_key (p_heap p i), w0)"
    using r [OF a(1,2)] a(2) unfolding MMKVWithID_def a(3) by (simp add: Let_def)
  ultimately show ?thesis by blast
qed

text \<open>A process that has opened a new store.\<close>

definition ex_proc0 :: process where
  "ex_proc0 = \<lparr>p_heap = (\<lambda>_. ex_m), p_next = 0, p_reg = Map.empty\<rparr>"

definition ex_proc1 :: process where
  "ex_proc1 = \<lparr>p_heap = (\<lambda>_. ex_m), p_next = 1, p_reg = [''/tmp/kv'' \<mapsto> 0]\<rparr>"

lemma ex_registry:
  "registryKey ''/tmp'' ''kv'' w = (''/tmp/kv'', w)" "MMKVWithID ''/tmp'' ''kv'' [] ex_proc0 ex_disk = Some (Inr 0, ex_proc1, ex_w)"
  "m_key ex_m = ''/tmp/kv''" "\<not> m_closed ex_m"
proof -
  show k: "registryKey ''/tmp'' ''kv'' w = (''/tmp/kv'', w)" for w
    unfolding registryKey_def ex_path by (simp add: is_abs_def filepath_Abs_def filepath_Clean_def)
  show "m_key ex_m = ''/tmp/kv''" "\<not> m_closed ex_m"
    using mmkv_open_id [OF ex_kv(4)] by (simp_all add: same_id_def newMMKV_def)
  show "MMKVWithID ''/tmp'' ''kv'' [] ex_proc0 ex_disk = Some (Inr 0, ex_proc1, ex_w)"
    unfolding MMKVWithID_def k ex_proc0_def ex_proc1_def using ex_kv(4) by (auto split: prod.split)
qed

text \<open>The same process after a value was set.\<close>

definition ex_proc2 :: process where
  "ex_proc2 = ex_proc1\<lparr>p_heap := (p_heap ex_proc1)(0 := ex_m1)\<rparr>"

lemma ex_proc1_reach: "reach reg_init reg_step (ex_proc1, ex_w)"
proof -
  have "reach reg_init reg_step (ex_proc0, ex_disk)" by (rule reach_init) (simp add: reg_init_def ex_proc0_def)
  then show ?thesis by (rule reach_step) (rule open_reg [OF ex_registry(2)])
qed

lemma ex_proc2_reach: "reach reg_init reg_step (ex_proc2, ex_w1)"
proof -
  have "same_id (p_heap ex_proc1 0) ex_m1"
    using ex_kv1(5) exec_id [of "CSet [107] [1, 7]" ex_m ex_w "Inr ()" ex_m1 ex_w1] by (simp add: ex_proc1_def)
  then have "reg_step (ex_proc1, ex_w) (ex_proc2, ex_w1)" unfolding ex_proc2_def by (rule use_reg)
  then show ?thesis by (rule reach_step [OF ex_proc1_reach])
qed

theorem one_open_instance_per_file_witness:
  "reach reg_init reg_step (ex_proc1, ex_w) \<and> MMKVWithID ''/tmp'' ''kv'' [] ex_proc1 ex_w = Some (Inr 0, ex_proc1, ex_w)"
proof -
  note r = ex_proc1_reach
  show ?thesis
    using r one_open_instance_per_file [OF r, of 0 0 "''/tmp''" "''kv''" ex_w "[]"]
    by (simp add: ex_registry ex_proc1_def)
qed

text \<open>
  C39: closing takes two steps, and the registry entry goes first.  When another goroutine opens the
  same store between them, it gets a second open instance on the same file, while the first one still
  accepts operations: the guarantee above does not hold inside \<^verbatim>\<open>Close\<close>.
\<close>

theorem close_window_admits_second_instance:
  assumes r: "reach reg_init reg_step (p, w)" and i: "p_reg p key = Some i" and k: "registryKey root mid w = (key, w)"
    and h: "holds (p_heap p i) w c" and wf: "os_wf w"
    and d: "lookup w (dataPathFor root mid) = Some (mf_ino (m_data (p_heap p i)))"
      "lookup w (dataPathFor root mid @ crcSuffix) = Some (mf_ino (m_meta (p_heap p i)))"
    and cfg: "cfg = fold (\<lambda>opt c. opt c) opts emptyConfig" "\<not> c_readOnly cfg" "cfg_crypt cfg = m_crypt (p_heap p i)"
  shows "\<exists>j p' w'. MMKVWithID root mid opts (unregister i p) w = Some (Inr j, p', w') \<and> j \<noteq> i \<and>
    m_key (p_heap p' i) = key \<and> \<not> m_closed (p_heap p' i) \<and> p_heap p' i = p_heap p i \<and>
    m_key (p_heap p' j) = key \<and> \<not> m_closed (p_heap p' j) \<and> content (p_heap p' j) w' = c"
proof -
  have inv: "i < p_next p" "m_key (p_heap p i) = key" "\<not> m_closed (p_heap p i)"
    using registry.reach_inv [OF r] i by (auto simp: reg_inv_def)
  obtain m' w' where o: "mmkv_open (newMMKV root mid key cfg) w = Some (Inr (), m', w')" "content m' w' = c"
    using reopen_ok [OF h wf refl d cfg(2,3)] by blast
  have "m_key m' = key" "\<not> m_closed m'" using mmkv_open_id [OF o(1)] by (simp_all add: same_id_def newMMKV_def)
  then show ?thesis
    using o inv i k unfolding MMKVWithID_def unregister_def cfg(1) by (auto simp: Let_def)
qed

theorem close_window_admits_second_instance_witness:
  "\<exists>j p' w'. MMKVWithID ''/tmp'' ''kv'' [] (unregister 0 ex_proc2) ex_w1 = Some (Inr j, p', w') \<and> j \<noteq> 0 \<and>
    \<not> m_closed (p_heap p' 0) \<and> \<not> m_closed (p_heap p' j) \<and> content (p_heap p' j) w' = [[107] \<mapsto> [1, 7]]"
proof -
  have h: "p_heap ex_proc2 0 = ex_m1" "p_reg ex_proc2 ''/tmp/kv'' = Some 0" by (simp_all add: ex_proc2_def ex_proc1_def)
  note f = ex_kv1_files(1,2) [folded ex_path h(1)]
  have c: "\<not> c_readOnly emptyConfig" "cfg_crypt emptyConfig = m_crypt (p_heap ex_proc2 0)"
    by (simp_all add: ex_cfg h ex_kv1_plain)
  show ?thesis
    using close_window_admits_second_instance
      [OF ex_proc2_reach h(2) ex_registry(1) ex_kv1(1) [folded h(1)] ex_kv1_files(3) f _ c, of "[]"]
    by auto
qed

end
