(* ===== verification/Recovery.thy ===== *)
theory Recovery
  imports StoreProps
begin

text \<open>
  Loading damaged files (\<^verbatim>\<open>loadData\<close>): rolling back to the last confirmed region, discarding, and
  salvaging under \<^verbatim>\<open>WithRecoverOnError\<close>.  Whatever bytes the files hold, loading never faults and every
  slice it hands out lies in the mapping.
\<close>

section \<open>The validity check\<close>

definition region_valid :: "u32 \<Rightarrow> u32 \<Rightarrow> bytes \<Rightarrow> bool" where
  "region_valid actual crc D \<longleftrightarrow> 4 + unat actual \<le> length D \<and> crc32_ChecksumIEEE (region_at actual D) = crc"

lemma regionValid_iff:
  assumes "mf_mapped (m_data m) w" "length (data_file m w) < 2 ^ 32"
  shows "regionValid actual crc m w = Inr (region_valid actual crc (data_file m w))"
proof (cases "4 + unat actual \<le> length (data_file m w)")
  case True
  then have "in_file actual (data_file m w)" using assms(2) by (simp add: in_file_def)
  then show ?thesis using regionValid_ok [OF assms(1)] True by (simp add: region_valid_def)
next
  case False
  then show ?thesis
    using assms(1) by (simp add: regionValid_def memory_ok Let_def region_valid_def)
qed

text \<open>The meta data the load works with.\<close>

definition load_info :: "mmkv \<Rightarrow> metaInfo \<Rightarrow> mmkv" where
  "load_info m mi = m\<lparr>m_info := mi, m_enableExpire := (mi_version mi \<ge> versionFlag \<and> expireEnabled mi)\<rparr>"

lemma loadData_cases:
  assumes map: "mf_mapped (m_data m) w" "mf_mapped (m_meta m) w"
    and size: "4 \<le> length (data_file m w)" "length (data_file m w) < 2 ^ 32"
    and meta: "parseMeta (meta_file m w) = Inr mi" "mi_version mi \<le> maxSupportedVersion"
  shows "loadData m w =
    (if region_valid (disk_actual mi (data_file m w)) (mi_crcDigest mi) (data_file m w)
     then decodeRegion (disk_actual mi (data_file m w)) (mi_crcDigest mi) (load_info m mi) w
     else if region_valid (mi_lastActualSize mi) (mi_lastCRCDigest mi) (data_file m w)
     then decodeRegion (mi_lastActualSize mi) (mi_lastCRCDigest mi)
       (load_info m mi\<lparr>m_info := mi\<lparr>mi_actualSize := mi_lastActualSize mi, mi_crcDigest := mi_lastCRCDigest mi\<rparr>\<rparr>) w
     else if m_recover m then salvage (load_info m mi) w
     else (Inr (), load_info m mi\<lparr>m_dict := [], m_actualSize := 0, m_crcDigest := 0\<rparr>))"
proof -
  let ?m = "load_info m mi"
  have m: "mf_mapped (m_data ?m) w" "length (data_file ?m w) < 2 ^ 32" using map(1) size(2) by (simp_all add: load_info_def)
  have ras: "readActualSize ?m w = disk_actual mi (data_file m w)"
    using readActualSize_disk [of ?m w] map(1) size(1) by (simp add: load_info_def)
  note rv = regionValid_iff [OF m]
  have d: "data_file ?m w = data_file m w" "m_recover ?m = m_recover m" by (simp_all add: load_info_def)
  have v: "\<not> maxSupportedVersion < mi_version mi" using meta(2) by simp
  have "loadData m w = (case regionValid (readActualSize ?m w) (mi_crcDigest mi) ?m w of
        Inl e \<Rightarrow> (Inl e, ?m)
      | Inr True \<Rightarrow> decodeRegion (readActualSize ?m w) (mi_crcDigest mi) ?m w
      | Inr False \<Rightarrow>
          (case regionValid (mi_lastActualSize mi) (mi_lastCRCDigest mi) ?m w of
             Inl e \<Rightarrow> (Inl e, ?m)
           | Inr True \<Rightarrow> decodeRegion (mi_lastActualSize mi) (mi_lastCRCDigest mi)
               (?m\<lparr>m_info := mi\<lparr>mi_actualSize := mi_lastActualSize mi, mi_crcDigest := mi_lastCRCDigest mi\<rparr>\<rparr>) w
           | Inr False \<Rightarrow>
               if m_recover ?m then salvage ?m w
               else (Inr (), ?m\<lparr>m_dict := [], m_actualSize := 0, m_crcDigest := 0\<rparr>)))"
    using map(2) meta(1) v unfolding loadData_def load_info_def by (simp add: memory_ok Let_def)
  then show ?thesis unfolding rv d ras by (simp split: bool.split)
qed

section \<open>Safety on arbitrary bytes\<close>

text \<open>A load that fails does so with an error; one that succeeds leaves live slices only.\<close>

definition safe_load :: "os \<Rightarrow> (goerr + unit) \<times> mmkv \<Rightarrow> bool" where
  "safe_load w r \<longleftrightarrow> (case fst r of Inl e \<Rightarrow> e \<noteq> Panic | Inr _ \<Rightarrow> readable (snd r) w)"

lemma decodeRegion_safe:
  assumes "mf_mapped (m_data m) w" "in_file actual (data_file m w)" "meta_wf (m_info m)"
  shows "safe_load w (decodeRegion actual crc m w)"
proof -
  let ?R = "region_at actual (data_file m w)"
  have size: "4 + unat actual \<le> mf_size (m_data m)" using assms(1,2) by (simp add: in_file_def mf_mapped_def)
  have err: "e \<noteq> Panic" if "parseDict b = Inl e" for b e
    using parseDict_error [OF that] by (auto simp: parse_error_def)
  have views: "readable (m\<lparr>m_dict := mapped_views (mf_gen (m_data m)) d, m_actualSize := a, m_crcDigest := cr\<rparr>) w"
    if "views_ok ?R d" for d a cr
    using mapped_views_ok(1) [OF assms(1) size, of d] that assms(1) size by (auto simp: readable_def region_at_def)
  have heap: "readable (m\<lparr>m_dict := heap_views pl d, m_actualSize := a, m_crcDigest := cr\<rparr>) w"
    if "views_ok pl d" for pl d a cr
    using heap_views_ok(1) [of d "m_data m" "unat actual" pl] that assms(1) size by (auto simp: readable_def views_ok_def)
  have iv: "\<not> length (mi_iv (m_info m)) < 16" using assms(3) by (simp add: meta_wf_def)
  show ?thesis
    using go_slice_region [OF assms(1,2)] iv err views heap parseDict_views_ok
    by (auto simp: decodeRegion_def safe_load_def Decrypt_def split: option.split sum.split)
qed

lemma salvage_region:
  assumes "mf_mapped (m_data m) w" "4 \<le> length (data_file m w)" "length (data_file m w) < 2 ^ 32"
  obtains actual where "in_file actual (data_file m w)"
    "go_slice 4 (unat (4 + (if unat (mi_actualSize (m_info m)) + 4 > length (data_file m w)
       then of_nat (length (data_file m w) - 4) else mi_actualSize (m_info m)))) (memory (m_data m) w) =
     Inr (region_at actual (data_file m w))"
    "4 + unat (mi_actualSize (m_info m)) \<le> length (data_file m w) \<Longrightarrow> actual = mi_actualSize (m_info m)"
proof -
  let ?a = "if unat (mi_actualSize (m_info m)) + 4 > length (data_file m w)
      then of_nat (length (data_file m w) - 4) else mi_actualSize (m_info m)"
  have "unat (of_nat (length (data_file m w) - 4) :: u32) = length (data_file m w) - 4"
    by (rule unat_of_nat_small) (use assms(3) in simp)
  then have inf: "in_file ?a (data_file m w)" using assms(2,3) by (auto simp: in_file_def simp del: of_nat_diff)
  show thesis by (rule that [OF inf go_slice_region [OF assms(1) inf]]) simp
qed

lemma salvage_safe:
  assumes "mf_mapped (m_data m) w" "4 \<le> length (data_file m w)" "length (data_file m w) < 2 ^ 32"
  shows "safe_load w (salvage m w)"
proof -
  obtain actual where a: "in_file actual (data_file m w)"
    "go_slice 4 (unat (4 + (if unat (mi_actualSize (m_info m)) + 4 > length (data_file m w)
       then of_nat (length (data_file m w) - 4) else mi_actualSize (m_info m)))) (memory (m_data m) w) =
     Inr (region_at actual (data_file m w))"
    using salvage_region [OF assms] by blast
  let ?R = "region_at actual (data_file m w)"
  have size: "4 + unat actual \<le> mf_size (m_data m)" using assms(1) a(1) by (simp add: in_file_def mf_mapped_def)
  have views: "dict_in (m_data m) (unat actual) (mapped_views (mf_gen (m_data m)) (parseDictGreedy ?R))"
    using mapped_views_ok(1) [OF assms(1) size] parseDictGreedy_views_ok [of ?R] by (simp add: region_at_def)
  have heap: "dict_in (m_data m) (unat actual) (heap_views pl (parseDictGreedy pl))" for pl
    using heap_views_ok(1) parseDictGreedy_views_ok [of pl] by (auto simp: views_ok_def)
  have g: "go_slice 4 (unat (4 + (if length (data_file m w) < unat (mi_actualSize (m_info m)) + 4
       then of_nat (length (data_file m w) - 4) else mi_actualSize (m_info m)))) (data_file m w) = Inr ?R"
    using a(2) assms(1) by (simp add: memory_ok)
  have rd: "readable (m\<lparr>m_dict := d, m_actualSize := x, m_crcDigest := y, m_needFullWriteback := True\<rparr>) w"
    if "dict_in (m_data m) (unat actual) d" for d x y
    using that assms(1) size by (auto simp: readable_def)
  show ?thesis
    unfolding salvage_def safe_load_def Let_def memory_ok [OF assms(1)] if_P [OF assms(2)] g
    using rd [OF views] rd [OF heap] by (auto split: option.split sum.split)
qed

lemma loadData_safe:
  assumes map: "mf_mapped (m_data m) w" "mf_mapped (m_meta m) w"
    and size: "4 \<le> length (data_file m w)" "length (data_file m w) < 2 ^ 32"
  shows "safe_load w (loadData m w)"
proof (cases "parseMeta (meta_file m w)")
  case (Inl e)
  then have "e \<noteq> Panic" by (auto simp: parseMeta_def split: if_splits)
  then show ?thesis using Inl map(2) by (simp add: loadData_def memory_ok safe_load_def)
next
  case (Inr mi)
  show ?thesis
  proof (cases "mi_version mi \<le> maxSupportedVersion")
    case False
    then have "maxSupportedVersion < mi_version mi" by simp
    then show ?thesis using Inr map(2) by (simp add: loadData_def memory_ok safe_load_def)
  next
    case True
    have wf: "meta_wf mi" using Inr by (rule parseMeta_wf)
    have inf: "in_file a (data_file m w)" if "region_valid a crc (data_file m w)" for a crc
      using that size(2) by (simp add: region_valid_def in_file_def)
    have dec: "safe_load w (decodeRegion a crc (load_info m mi\<lparr>m_info := mi'\<rparr>) w)"
      if "region_valid a crc' (data_file m w)" "meta_wf mi'" for a crc crc' mi'
      using inf [OF that(1)] map(1) that(2) by (intro decodeRegion_safe) (simp_all add: load_info_def)
    have same: "load_info m mi\<lparr>m_info := mi\<rparr> = load_info m mi" by (simp add: load_info_def)
    have sal: "safe_load w (salvage (load_info m mi) w)"
      using map(1) size by (intro salvage_safe) (simp_all add: load_info_def)
    have emp: "safe_load w (Inr (), load_info m mi\<lparr>m_dict := [], m_actualSize := 0, m_crcDigest := 0\<rparr>)"
      using map(1) size(1) by (auto simp: safe_load_def readable_def load_info_def mf_mapped_def intro!: exI [of _ 0])
    show ?thesis
      unfolding loadData_cases [OF map size Inr True]
      using dec [where mi' = mi] dec [where mi' = "mi\<lparr>mi_actualSize := mi_lastActualSize mi, mi_crcDigest := mi_lastCRCDigest mi\<rparr>"]
        wf same sal emp by (auto simp: meta_wf_def)
  qed
qed

section \<open>Which content a load yields\<close>

lemma load_rollback:
  assumes map: "mf_mapped (m_data m) w" "mf_mapped (m_meta m) w"
    and size: "4 \<le> length (data_file m w)" "length (data_file m w) < 2 ^ 32"
    and meta: "parseMeta (meta_file m w) = Inr mi" "mi_version mi \<le> maxSupportedVersion"
    and cur: "\<not> region_valid (disk_actual mi (data_file m w)) (mi_crcDigest mi) (data_file m w)"
    and last: "region_valid (mi_lastActualSize mi) (mi_lastCRCDigest mi) (data_file m w)"
    and log: "region_log (m_crypt m) (mi_iv mi) (region_at (mi_lastActualSize mi) (data_file m w)) ps"
  shows "\<exists>m'. loadData m w = (Inr (), m') \<and> content m' w = log_map ps \<and>
    m_actualSize m' = mi_lastActualSize mi \<and> m_crcDigest m' = mi_lastCRCDigest mi"
proof -
  let ?m = "load_info m mi\<lparr>m_info := mi\<lparr>mi_actualSize := mi_lastActualSize mi, mi_crcDigest := mi_lastCRCDigest mi\<rparr>\<rparr>"
  have pre: "mf_mapped (m_data ?m) w" "in_file (mi_lastActualSize mi) (data_file ?m w)" "meta_wf (m_info ?m)"
    "region_log (m_crypt ?m) (mi_iv (m_info ?m)) (region_at (mi_lastActualSize mi) (data_file ?m w)) ps"
    using map(1) last size(2) parseMeta_wf [OF meta(1)] log
    by (simp_all add: load_info_def region_valid_def in_file_def meta_wf_def)
  obtain d where "decodeRegion (mi_lastActualSize mi) (mi_lastCRCDigest mi) ?m w =
      (Inr (), ?m\<lparr>m_dict := d, m_actualSize := mi_lastActualSize mi, m_crcDigest := mi_lastCRCDigest mi\<rparr>)"
    "dict_map (m_data ?m) w d = log_map ps"
    by (rule decodeRegion_log [OF pre])
  then show ?thesis
    unfolding loadData_cases [OF map size meta] using cur last
    by (auto simp: content_def load_info_def)
qed

lemma load_salvage:
  assumes map: "mf_mapped (m_data m) w" "mf_mapped (m_meta m) w"
    and size: "4 \<le> length (data_file m w)" "length (data_file m w) < 2 ^ 32"
    and meta: "parseMeta (meta_file m w) = Inr mi" "mi_version mi \<le> maxSupportedVersion"
    and bad: "\<not> region_valid (disk_actual mi (data_file m w)) (mi_crcDigest mi) (data_file m w)"
      "\<not> region_valid (mi_lastActualSize mi) (mi_lastCRCDigest mi) (data_file m w)"
    and rc: "m_recover m" and fits: "4 + unat (mi_actualSize mi) \<le> length (data_file m w)"
    and region: "plain_region (m_crypt m) (mi_iv mi) (region_at (mi_actualSize mi) (data_file m w)) = Inr plain"
  shows "\<exists>d. loadData m w = (Inr (), load_info m mi\<lparr>m_dict := d, m_actualSize := mi_actualSize mi,
      m_crcDigest := mi_crcDigest mi, m_needFullWriteback := True\<rparr>) \<and>
    dict_in (m_data m) (unat (mi_actualSize mi)) d \<and> dict_map (m_data m) w d = view_map plain (parseDictGreedy plain)"
proof -
  let ?m = "load_info m mi" and ?D = "data_file m w"
  let ?R = "region_at (mi_actualSize mi) ?D"
  have inf: "in_file (mi_actualSize mi) ?D" using fits size(2) by (simp add: in_file_def)
  have g: "go_slice 4 (unat (4 + mi_actualSize mi)) ?D = Inr ?R"
    using go_slice_region [OF map(1) inf] map(1) by (simp add: memory_ok)
  have msize: "4 + unat (mi_actualSize mi) \<le> mf_size (m_data m)" using map(1) fits by (simp add: mf_mapped_def)
  let ?d = "case m_crypt m of None \<Rightarrow> mapped_views (mf_gen (m_data m)) (parseDictGreedy ?R)
    | Some a \<Rightarrow> heap_views plain (parseDictGreedy plain)"
  have "loadData m w = salvage ?m w" unfolding loadData_cases [OF map size meta] using bad rc by simp
  also have "\<dots> = (Inr (), ?m\<lparr>m_dict := ?d, m_actualSize := mi_actualSize mi,
      m_crcDigest := mi_crcDigest mi, m_needFullWriteback := True\<rparr>)"
    using g fits region map(1)
    by (auto simp: salvage_def load_info_def Let_def memory_ok plain_region_def split: option.splits)
  finally have run: "loadData m w = (Inr (), ?m\<lparr>m_dict := ?d, m_actualSize := mi_actualSize mi,
      m_crcDigest := mi_crcDigest mi, m_needFullWriteback := True\<rparr>)" .
  have "dict_in (m_data m) (unat (mi_actualSize mi)) ?d \<and>
      dict_map (m_data m) w ?d = view_map plain (parseDictGreedy plain)"
  proof (cases "m_crypt m")
    case None
    then have "plain = ?R" using region by (simp add: plain_region_def)
    then show ?thesis
      using None mapped_views_ok [OF map(1) msize, of "parseDictGreedy ?R"] parseDictGreedy_views_ok [of ?R]
      by (simp add: region_at_def)
  next
    case (Some a)
    then show ?thesis using heap_views_ok parseDictGreedy_views_ok [of plain] by (simp add: views_ok_def)
  qed
  then show ?thesis using run by blast
qed

section \<open>Example files\<close>

definition ex_files :: "bytes \<Rightarrow> bytes \<Rightarrow> os" where
  "ex_files D M = ex_disk\<lparr>files := (\<lambda>i. if i = 1 then D else if i = 2 then M else [])\<rparr>"

definition ex_inst :: "bytes \<Rightarrow> bytes \<Rightarrow> bool \<Rightarrow> mmkv" where
  "ex_inst D M rc = (newMMKV ''/tmp'' ''kv'' ''/tmp/kv'' emptyConfig)\<lparr>m_recover := rc,
     m_data := \<lparr>mf_ino = 1, mf_ofd = 1, mf_open = True, mf_data = Some (length D), mf_size = length D,
       mf_gen = 0, mf_readOnly = False\<rparr>,
     m_meta := \<lparr>mf_ino = 2, mf_ofd = 2, mf_open = True, mf_data = Some (length M), mf_size = length M,
       mf_gen = 0, mf_readOnly = False\<rparr>\<rparr>"

lemma ex_inst_facts:
  "mf_mapped (m_data (ex_inst D M rc)) (ex_files D M)" "mf_mapped (m_meta (ex_inst D M rc)) (ex_files D M)"
  "data_file (ex_inst D M rc) (ex_files D M) = D" "meta_file (ex_inst D M rc) (ex_files D M) = M"
  "m_crypt (ex_inst D M rc) = None" "m_recover (ex_inst D M rc) = rc"
  by (simp_all add: ex_inst_def ex_files_def mf_mapped_def newMMKV_def emptyConfig_def)

text \<open>A meta record whose current region lies outside the file.\<close>

definition ex_info :: "u32 \<Rightarrow> u32 \<Rightarrow> metaInfo" where
  "ex_info la lc = zero_info\<lparr>mi_version := versionFlag, mi_actualSize := 4000000, mi_lastActualSize := la,
     mi_lastCRCDigest := lc\<rparr>"

lemma ex_info_facts:
  "parseMeta (marshal (ex_info la lc)) = Inr (ex_info la lc)" "mi_version (ex_info la lc) \<le> maxSupportedVersion"
  "disk_actual (ex_info la lc) D = 4000000"
  by (simp_all add: parse_marshal meta_wf_def ex_info_def zero_info_def disk_actual_def meta_versions)

section \<open>Properties\<close>

text \<open>
  C6: whatever bytes the two files hold (a data file of at least four bytes, below 4 GiB), loading them (with or without recovery, with or without a
  key) never faults, and after a successful load every lookup returns without reading outside the
  mapping.
\<close>

theorem any_bytes_load_safely:
  assumes "mf_mapped (m_data m) w" "mf_mapped (m_meta m) w"
    and "4 \<le> length (data_file m w)" "length (data_file m w) < 2 ^ 32"
  shows "fst (loadData m w) \<noteq> Inl Panic \<and>
    (fst (loadData m w) = Inr () \<longrightarrow> (\<exists>v. mmkv_value k (snd (loadData m w)) w = Inr v))"
proof -
  note s = loadData_safe [OF assms, unfolded safe_load_def]
  have "\<exists>v. mmkv_value k (snd (loadData m w)) w = Inr v" if "fst (loadData m w) = Inr ()"
    using mmkv_value_ok [of "snd (loadData m w)" w k] s that by (auto split: option.splits)
  then show ?thesis using s by (auto split: sum.splits)
qed

theorem any_bytes_load_safely_witness:
  "fst (loadData (ex_inst (replicate 64 255) (replicate 200 255) True) (ex_files (replicate 64 255) (replicate 200 255)))
     \<noteq> Inl Panic"
proof -
  have l: "4 \<le> length (data_file (ex_inst (replicate 64 255) (replicate 200 255) True) (ex_files (replicate 64 255) (replicate 200 255)))"
    "length (data_file (ex_inst (replicate 64 255) (replicate 200 255) True) (ex_files (replicate 64 255) (replicate 200 255))) < 2 ^ 32"
    by (simp_all add: ex_inst_facts)
  show ?thesis using any_bytes_load_safely [OF ex_inst_facts(1,2) l] by blast
qed

text \<open>
  C11: when the current region fails its check (a torn append, or a size beyond the file) but the last
  confirmed region passes, the load rolls back to exactly the map of the last confirmed region.
\<close>

theorem load_rolls_back_to_confirmed:
  assumes "mf_mapped (m_data m) w" "mf_mapped (m_meta m) w"
    and "4 \<le> length (data_file m w)" "length (data_file m w) < 2 ^ 32"
    and "parseMeta (meta_file m w) = Inr mi" "mi_version mi \<le> maxSupportedVersion"
    and "\<not> region_valid (disk_actual mi (data_file m w)) (mi_crcDigest mi) (data_file m w)"
    and "region_valid (mi_lastActualSize mi) (mi_lastCRCDigest mi) (data_file m w)"
    and "region_log (m_crypt m) (mi_iv mi) (region_at (mi_lastActualSize mi) (data_file m w)) ps"
  shows "\<exists>m'. loadData m w = (Inr (), m') \<and> content m' w = log_map ps \<and>
    m_actualSize m' = mi_lastActualSize mi \<and> m_crcDigest m' = mi_lastCRCDigest mi"
  using assms by (rule load_rollback)

abbreviation ex_roll :: metaInfo where
  "ex_roll \<equiv> ex_info 9 (crc32_ChecksumIEEE (log_region [([107], [1, 7])]))"

abbreviation ex_roll_data :: bytes where
  "ex_roll_data \<equiv> replicate 4 0 @ log_region [([107], [1, 7])] @ replicate 50 0"

theorem load_rolls_back_to_confirmed_witness:
  "\<exists>m'. loadData (ex_inst ex_roll_data (marshal ex_roll) False) (ex_files ex_roll_data (marshal ex_roll)) = (Inr (), m') \<and>
     content m' (ex_files ex_roll_data (marshal ex_roll)) = [[107] \<mapsto> [1, 7]]"
proof -
  have r: "log_region [([107], [1, 7])] = [128, 128, 128, 1, 1, 107, 2, 1, 7]" by code_simp
  have reg: "region_at 9 ex_roll_data = log_region [([107], [1, 7])]" by (simp add: region_at_def r)
  have lm: "log_map [([107], [1, 7])] = [[107] \<mapsto> [1, 7]]"
    using log_map_snoc [of "[]" "[107]" "[1, 7]"] by (simp add: entry_value_def)
  let ?m = "ex_inst ex_roll_data (marshal ex_roll) False" and ?w = "ex_files ex_roll_data (marshal ex_roll)"
  note f = ex_inst_facts [of ex_roll_data "marshal ex_roll" False]
  have la: "mi_lastActualSize ex_roll = 9" "mi_lastCRCDigest ex_roll = crc32_ChecksumIEEE (log_region [([107], [1, 7])])"
    "mi_iv ex_roll = replicate 16 0" by (simp_all add: ex_info_def zero_info_def)
  have a: "4 \<le> length (data_file ?m ?w)" "length (data_file ?m ?w) < 2 ^ 32" unfolding f by (simp_all add: r)
  have b: "\<not> region_valid (disk_actual ex_roll (data_file ?m ?w)) (mi_crcDigest ex_roll) (data_file ?m ?w)"
    unfolding f by (simp add: region_valid_def ex_info_facts r)
  have c: "region_valid (mi_lastActualSize ex_roll) (mi_lastCRCDigest ex_roll) (data_file ?m ?w)"
    unfolding f la region_valid_def reg by (simp add: r)
  have d: "region_log (m_crypt ?m) (mi_iv ex_roll) (region_at (mi_lastActualSize ex_roll) (data_file ?m ?w)) [([107], [1, 7])]"
    unfolding f la reg by (simp add: region_log_def plain_region_def pair_ok_def)
  have p: "parseMeta (meta_file ?m ?w) = Inr ex_roll" unfolding f by (rule ex_info_facts)
  show ?thesis
    using load_rolls_back_to_confirmed [OF f(1,2) a p ex_info_facts(2) b c d] lm by auto
qed




text \<open>A store whose second pair was cut after two bytes.\<close>

definition ex_torn_region :: bytes where
  "ex_torn_region = log_region [([107], [1, 7])] @ take 2 (encode_pair ([108], [1, 8]))"

definition ex_torn_info :: metaInfo where
  "ex_torn_info = zero_info\<lparr>mi_version := versionFlag, mi_crcDigest := crc32_ChecksumIEEE ex_torn_region + 1,
     mi_actualSize := 11, mi_lastActualSize := 4000000\<rparr>"

definition ex_torn_disk :: os where
  "ex_torn_disk = ex_disk\<lparr>files := (\<lambda>i. if i = 1 then replicate 4 0 @ ex_torn_region
       else if i = 2 then marshal ex_torn_info else []),
     dirent := [''/tmp/kv'' \<mapsto> 1, ''/tmp/kv.crc'' \<mapsto> 2], nextIno := 3, pagesize := 4\<rparr>"

lemma ex_torn_facts:
  "os_wf ex_torn_disk" "opened_data ex_torn_disk ''/tmp/kv'' = replicate 4 0 @ ex_torn_region"
  "opened_meta ex_torn_disk ''/tmp/kv'' = marshal ex_torn_info" "length ex_torn_region = 11"
  "parseMeta (marshal ex_torn_info) = Inr ex_torn_info"
proof -
  have wf: "meta_wf ex_torn_info" by (simp add: ex_torn_info_def meta_wf_def zero_info_def)
  then show "parseMeta (marshal ex_torn_info) = Inr ex_torn_info" by (rule parse_marshal)
  have e: "log_region [([107], [1, 7])] = [128, 128, 128, 1, 1, 107, 2, 1, 7]"
    "encode_pair ([108], [1, 8]) = [1, 108, 2, 1, 8]" by code_simp+
  show len: "length ex_torn_region = 11" by (simp add: ex_torn_region_def e)
  have l: "lookup ex_torn_disk ''/tmp/kv'' = Some 1" "lookup ex_torn_disk (''/tmp/kv'' @ crcSuffix) = Some 2"
    by (simp_all add: lookup_def ex_torn_disk_def ex_disk_def filepath_Abs_def crcSuffix_def filepath_Clean_def is_abs_def)
  have f: "file_at ex_torn_disk ''/tmp/kv'' = replicate 4 0 @ ex_torn_region"
    "file_at ex_torn_disk (''/tmp/kv'' @ crcSuffix) = marshal ex_torn_info" "pagesize ex_torn_disk = 4"
    unfolding file_at_def l by (simp_all add: ex_torn_disk_def)
  show "opened_data ex_torn_disk ''/tmp/kv'' = replicate 4 0 @ ex_torn_region"
    unfolding opened_data_def f by (simp add: len resize_def)
  show "opened_meta ex_torn_disk ''/tmp/kv'' = marshal ex_torn_info"
    unfolding opened_meta_def f using wf by (simp add: resize_def pageRoundUp_def metaSize_def)
  show "os_wf ex_torn_disk" by (simp add: os_wf_def ex_torn_disk_def ex_disk_def locks_ok_def)
qed


text \<open>
  C37: with recovery on, a read-only instance over a data file of one to three bytes does not fail with
  an error but crashes: salvage slices the mapping at offset four.
\<close>

theorem short_file_recovery_panics:
  assumes "mf_mapped (m_data m) w" "mf_mapped (m_meta m) w" "length (data_file m w) < 4"
    and "parseMeta (meta_file m w) = Inr mi" "mi_version mi \<le> maxSupportedVersion" "m_recover m"
  shows "fst (loadData m w) = Inl Panic"
proof -
  let ?m = "load_info m mi"
  have inv: "regionValid a c ?m w = Inr False" for a c
    using assms(1,3) by (simp add: regionValid_def load_info_def memory_ok Let_def)
  have v: "\<not> maxSupportedVersion < mi_version mi" using assms(5) by simp
  have "loadData m w = salvage ?m w"
    using assms(2,4,6) v inv unfolding loadData_def load_info_def by (simp add: memory_ok Let_def)
  moreover have "salvage ?m w = (Inl Panic, ?m)"
    using assms(1,3) by (simp add: salvage_def load_info_def memory_ok Let_def go_slice_def)
  ultimately show ?thesis by simp
qed

theorem short_file_recovery_panics_witness:
  "fst (loadData (ex_inst [0, 0, 0] (replicate 112 0) True) (ex_files [0, 0, 0] (replicate 112 0))) = Inl Panic"
proof -
  note f = ex_inst_facts [of "[0, 0, 0]" "replicate 112 0" True]
  have a: "length (data_file (ex_inst [0, 0, 0] (replicate 112 0) True) (ex_files [0, 0, 0] (replicate 112 0))) < 4"
    "parseMeta (meta_file (ex_inst [0, 0, 0] (replicate 112 0) True) (ex_files [0, 0, 0] (replicate 112 0))) = Inr zero_info"
    "mi_version zero_info \<le> maxSupportedVersion" "m_recover (ex_inst [0, 0, 0] (replicate 112 0) True)"
    unfolding f by (simp_all add: parseMeta_zeros metaSize_def zero_info_def)
  show ?thesis by (rule short_file_recovery_panics [OF f(1,2) a])
qed

end
