(* ===== verification/StorageProps.thy ===== *)
theory StorageProps
  imports Registry Recovery ReaderProps
begin

text \<open>
  The file-level operations of \<^verbatim>\<open>mmkv_ns.go\<close>: whether a store exists and is valid, and removing it, in a
  process that may have it open.
\<close>

section \<open>Looking at the files\<close>

lemma CheckExist_ok:
  assumes "faults w = []"
  shows "CheckExist root mid w =
    (lookup w (dataPathFor root mid) \<noteq> None \<and> lookup w (dataPathFor root mid @ crcSuffix) \<noteq> None, w)"
  using assms by (cases "lookup w (dataPathFor root mid)") (simp_all add: CheckExist_def os_Stat_def Let_def)

text \<open>What the files of a store must satisfy, whatever its key.\<close>

definition valid_files :: "bytes \<Rightarrow> bytes \<Rightarrow> bool" where
  "valid_files D M \<longleftrightarrow>
     (case parseMeta M of Inl _ \<Rightarrow> False
      | Inr mi \<Rightarrow> mi_version mi \<le> maxSupportedVersion \<and> region_valid (disk_actual mi D) (mi_crcDigest mi) D)"

lemma slice_region:
  assumes "length D < 2 ^ 32" "4 + unat a \<le> length D"
  shows "go_slice 4 (unat (4 + a)) D = Inr (region_at a D)"
  using assms by (simp add: go_slice_def region_at_def unat_add4)

lemma IsFileValid_ok:
  assumes "faults w = []" "lookup w (dataPathFor root mid) = Some i" "lookup w (dataPathFor root mid @ crcSuffix) = Some j"
    and "4 \<le> length (files w i)" "length (files w i) < 2 ^ 32"
  shows "IsFileValid root mid w = (Inr (valid_files (files w i) (files w j)), w)"
proof -
  let ?D = "files w i" and ?M = "files w j"
  have read: "os_ReadFile (dataPathFor root mid) w = (Inr ?D, w)" "os_ReadFile (dataPathFor root mid @ crcSuffix) w = (Inr ?M, w)"
    using assms(1-3) by (simp_all add: os_ReadFile_def)
  show ?thesis
  proof (cases "parseMeta ?M")
    case (Inr mi)
    then show ?thesis
      using assms(4)
      by (auto simp: slice_region [OF assms(5)] IsFileValid_def Let_def read valid_files_def disk_actual_def region_valid_def not_less not_le add.commute)
  qed (simp add: IsFileValid_def Let_def read(2) valid_files_def)
qed

lemma on_disk_valid: "on_disk c D M mi ps \<Longrightarrow> valid_files D M"
  by (auto simp: on_disk_def valid_files_def region_valid_def in_file_def)

text \<open>A reader fails on invalid files, and on valid ones only if the decrypted bytes do not parse.\<close>

lemma buildSnapshot_valid:
  assumes r: "reads_as r c" and w: "faults w = []" "lookup w (dataPath r) = Some i" and D: "4 \<le> length (files w i)" "length (files w i) < 2 ^ 32"
  shows "if valid_files (files w i) M then \<forall>e. fst (buildSnapshot r M w) = Inl e \<longrightarrow> parse_error e
    else \<exists>e. fst (buildSnapshot r M w) = Inl e"
proof -
  let ?D = "files w i"
  have read: "os_ReadFile (dataPath r) w = (Inr ?D, w)" using w by (simp add: os_ReadFile_def)
  show ?thesis
  proof (cases "parseMeta M")
    case (Inr mi)
    have iv: "length (mi_iv mi) = 16" using parseMeta_wf [OF Inr] by (simp add: meta_wf_def)
    let ?a = "disk_actual mi ?D" and ?R = "region_at (disk_actual mi ?D) ?D"
    obtain plain where dec: "(case r_dec r of None \<Rightarrow> Inr ?R | Some d \<Rightarrow> d ?R (mi_iv mi)) = Inr plain"
      using r iv by (cases c) (simp_all add: reads_as_def Decrypt_def)
    have act: "(if mi_version mi \<ge> versionActualSize then mi_actualSize mi
        else if length ?D \<ge> 4 then getUint32 ?D else 0) = ?a" using D(1) by (simp add: disk_actual_def)
    note run = buildSnapshot_def Let_def Inr read act valid_files_def region_valid_def
    consider (new) "maxSupportedVersion < mi_version mi" | (short) "\<not> 4 + unat ?a \<le> length ?D"
      | (crc) "mi_version mi \<le> maxSupportedVersion" "4 + unat ?a \<le> length ?D" by fastforce
    then show ?thesis
    proof cases
      case crc
      show ?thesis
        using slice_region [OF D(2) crc(2)] crc parseDict_error [of plain] dec
        by (simp add: run not_less add.commute split: sum.split)
    qed (auto simp: run not_le)
  qed (simp add: valid_files_def buildSnapshot_def)
qed

section \<open>Closing and removing\<close>

text \<open>The parts of the system that closing a descriptor leaves alone.\<close>

definition same_disk :: "os \<Rightarrow> os \<Rightarrow> bool" where
  "same_disk w w' \<longleftrightarrow> files w' = files w \<and> dirent w' = dirent w \<and> nextIno w' = nextIno w \<and> nextOfd w' = nextOfd w \<and>
     faults w' = faults w \<and> pagesize w' = pagesize w \<and> cwd w' = cwd w"

lemma same_disk_trans: "same_disk w w1 \<Longrightarrow> same_disk w1 w2 \<Longrightarrow> same_disk w w2"
  by (simp add: same_disk_def)

lemma os_close_ok:
  assumes "faults w = []" "os_wf w" "ofd < nextOfd w"
  shows "\<exists>w'. os_close i ofd w = (Inr (), w') \<and> os_wf w' \<and> same_disk w w'"
proof -
  let ?w = "set_locks i (others ofd (flocks w i)) (w\<lparr>closedOfds := ofd # closedOfds w\<rparr>)"
  have "os_wf ?w"
  proof (rule os_wf_frame [OF assms(2)])
    have l: "locks_ok (flocks w k)" "x \<in> set (flocks w k) \<Longrightarrow> fst x < nextOfd w" for k x using assms(2) unfolding os_wf_def by blast+
    show "\<forall>k. locks_ok (flocks ?w k)" using l(1) locks_ok_others [OF l(1)] by (simp add: set_locks_def)
    have sub: "x \<in> set (flocks ?w k) \<Longrightarrow> x \<in> set (flocks w k)" for k x by (auto simp: others_def set_locks_def split: if_splits)
    have "nextOfd ?w = nextOfd w" by (simp add: set_locks_def)
    then show "\<forall>k. \<forall>x\<in>set (flocks ?w k). fst x < nextOfd ?w" using l(2) [OF sub] by simp
  qed (use assms in \<open>auto simp: os_wf_def set_locks_def\<close>)
  then show ?thesis using assms(1) by (simp add: os_close_def same_disk_def set_locks_def)
qed

lemma mf_close_ok:
  assumes "faults w = []" "os_wf w" "mf_ofd mf < nextOfd w"
  shows "\<exists>w'. mf_close mf w = (Inr (), mf\<lparr>mf_data := None, mf_open := False\<rparr>, w') \<and> os_wf w' \<and> same_disk w w'"
  using assms os_close_ok [OF assms, of "mf_ino mf"] by (auto simp: mf_close_def Let_def same_disk_def)

lemma Close_ok:
  assumes r: "reg_inv (p, w)" "p_reg p key = Some n" and w: "faults w = []" "os_wf w"
    and o: "mf_ofd (m_data (p_heap p n)) < nextOfd w" "mf_ofd (m_meta (p_heap p n)) < nextOfd w"
  shows "\<exists>p' w'. Close n p w = (Inr (), p', w') \<and> p_reg p' = (p_reg p)(key := None) \<and> m_closed (p_heap p' n) \<and>
    os_wf w' \<and> same_disk w w'"
proof -
  let ?m = "(p_heap p n)\<lparr>m_closed := True\<rparr>"
  obtain w1 where c1: "mf_close (m_data ?m) w = (Inr (), (m_data ?m)\<lparr>mf_data := None, mf_open := False\<rparr>, w1)" "os_wf w1" "same_disk w w1"
    using mf_close_ok [OF w, of "m_data ?m"] o(1) by auto
  obtain w2 where c2: "mf_close (m_meta ?m) w1 = (Inr (), (m_meta ?m)\<lparr>mf_data := None, mf_open := False\<rparr>, w2)" "os_wf w2" "same_disk w1 w2"
    using mf_close_ok [of w1 "m_meta ?m"] o(2) c1(2,3) w(1) by (auto simp: same_disk_def)
  have key: "m_key (p_heap p n) = key" "\<not> m_closed (p_heap p n)" using r by (auto simp: reg_inv_def)
  show ?thesis
    using r(2) key c1(1) c2 same_disk_trans [OF c1(3) c2(3)] by (simp add: Close_def unregister_def shutdown_def closeFiles_def)
qed

text \<open>Unlinking both files.\<close>

lemma remove_files:
  assumes "faults w = []" "os_wf w" "lookup w dp = Some i" "lookup w (dp @ crcSuffix) = Some j"
    and "filepath_Abs (cwd w) (dp @ crcSuffix) \<noteq> filepath_Abs (cwd w) dp"
  obtains w1 w2 where "os_Remove dp w = (Inr (), w1)" "os_Remove (dp @ crcSuffix) w1 = (Inr (), w2)" "os_wf w2" "faults w2 = []"
    "lookup w2 dp = None" "lookup w2 (dp @ crcSuffix) = None" "pagesize w2 = pagesize w" "cwd w2 = cwd w"
proof -
  let ?w1 = "w\<lparr>dirent := (dirent w)(filepath_Abs (cwd w) dp := None)\<rparr>"
  let ?w2 = "?w1\<lparr>dirent := (dirent ?w1)(filepath_Abs (cwd w) (dp @ crcSuffix) := None)\<rparr>"
  have "os_wf ?w2" using assms(2) unfolding os_wf_def by (auto split: if_splits)
  then show thesis using assms by (intro that [of ?w1 ?w2]) (simp_all add: os_Remove_def lookup_def)
qed

lemma registryKey_ok:
  "faults w = [] \<Longrightarrow> registryKey root mid w = (filepath_Abs (cwd w) (dataPathFor root mid), w)"
  by (simp add: registryKey_def Let_def)

section \<open>Properties\<close>

text \<open>
  C21: the validity check of a store's files needs no key and decides exactly the part of loading that
  does not depend on one.  If it says no, opening the store to read fails under every key.  If it says
  yes, no key makes reading fail with a CRC mismatch (the CRC is over the bytes on disk): a wrong key
  shows, if at all, as an error of the parser of the decrypted bytes.
\<close>

theorem file_check_needs_no_key:
  assumes "faults w = []" "lookup w (dataPathFor root mid) = Some i" "lookup w (dataPathFor root mid @ crcSuffix) = Some j"
    and "4 \<le> length (files w i)" "length (files w i) < 2 ^ 32"
  shows "\<exists>valid. IsFileValid root mid w = (Inr valid, w) \<and>
    (\<forall>r c. reads_as r c \<and> dataPath r = dataPathFor root mid \<longrightarrow>
      (if valid then \<forall>e. fst (buildSnapshot r (files w j) w) = Inl e \<longrightarrow> e = ErrUnexpectedEOF \<or> e = ErrVarintOverflow
       else \<exists>e. fst (buildSnapshot r (files w j) w) = Inl e))"
proof -
  have "if valid_files (files w i) (files w j) then \<forall>e. fst (buildSnapshot r (files w j) w) = Inl e \<longrightarrow> e = ErrUnexpectedEOF \<or> e = ErrVarintOverflow
      else \<exists>e. fst (buildSnapshot r (files w j) w) = Inl e" if "reads_as r c" "dataPath r = dataPathFor root mid" for r c
    using buildSnapshot_valid [OF that(1) assms(1) _ assms(4,5), of "files w j"] assms(2) that(2) unfolding parse_error_def by simp
  then show ?thesis using IsFileValid_ok [OF assms] by blast
qed

lemma holds_valid:
  assumes "holds m w c" "lookup w (dataPathFor root mid) = Some (mf_ino (m_data m))"
    "lookup w (dataPathFor root mid @ crcSuffix) = Some (mf_ino (m_meta m))" "length (data_file m w) < 2 ^ 32"
  shows "IsFileValid root mid w = (Inr True, w)" "CheckExist root mid w = (True, w)" "4 \<le> length (data_file m w)"
proof -
  obtain mi ps where d: "faults w = []" "on_disk (m_crypt m) (data_file m w) (meta_file m w) mi ps"
    using assms(1) by (auto simp: holds_def session_def attached_def)
  show l: "4 \<le> length (data_file m w)" using d(2) by (auto simp: on_disk_def in_file_def)
  show "IsFileValid root mid w = (Inr True, w)"
    using IsFileValid_ok [OF d(1) assms(2,3) l assms(4)] on_disk_valid [OF d(2)] by simp
  show "CheckExist root mid w = (True, w)" using CheckExist_ok [OF d(1)] assms(2,3) by simp
qed

definition ex_wrong_key :: reader where
  "ex_wrong_key = WithEncryption [1, 2] \<lparr>r_rootDir = ''/tmp'', r_mmapID = ''kv'', r_dec = None, r_snap = None, r_crcFile = None,
     r_crcMmap = None, r_loadedCRC = 0, r_loadedActual = 0, r_loadedSeq = 0, r_lastErr = None\<rparr>"

theorem file_check_needs_no_key_witness:
  "IsFileValid ''/tmp'' ''kv'' ex_w = (Inr True, ex_w) \<and>
   fst (buildSnapshot ex_wrong_key (meta_file ex_m ex_w) ex_w) \<noteq> Inl ErrCRCMismatch"
proof -
  have r: "reads_as ex_wrong_key (Some (newAESCFB [1, 2]))" "dataPath ex_wrong_key = dataPathFor ''/tmp'' ''kv''"
    by (simp_all add: ex_wrong_key_def WithEncryption_def reads_as_def dataPath_def)
  have l: "lookup ex_w (dataPathFor ''/tmp'' ''kv'') = Some (mf_ino (m_data ex_m))"
    "lookup ex_w (dataPathFor ''/tmp'' ''kv'' @ crcSuffix) = Some (mf_ino (m_meta ex_m))"
    unfolding ex_path by (rule ex_kv(7,8))+
  have len: "length (data_file ex_m ex_w) < 2 ^ 32" using ex_kv(3) by (simp add: env_of_def)
  have flt: "faults ex_w = []" using store_inv_facts(1) [OF ex_kv(1)] by (simp add: writable_def)
  note v = holds_valid [OF ex_kv(2) l len]
  show ?thesis
    using v(1) file_check_needs_no_key [OF flt l v(3) len] r by auto
qed

text \<open>
  C17: removing a store removes it.  Whatever instances the process has open, after \<^verbatim>\<open>RemoveStorage\<close> the
  files are gone, the instance that had the store open is closed and out of the registry, and opening
  the same name again yields a new, empty store.
\<close>

theorem removed_store_is_gone:
  assumes "reach reg_init reg_step (p, w)" and "faults w = []" "os_wf w" "4 \<le> pagesize w" and "dp = dataPathFor root mid"
    and "filepath_Abs (cwd w) (dp @ crcSuffix) \<noteq> filepath_Abs (cwd w) dp"
    and "lookup w dp = Some i" "lookup w (dp @ crcSuffix) = Some j"
    and "\<forall>n. p_reg p (filepath_Abs (cwd w) dp) = Some n \<longrightarrow>
      mf_ofd (m_data (p_heap p n)) < nextOfd w \<and> mf_ofd (m_meta (p_heap p n)) < nextOfd w"
    and "\<not> c_readOnly (fold (\<lambda>opt c. opt c) opts emptyConfig)"
  shows "\<exists>p1 w1 n p2 w2. RemoveStorage root mid p w = (Inr (), p1, w1) \<and> CheckExist root mid w1 = (False, w1) \<and>
    (\<forall>n. p_reg p (filepath_Abs (cwd w) dp) = Some n \<longrightarrow> m_closed (p_heap p1 n)) \<and>
    MMKVWithID root mid opts p1 w1 = Some (Inr n, p2, w2) \<and> store_inv (p_heap p2 n) w2 [] \<and>
    content (p_heap p2 n) w2 = Map.empty"
proof -
  let ?key = "filepath_Abs (cwd w) dp" and ?cfg = "fold (\<lambda>opt c. opt c) opts emptyConfig"
  note key = registryKey_ok [where root = root and mid = mid, folded assms(5)]
  have inv: "reg_inv (p, w)" using assms(1) by (rule registry.reach_inv)
  obtain p1 w0 where c: "(case p_reg p ?key of None \<Rightarrow> (p, w) | Some n \<Rightarrow> (case Close n p w of (_, p1, w1) \<Rightarrow> (p1, w1))) = (p1, w0)"
    "p_reg p1 ?key = None" "\<forall>n. p_reg p ?key = Some n \<longrightarrow> m_closed (p_heap p1 n)" "os_wf w0" "same_disk w w0"
    using Close_ok [OF inv _ assms(2,3), of ?key] assms(3,9) by (cases "p_reg p ?key") (auto simp: same_disk_def)
  have sd: "faults w0 = []" "lookup w0 dp = Some i" "lookup w0 (dp @ crcSuffix) = Some j" "cwd w0 = cwd w" "pagesize w0 = pagesize w"
    using c(5) assms(2,7,8) by (simp_all add: same_disk_def lookup_def)
  obtain w1 w2 where r: "os_Remove dp w0 = (Inr (), w1)" "os_Remove (dp @ crcSuffix) w1 = (Inr (), w2)" "os_wf w2" "faults w2 = []"
    "lookup w2 dp = None" "lookup w2 (dp @ crcSuffix) = None" "pagesize w2 = pagesize w0" "cwd w2 = cwd w0"
    using remove_files [OF sd(1) c(4) sd(2,3)] assms(6) sd(4) by metis
  have rm: "RemoveStorage root mid p w = (Inr (), p1, w2)"
    using key [OF assms(2)] c(1) r(1,2) assms(5) by (simp add: RemoveStorage_def)
  have pg: "4 \<le> pagesize w2" "filepath_Abs (cwd w2) (dp @ crcSuffix) \<noteq> filepath_Abs (cwd w2) dp"
    using r(7,8) sd(4,5) assms(4,6) by simp_all
  obtain m w3 where o: "mmkv_open (newMMKV root mid ?key ?cfg) w2 = Some (Inr (), m, w3)" "store_inv m w3 []"
    by (rule mmkv_open_ok [OF r(4) pg(1) r(3) assms(5) pg(2) assms(10) opened_fresh(3) [OF r(5,6) pg(1)] zero_info_consistent])
  have "MMKVWithID root mid opts p1 w2 = Some (Inr (p_next p1), p1\<lparr>p_heap := (p_heap p1)(p_next p1 := m),
      p_next := p_next p1 + 1, p_reg := (p_reg p1)(?key \<mapsto> p_next p1)\<rparr>, w3)"
    using key [OF r(4)] c(2) o(1) r(8) sd(4) by (simp add: MMKVWithID_def Let_def)
  then show ?thesis
    using rm c(3) o(2) store_inv_facts(4) [OF o(2)] CheckExist_ok [OF r(4), of root mid] r(5) assms(5) by auto
qed

theorem removed_store_is_gone_witness:
  "CheckExist ''/tmp'' ''kv'' ex_w1 = (True, ex_w1) \<and>
   (\<exists>p1 w1 n p2 w2. RemoveStorage ''/tmp'' ''kv'' ex_proc2 ex_w1 = (Inr (), p1, w1) \<and> m_closed (p_heap p1 0) \<and>
      CheckExist ''/tmp'' ''kv'' w1 = (False, w1) \<and> MMKVWithID ''/tmp'' ''kv'' [] p1 w1 = Some (Inr n, p2, w2) \<and>
      content (p_heap p2 n) w2 = Map.empty)"
proof -
  let ?cfg = "fold (\<lambda>opt c. opt c) [] emptyConfig"
  have os: "faults ex_w1 = []" "4 \<le> pagesize ex_w1" "cwd ex_w1 = ''/''" "nextOfd ex_w1 = nextOfd ex_w"
    using ex_kv1(4) ex_kv(11,13) store_inv_facts(1) [OF ex_kv(1)] by (simp_all add: op_frame_def writable_def)
  have path: "filepath_Abs (cwd ex_w1) ''/tmp/kv'' = ''/tmp/kv''"
    by (simp add: os(3) filepath_Abs_def filepath_Clean_def is_abs_def)
  have names: "filepath_Abs (cwd ex_w1) (''/tmp/kv'' @ crcSuffix) \<noteq> filepath_Abs (cwd ex_w1) ''/tmp/kv''"
    using ex_names by (simp add: os(3))
  have reg: "p_reg ex_proc2 ''/tmp/kv'' = Some 0" "p_heap ex_proc2 0 = ex_m1" by (simp_all add: ex_proc2_def ex_proc1_def)
  have ofds: "\<forall>n. p_reg ex_proc2 (filepath_Abs (cwd ex_w1) ''/tmp/kv'') = Some n \<longrightarrow>
      mf_ofd (m_data (p_heap ex_proc2 n)) < nextOfd ex_w1 \<and> mf_ofd (m_meta (p_heap ex_proc2 n)) < nextOfd ex_w1"
    unfolding path using reg ex_kv(15,16) ex_kv1(3) os(4) by (simp add: keeps_def)
  have cfg: "\<not> c_readOnly ?cfg" by (simp add: emptyConfig_def)
  have "CheckExist ''/tmp'' ''kv'' ex_w1 = (True, ex_w1)"
    using CheckExist_ok [OF os(1), of "''/tmp''" "''kv''"] ex_kv1_files(1,2) by (simp add: ex_path)
  then show ?thesis
    using removed_store_is_gone [OF ex_proc2_reach os(1) ex_kv1_files(3) os(2) ex_path [symmetric] names ex_kv1_files(1,2) ofds cfg]
    unfolding path using reg(1) by blast
qed

end
