(* ===== verification/Limits.thy ===== *)
theory Limits
  imports Processes
begin

text \<open>
  Sizes, failures and progress: where the loops that resize the data file stop, how large a trimmed
  file is, what a failed growth leaves behind, and that no operation leaves the file lock held.
\<close>

section \<open>The resizing loops\<close>

lemma growSize_power:
  "0 < n \<Longrightarrow> \<exists>k. growSize target n = n * 2 ^ k \<and> target < n * 2 ^ k \<and> (\<forall>j<k. n * 2 ^ j \<le> target)"
proof (induction target n rule: growSize.induct)
  case (1 target n)
  show ?case
  proof (cases "n \<le> target")
    case True
    obtain k where k: "growSize target (n * 2) = n * 2 * 2 ^ k" "target < n * 2 * 2 ^ k"
      "\<forall>j<k. n * 2 * 2 ^ j \<le> target"
      using 1 True by (metis mult_pos_pos zero_less_numeral)
    have "n * 2 ^ j \<le> target" if "j < Suc k" for j
      using k(3) that True by (cases j) (simp_all add: mult.assoc)
    moreover have "growSize target n = growSize target (n * 2)"
      using True 1(2) by (subst growSize.simps) simp
    ultimately show ?thesis using k(1,2) by (intro exI [of _ "Suc k"]) (simp add: mult.assoc)
  next
    case False
    then show ?thesis by (intro exI [of _ 0]) (subst growSize.simps, simp)
  qed
qed

lemma shrinkSize_power:
  "\<exists>k. shrinkSize limit n = n div 2 ^ k \<and> n div 2 ^ k \<le> limit \<and> (\<forall>j<k. limit < n div 2 ^ j)"
proof (induction limit n rule: shrinkSize.induct)
  case (1 limit n)
  show ?case
  proof (cases "limit < n")
    case True
    obtain k where k: "shrinkSize limit (n div 2) = n div 2 div 2 ^ k" "n div 2 div 2 ^ k \<le> limit"
      "\<forall>j<k. limit < n div 2 div 2 ^ j" using 1 True by blast
    have "limit < n div 2 ^ j" if "j < Suc k" for j
      using k(3) that True by (cases j) (simp_all add: div_mult2_eq)
    moreover have "shrinkSize limit n = shrinkSize limit (n div 2)"
      using True by (subst shrinkSize.simps) simp
    ultimately show ?thesis using k(1,2) by (intro exI [of _ "Suc k"]) (simp add: div_mult2_eq)
  next
    case False
    then show ?thesis by (intro exI [of _ 0]) (subst shrinkSize.simps, simp)
  qed
qed

section \<open>The lock is free between operations\<close>

lemma proc_can_lock:
  assumes "reach (proc_init n) (proc_step n) s" "p < n"
  shows "lock t (m_fl (g_inst s p)) (g_os s) \<noteq> None"
proof -
  obtain di ji c mi ps where i: "flocks (g_os s) ji = []" "member di ji c (g_inst s p) (g_os s)"
    "attached (g_inst s p) (g_os s) mi ps"
    using procs.reach_inv [OF assms(1)] assms(2) unfolding proc_inv_def by blast
  have "can_lock t (g_inst s p) (g_os s)"
    using idle_can_lock [OF _ member_idle [OF i(2,1)]] i(3) by (simp add: attached_def)
  then show ?thesis using i(2) by (simp add: can_lock_def member_def)
qed

section \<open>Growth that fails\<close>

lemma encodeRegion_holder: "4 \<le> length (encodeRegion ks f)"
  by (simp add: encodeRegion_eq itemSizeHolderBytes_eq)

lemma growFile_fails:
  assumes "fileSize (m_data m) \<le> 4 + n + inc" "0 < pagesize w" "faults w = False # fs"
  shows "growFile ns inc n m w = (Inl ErrTruncate, m, w\<lparr>faults := fs\<rparr>)"
proof -
  obtain g t where gt: "growTarget ns inc n (length (m_dict m)) (fileSize (m_data m)) = (g, t)" by fastforce
  have g: "g" "4 + n + inc \<le> t" using growTarget_len [OF gt] assms(1) by auto
  let ?s = "growSize t (max 1 (fileSize (m_data m)))"
  have "t < ?s" by (rule growSize_gt) simp
  then have "pageRoundUp (pagesize w) ?s \<noteq> mf_size (m_data m)"
    using pageRoundUp_ge [OF assms(2), of ?s] g(2) assms(1) by (simp add: fileSize_def)
  then show ?thesis
    by (simp add: growFile_def gt g(1) MemFile.truncate_def Let_def syscall_def assms(3))
qed

section \<open>Properties\<close>



text \<open>
  C30: trimming succeeds, keeps the content, and leaves a data file no larger than twice the packed size
  of the content and its header, rounded up to a page.
\<close>

theorem trim_bounds_file:
  assumes "store_inv m w ps" "sizes_ok m (log_map ps)"
  shows "\<exists>m' w'. trimLocked m w = (Inr (), m', w') \<and> content m' w' = content m w \<and>
    length (data_file m' w') \<le> pageRoundUp (pagesize w) (2 * (packed_size (content m w) + 4))"
proof -
  obtain m' w' ps' where t: "trimLocked m w = (Inr (), m', w')" "store_inv m' w' ps'" "log_map ps' = log_map ps"
    "mf_size (m_data m') \<le> pageRoundUp (pagesize w) (2 * (packed_size (log_map ps) + 4))"
    by (rule trimLocked_ok [OF assms]) blast
  then show ?thesis
    using store_inv_facts(4,5) [OF t(2)] store_inv_facts(4) [OF assms(1)] by (simp add: mf_mapped_def)
qed

theorem trim_bounds_file_witness:
  "\<exists>m' w'. trimLocked ex_m ex_w = (Inr (), m', w') \<and> content m' w' = Map.empty \<and>
     length (data_file m' w') \<le> pageRoundUp (pagesize ex_w) 16"
proof -
  have s: "sizes_ok ex_m (log_map [])"
    using loaded_env(2) [of ex_m ex_w "[]"] ex_kv(1,3) by (simp add: sizes_ok_def store_inv_def packed_size_empty)
  have c: "content ex_m ex_w = Map.empty" using store_inv_facts(4) [OF ex_kv(1)] by simp
  show ?thesis using trim_bounds_file [OF ex_kv(1) s] unfolding c by (simp add: packed_size_empty)
qed

text \<open>
  C40: when the data file is too small for a pair and cannot be grown, setting the value returns the
  error and leaves both files as they were, but the instance already serves the new value: memory and
  disk disagree until the next load.
\<close>

theorem failed_growth_keeps_value_in_memory:
  assumes "loaded m w ps" "m_crypt m = None" "0 < pagesize w" "faults w = False # fs"
    and "mf_size (m_data m) < 4 + length (encode_pair (k, v))"
  shows "\<exists>m'. setBlob k v m w = (Inl ErrTruncate, m', w\<lparr>faults := fs\<rparr>) \<and>
    content m' (w\<lparr>faults := fs\<rparr>) = (content m w)(k \<mapsto> v)"
proof -
  let ?m = "m\<lparr>m_dict := gm_put k (Heap v) (m_dict m)\<rparr>" and ?w = "w\<lparr>faults := fs\<rparr>"
  let ?n = "length (encode_pair (k, v))"
  have l: "mf_mapped (m_data m) w" "4 + unat (m_actualSize m) \<le> mf_size (m_data m)"
    "dict_in (m_data m) (unat (m_actualSize m)) (m_dict m)"
    using assms(1) by (auto simp: loaded_def synced_def on_disk_def in_file_def mf_mapped_def)
  have live: "dict_live (m_data m) w (m_dict ?m)"
    using dict_in_live [OF l(1,2) dict_in_put [OF l(3)], of "Heap v" k] by simp
  have "\<not> int ?n \<le> int (mf_size (m_data m)) - 4 - int (unat (m_actualSize m))" using assms(5) by linarith
  then have sb: "setBlob k v m w = fullWritebackGrow (length (m_dict m) \<noteq> 0) ?n ?m w"
    using assms(5) unfolding setBlob_def Let_def encode_pair_def [of "(k, v)", simplified, symmetric]
    by (auto simp: fileSize_def)
  have g: "growFile b ?n (length (encodeRegion ks f)) ?m w = (Inl ErrTruncate, ?m, ?w)" for b ks f
    using assms(3-5) encodeRegion_holder [of ks f] by (intro growFile_fails) (simp_all add: fileSize_def)
  have "fullWritebackGrow b ?n ?m w = (Inl ErrTruncate, ?m, ?w)" for b
    using live assms(2) g by (simp add: fullWritebackGrow_def Let_def andThen_def sealRegion_def)
  moreover have "content ?m ?w = (content m w)(k \<mapsto> v)"
    using content_cong [of ?w w ?m] by (simp add: content_def dict_map_put)
  ultimately show ?thesis using sb by (intro exI [of _ ?m]) simp
qed

theorem failed_growth_keeps_value_in_memory_witness:
  "\<exists>m'. setBlob [107] (replicate 5000 7) ex_m (ex_w\<lparr>faults := [False]\<rparr>) = (Inl ErrTruncate, m', ex_w\<lparr>faults := []\<rparr>) \<and>
     content m' (ex_w\<lparr>faults := []\<rparr>) = [[107] \<mapsto> replicate 5000 7]"
proof -
  note f = store_inv_facts [OF ex_kv(1)]
  have l: "loaded ex_m ex_w []" "0 < pagesize ex_w" using ex_kv(1) f(1) by (simp_all add: store_inv_def writable_def)
  have sz: "mf_size (m_data ex_m) = 4096" "m_crypt ex_m = None"
    using loaded_env(2) [OF l(1)] ex_kv(3) by (simp_all add: env_of_def)
  have c: "content ex_m (ex_w\<lparr>faults := fs\<rparr>) = Map.empty" for fs
    using f(4) content_cong [of "ex_w\<lparr>faults := fs\<rparr>" ex_w] by simp
  have "mf_size (m_data ex_m) < 4 + length (encode_pair ([107], replicate 5000 7))"
    by (simp add: sz encode_pair_eq writeData_eq)
  then show ?thesis
    using failed_growth_keeps_value_in_memory [of ex_m "ex_w\<lparr>faults := [False]\<rparr>" "[]" "[]" "[107]" "replicate 5000 7"]
      loaded_cong [of "ex_w\<lparr>faults := [False]\<rparr>" ex_w ex_m "[]"] l sz(2)
    by (simp add: c)
qed



end
