(* ===== verification/EdgeCases.thy ===== *)
theory EdgeCases
  imports Recovery Processes
begin

text \<open>
  Corners of the store: the time at which a value expires, with the wrap-around of its time stamp, the
  deletion of a single key in an encrypted store, and compare-before-set.
\<close>

section \<open>The clock\<close>

lemma live_stamp:
  "live_value True t (v @ stamp s now) = (if s = 0 \<or> now + s = 0 \<or> t < now + s then Some v else None)"
  by (auto simp: live_value_def stamp_def Let_def not_less)

section \<open>Deleting from an encrypted store\<close>

lemma encrypted_region:
  assumes "store_inv m w ps" "m_crypt m = Some a" "m_actualSize m \<noteq> 0"
  shows "Encrypt a (log_region ps) (mi_iv (m_info m)) = Inr (region_at (m_actualSize m) (data_file m w))"
proof -
  note f = store_inv_facts [OF assms(1)]
  have "region_at (m_actualSize m) (data_file m w) \<noteq> []" using f(7) assms(3) by (rule region_at_nonempty)
  then have "Decrypt a (region_at (m_actualSize m) (data_file m w)) (mi_iv (m_info m)) = Inr (log_region ps)"
    using f(2) assms(2) by (auto simp: synced_def on_disk_def region_log_def plain_region_def)
  then show ?thesis by (rule cfb.encrypt_decrypt)
qed

section \<open>Example stores\<close>

text \<open>A version-4 store with the region \<open>R\<close>, the meta flags \<open>fl\<close> and room for more.\<close>

definition ex_sinfo :: "bytes \<Rightarrow> u64 \<Rightarrow> metaInfo" where
  "ex_sinfo R fl = zero_info\<lparr>mi_version := versionFlag, mi_flags := fl, mi_actualSize := of_nat (length R),
     mi_crcDigest := crc32_ChecksumIEEE R\<rparr>"

definition ex_sdata :: "bytes \<Rightarrow> bytes" where
  "ex_sdata R = replicate 4 0 @ R @ replicate 60 0"

abbreviation ex_sos :: "bytes \<Rightarrow> u64 \<Rightarrow> os" where
  "ex_sos R fl \<equiv> ex_files (ex_sdata R) (marshal (ex_sinfo R fl))"

definition ex_smap :: "block option \<Rightarrow> u32 \<Rightarrow> slice gomap \<Rightarrow> bytes \<Rightarrow> u64 \<Rightarrow> mmkv" where
  "ex_smap c secs d R fl = (ex_inst (ex_sdata R) (marshal (ex_sinfo R fl)) False)\<lparr>m_crypt := c, m_info := ex_sinfo R fl,
     m_actualSize := of_nat (length R), m_crcDigest := crc32_ChecksumIEEE R, m_dict := d,
     m_enableExpire := expireEnabled (ex_sinfo R fl), m_expiredSeconds := secs, m_needLoad := False\<rparr>"

lemma ex_smap_inv:
  assumes "length R \<le> 100" "region_log c (replicate 16 0) R ps" "\<And>mf n. dict_in mf n d"
    and "\<And>mf w. dict_map mf w d = log_map ps"
  shows "store_inv (ex_smap c secs d R fl) (ex_sos R fl) ps"
proof -
  let ?m = "ex_smap c secs d R fl" and ?w = "ex_sos R fl" and ?i = "ex_sinfo R fl"
  have wf: "meta_wf ?i" by (simp add: ex_sinfo_def meta_wf_def zero_info_def)
  have u: "unat (of_nat (length R) :: u32) = length R" using assms(1) by (simp add: unat_of_nat_small)
  have i: "mi_version ?i = versionFlag" "mi_actualSize ?i = of_nat (length R)" "mi_crcDigest ?i = crc32_ChecksumIEEE R"
    "mi_iv ?i = replicate 16 0" "disk_actual ?i D = of_nat (length R)" for D
    by (simp_all add: ex_sinfo_def zero_info_def disk_actual_def meta_versions)
  have f: "data_file ?m ?w = ex_sdata R" "meta_file ?m ?w = marshal ?i" "m_info ?m = ?i" "m_crypt ?m = c" "m_dict ?m = d"
    "m_actualSize ?m = of_nat (length R)" "m_crcDigest ?m = crc32_ChecksumIEEE R" "m_enableExpire ?m = expireEnabled ?i"
    by (simp_all add: ex_smap_def ex_files_def ex_inst_def)
  have n: "\<not> m_needFullWriteback ?m" by (simp add: ex_smap_def ex_inst_def newMMKV_def)
  have map: "mf_ok (m_data ?m) ?w" "mf_ok (m_meta ?m) ?w" "mf_size (m_data ?m) = length (ex_sdata R)"
    by (simp_all add: ex_smap_def ex_files_def ex_inst_def mf_ok_def mf_mapped_def)
  have reg: "region_at (of_nat (length R)) (ex_sdata R) = R" "in_file (of_nat (length R)) (ex_sdata R)"
    using assms(1) by (simp_all add: region_at_def in_file_def ex_sdata_def u)
  have "on_disk c (ex_sdata R) (marshal ?i) ?i ps"
    using assms(2) parse_marshal [OF wf] by (simp add: on_disk_def i reg meta_versions)
  then have "synced ?m ?w ps" using map(1,2) i(1) unfolding synced_def f i(3,5) mf_ok_def by simp
  moreover have "content ?m ?w = log_map ps" using assms(4) by (simp add: content_def f)
  moreover have "writable ?m ?w"
  proof -
    have "mf_ino (m_data ?m) \<noteq> mf_ino (m_meta ?m)" "mf_size (m_meta ?m) = length (marshal ?i)" "\<not> m_closed ?m"
      "\<not> m_readOnly ?m" "\<not> m_needLoad ?m"
      by (simp_all add: ex_smap_def ex_inst_def newMMKV_def emptyConfig_def)
    moreover have "faults ?w = []" "pagesize ?w = 4096" by (simp_all add: ex_files_def ex_disk_def)
    ultimately show ?thesis using map wf by (simp add: writable_def ex_sdata_def)
  qed
  ultimately show ?thesis
    using assms(3) n unfolding store_inv_def loaded_def f by simp
qed

text \<open>A plaintext store with one entry.\<close>

abbreviation ex_one :: bytes where "ex_one \<equiv> log_region [([107], [7])]"

lemma ex_single:
  "store_inv (ex_smap None 0 [([107], Heap [7])] ex_one 0) (ex_sos ex_one 0) [([107], [7])]"
  "log_map [([107], [7])] = [[107] \<mapsto> [7]]" "ex_one = [128, 128, 128, 1, 1, 107, 1, 7]"
proof -
  show e: "ex_one = [128, 128, 128, 1, 1, 107, 1, 7]" by code_simp
  have d: "[([107], Heap [7])] = gm_put [107] (Heap [7]) []" by (simp add: gm_put_def)
  show lm: "log_map [([107], [7])] = [[107] \<mapsto> [7]]"
    using log_map_snoc [of "[]" "[107]" "[7]"] by (simp add: entry_value_def)
  show "store_inv (ex_smap None 0 [([107], Heap [7])] ex_one 0) (ex_sos ex_one 0) [([107], [7])]"
  proof (rule ex_smap_inv)
    show "region_log None (replicate 16 0) ex_one [([107], [7])]" by (simp add: region_log_def plain_region_def pair_ok_def)
    show "dict_in mf n [([107], Heap [7])]" for mf n unfolding d by (rule dict_in_put) simp_all
    show "dict_map mf w [([107], Heap [7])] = log_map [([107], [7])]" for mf w
      unfolding d lm by (simp add: dict_map_put)
  qed (simp add: e)
qed

section \<open>Compare before set\<close>

lemma loaded_compare [simp]: "loaded (m\<lparr>m_compareBeforeSet := b\<rparr>) w ps = loaded m w ps"
  by (simp add: loaded_def synced_def content_def)

lemma EnableCompareBeforeSet_ok:
  assumes "holds m w c" "\<not> m_enableExpire m"
  shows "\<exists>w'. EnableCompareBeforeSet m w = Some (Inr (), m\<lparr>m_compareBeforeSet := True\<rparr>, w') \<and> files w' = files w \<and>
    holds (m\<lparr>m_compareBeforeSet := True\<rparr>) w' c \<and> nowUnix w' = nowUnix w \<and> pagesize w' = pagesize w"
  unfolding EnableCompareBeforeSet_def
  by (rule exclusive_plain [OF assms(1)])
    (use assms(2) in \<open>simp_all add: keeps_def session_def attached_def fresh_def can_write_def\<close>)

lemma equal_set_skips:
  assumes h: "holds m w c" and m: "m_compareBeforeSet m" "\<not> e_expire (env_of m w)" "c k = Some v"
  shows "\<exists>m' w'. setValue k v m w = Some (Inr (), m', w') \<and> files w' = files w \<and> holds m' w' c"
proof -
  obtain mi ps where s: "attached m w mi ps" "can_write m w" "meta_consistent mi" "log_map ps = c" "idle m w"
    using h by (auto simp: holds_def session_def)
  have lk: "can_lock ExclusiveLock m w" using s(1,5) by (intro idle_can_lock) (auto simp: attached_def)
  obtain m2 w2 where e: "store_inv m2 w2 ps" "env_of m2 w2 = env_of m w" "m_info m2 = mi" "os_same w w2"
    "same_instance m (m2\<lparr>m_fl := m_fl m\<rparr>)"
    "\<forall>sec r m3 w3. keeps m2 m3 \<longrightarrow> os_frame {mf_ino (m_data m), mf_ino (m_meta m)} w2 w3 \<longrightarrow>
       (\<forall>x y. \<not> m_closed x \<longrightarrow> \<not> m_readOnly x \<longrightarrow> checkLoadData x y = (Inr (), m2, w2) \<longrightarrow> sec x y = (r, m3, w3)) \<longrightarrow>
       (\<exists>w4. withExclusive sec m w = Some (r :: goerr + unit, m3\<lparr>m_fl := m_fl m\<rparr>, w4) \<and> os_same w3 w4 \<and>
          keeps m (m3\<lparr>m_fl := m_fl m\<rparr>) \<and> op_frame m w w4)"
    by (rule write_section [OF s(1-3) lk])
  have same: "setValueLocked k v m2 w2 = (Inr (), m2, w2)"
    using setValueLocked_run [OF e(1), of k v] m s(4) e(2,5) store_inv_env(1) [OF e(1)] by (simp add: same_instance_def)
  obtain w4 where r: "setValue k v m w = Some (Inr (), m2\<lparr>m_fl := m_fl m\<rparr>, w4)" "os_same w2 w4"
    "keeps m (m2\<lparr>m_fl := m_fl m\<rparr>)" "op_frame m w w4"
    using e(6) [rule_format, OF keeps_refl os_frame_refl, of "\<lambda>m w. if m_closed m then (Inl ErrClosed, m, w)
      else if m_readOnly m then (Inl ErrReadOnly, m, w) else andThen checkLoadData (\<lambda>_. setValueLocked k v) m w" "Inr ()"] same
    unfolding setValue_def writeOp_def by (simp add: andThen_def) blast
  have "store_inv (m2\<lparr>m_fl := m_fl m\<rparr>) w4 ps" using e(1) store_inv_cong [of w4 w2] r(2) by (simp add: os_same_def)
  then have "holds (m2\<lparr>m_fl := m_fl m\<rparr>) w4 c" using store_inv_holds [OF _ idle_frame [OF s(5) r(4,3)]] s(4) by fastforce
  moreover have "files w4 = files w" using e(4) r(2) by (simp add: os_same_def)
  ultimately show ?thesis using r(1) by blast
qed

section \<open>Properties\<close>



text \<open>
  C38: deleting a single key appends the deletion record to the region as it is, also when the region
  is encrypted.  The files stay consistent (the size and the CRC match), but the appended plaintext is
  decrypted with the rest: what a later load finds after the old log is the deletion record only if it
  happens to be its own encryption at that position.
\<close>

theorem encrypted_removal_appends_plaintext:
  assumes inv: "store_inv m w ps" and a: "m_crypt m = Some a" and k: "gm_get (m_dict m) k \<noteq> None"
    and v: "versionFlag \<le> mi_version (m_info m)"
    and fits: "4 + unat (m_actualSize m) + length (encode_pair (k, [])) \<le> mf_size (m_data m)" "mf_size (m_data m) < 2 ^ 32"
  shows "\<exists>m' w' rest. removeLocked k m w = (Inr (), m', w') \<and>
    region_at (m_actualSize m') (data_file m' w') = region_at (m_actualSize m) (data_file m w) @ encode_pair (k, []) \<and>
    crc32_ChecksumIEEE (region_at (m_actualSize m') (data_file m' w')) = m_crcDigest m' \<and>
    parseMeta (meta_file m' w') = Inr (m_info m') \<and> mi_actualSize (m_info m') = m_actualSize m' \<and>
    mi_crcDigest (m_info m') = m_crcDigest m' \<and> mi_iv (m_info m') = mi_iv (m_info m) \<and>
    Decrypt a (region_at (m_actualSize m') (data_file m' w')) (mi_iv (m_info m')) = Inr (log_region ps @ rest) \<and>
    (rest = encode_pair (k, []) \<longleftrightarrow> Encrypt a (log_region ps @ encode_pair (k, [])) (mi_iv (m_info m)) =
       Inr (region_at (m_actualSize m) (data_file m w) @ encode_pair (k, [])))"
proof -
  note f = store_inv_facts [OF inv]
  let ?bs = "encode_pair (k, [])" and ?R = "region_at (m_actualSize m) (data_file m w)" and ?iv = "mi_iv (m_info m)"
  let ?m0 = "m\<lparr>m_dict := gm_del k (m_dict m)\<rparr>"
  let ?actual = "m_actualSize m + of_nat (length ?bs)" and ?crc = "crc32_Update (m_crcDigest m) ?bs"
  have nz: "m_actualSize m \<noteq> 0" using store_inv_nonempty [OF inv] k by (cases "m_dict m") auto
  have "int (length ?bs) \<le> int (mf_size (m_data m)) - 4 - int (unat (m_actualSize m))" using fits(1) by linarith
  then have run: "removeLocked k m w = appendRaw ?bs ?m0 w"
    using k v fits(1) nz inv unfolding removeLocked_def Let_def encode_pair_def [of "(k, [])", simplified, symmetric]
    by (auto simp: fileSize_def store_inv_def word_gt_0)
  have w0: "writable ?m0 w" "4 + unat (m_actualSize ?m0) + length ?bs \<le> mf_size (m_data ?m0)"
    using f(1) fits(1) by (simp_all add: writable_def)
  note ap = appendRaw_run [OF w0 refl refl]
  have ua: "unat ?actual = unat (m_actualSize m) + length ?bs"
    using fits unat_add_lem [of "m_actualSize m" "of_nat (length ?bs)"] by (simp add: unat_of_nat_small)
  have ino: "mf_ino (m_data m) \<noteq> mf_ino (m_meta m)" using f(1) by (simp add: writable_def)
  have len: "length (data_file m w) = mf_size (m_data m)" using f(5) by (simp add: mf_mapped_def)
  have reg: "region_at ?actual (overwrite (4 + unat (m_actualSize m)) ?bs (data_file m w)) = ?R @ ?bs"
    using fits(1) len ua by (simp add: region_at_def take_drop_overwrite_extend)
  have crc: "?crc = crc32_ChecksumIEEE (?R @ ?bs)"
    using f(2) by (simp add: synced_def on_disk_def crc32_incremental [symmetric])
  have pm: "parseMeta (meta_file m w) = Inr (m_info m)" using f(2) by (simp add: synced_def on_disk_def)
  have enc: "Encrypt a (log_region ps) ?iv = Inr ?R" by (rule encrypted_region [OF inv a nz])
  obtain pl where pl: "Decrypt a (?R @ ?bs) ?iv = Inr pl"
    using cfb.decrypt_total [of ?iv] f(11) by (auto simp: meta_wf_def)
  obtain rest where rest: "pl = log_region ps @ rest"
    using cfb.decrypt_extend(1) [OF enc pl] by (metis append_take_drop_id)
  have "rest = ?bs \<longleftrightarrow> Encrypt a (log_region ps @ ?bs) ?iv = Inr (?R @ ?bs)"
    using cfb.encrypt_decrypt [OF pl] cfb.decrypt_encrypt [of a "log_region ps @ ?bs" ?iv "?R @ ?bs"] pl rest by auto
  then show ?thesis
    using pl rest ino parseMeta_put_crc_actual [OF pm, of ?actual ?crc] unfolding run ap
    by (auto simp: reg crc)
qed

text \<open>An encrypted store with one pair, under a cipher whose key stream is constant.\<close>

definition ex_block :: block where
  "ex_block b = replicate 16 1"

definition ex_sealed :: bytes where
  "ex_sealed = [129, 129, 129, 0, 0, 106, 3, 0, 6]"

theorem encrypted_removal_appends_plaintext_witness:
  "\<exists>m' w'. removeLocked [107] (ex_smap (Some ex_block) 0 [([107], Heap [1, 7])] ex_sealed 0) (ex_sos ex_sealed 0) = (Inr (), m', w') \<and>
     Decrypt ex_block (region_at (m_actualSize m') (data_file m' w')) (replicate 16 0) =
       Inr (log_region [([107], [1, 7])] @ [0, 106, 1])"
proof -
  let ?m = "ex_smap (Some ex_block) 0 [([107], Heap [1, 7])] ex_sealed 0" and ?w = "ex_sos ex_sealed 0"
  have e: "log_region [([107], [1, 7])] = [128, 128, 128, 1, 1, 107, 2, 1, 7]" "encode_pair ([107], []) = [1, 107, 0]"
    "Decrypt ex_block ex_sealed (replicate 16 0) = Inr [128, 128, 128, 1, 1, 107, 2, 1, 7]"
    "Decrypt ex_block (ex_sealed @ [1, 107, 0]) (replicate 16 0) = Inr [128, 128, 128, 1, 1, 107, 2, 1, 7, 0, 106, 1]"
    by code_simp+
  have d: "[([107], Heap [1, 7])] = gm_put [107] (Heap [1, 7]) []" by (simp add: gm_put_def)
  have lm: "log_map [([107], [1, 7])] = [[107] \<mapsto> [1, 7]]"
    using log_map_snoc [of "[]" "[107]" "[1, 7]"] by (simp add: entry_value_def)
  have i: "store_inv ?m ?w [([107], [1, 7])]"
  proof (rule ex_smap_inv)
    show "region_log (Some ex_block) (replicate 16 0) ex_sealed [([107], [1, 7])]"
      unfolding region_log_def plain_region_def by (simp add: e pair_ok_def)
    show "dict_in mf n [([107], Heap [1, 7])]" for mf n unfolding d by (rule dict_in_put) simp_all
    show "dict_map mf w [([107], Heap [1, 7])] = log_map [([107], [1, 7])]" for mf w
      unfolding d lm by (simp add: dict_map_put)
  qed (simp add: ex_sealed_def)
  have f: "m_crypt ?m = Some ex_block" "m_dict ?m = [([107], Heap [1, 7])]" "m_actualSize ?m = 9"
    "mf_size (m_data ?m) = 73" "mi_version (m_info ?m) = versionFlag" "mi_iv (m_info ?m) = replicate 16 0"
    "region_at (m_actualSize ?m) (data_file ?m ?w) = ex_sealed"
    by (simp_all add: ex_smap_def ex_inst_def ex_sdata_def ex_sinfo_def zero_info_def ex_sealed_def ex_files_def region_at_def)
  have k: "gm_get (m_dict ?m) [107] \<noteq> None" by (simp add: f gm_get_def)
  have v: "versionFlag \<le> mi_version (m_info ?m)" "mf_size (m_data ?m) < 2 ^ 32"
    "4 + unat (m_actualSize ?m) + length (encode_pair ([107], [])) \<le> mf_size (m_data ?m)" by (simp_all add: f e)
  obtain m' w' where r: "removeLocked [107] ?m ?w = (Inr (), m', w')"
    "region_at (m_actualSize m') (data_file m' w') = ex_sealed @ [1, 107, 0]"
    using encrypted_removal_appends_plaintext [OF i f(1) k v(1,3,2)] unfolding f(7) e(2) by blast
  show ?thesis using r(1) e(4) unfolding e(1) r(2) [symmetric] by auto
qed

text \<open>
  C24: compare-before-set saves writes and changes no result.  Once it is on, storing the value a key
  already has succeeds and leaves both files as they were, and storing another value stores it as
  without the option.
\<close>

theorem compare_before_set_skips_equal:
  assumes "holds m w c" "\<not> m_enableExpire m" "\<not> e_expire (env_of m w)" "c k = Some v" "set_pre k v' (env_of m w) c"
  shows "\<exists>m1 w1. EnableCompareBeforeSet m w = Some (Inr (), m1, w1) \<and>
    (\<exists>m2 w2. setValue k v m1 w1 = Some (Inr (), m2, w2) \<and> files w2 = files w \<and> holds m2 w2 c) \<and>
    (\<exists>m2 w2. setValue k v' m1 w1 = Some (Inr (), m2, w2) \<and> holds m2 w2 (c(k \<mapsto> v')))"
proof -
  let ?m1 = "m\<lparr>m_compareBeforeSet := True\<rparr>"
  obtain w1 where e: "EnableCompareBeforeSet m w = Some (Inr (), ?m1, w1)" "files w1 = files w" "holds ?m1 w1 c" "nowUnix w1 = nowUnix w"
    using EnableCompareBeforeSet_ok [OF assms(1,2)] by blast
  have env: "env_of ?m1 w1 = env_of m w" using e(2,4) by (simp add: env_of_def)
  have "\<exists>m2 w2. setValue k v ?m1 w1 = Some (Inr (), m2, w2) \<and> files w2 = files w \<and> holds m2 w2 c"
    using equal_set_skips [OF e(3), of k v] assms(3,4) e(2) by (simp add: env)
  moreover have "\<exists>m2 w2. setValue k v' ?m1 w1 = Some (Inr (), m2, w2) \<and> holds m2 w2 (c(k \<mapsto> v'))"
    using exec_holds [OF e(3), of "CSet k v'"] assms(3,5) by (auto simp: env stored_def stored_value_def)
  ultimately show ?thesis using e(1) by blast
qed

theorem compare_before_set_skips_equal_witness:
  "\<exists>m1 w1 m2 w2. EnableCompareBeforeSet (ex_smap None 0 [([107], Heap [7])] ex_one 0) (ex_sos ex_one 0) = Some (Inr (), m1, w1) \<and>
     setValue [107] [7] m1 w1 = Some (Inr (), m2, w2) \<and> files w2 = files (ex_sos ex_one 0)"
proof -
  let ?m = "ex_smap None 0 [([107], Heap [7])] ex_one 0" and ?w = "ex_sos ex_one 0"
  have e: "encode_pair ([107], [8]) = [1, 107, 1, 8]" by code_simp
  have f: "\<not> m_multiProcess ?m" "\<not> m_enableExpire ?m"
    by (simp_all add: ex_smap_def ex_inst_def newMMKV_def emptyConfig_def expireEnabled_def ex_sinfo_def zero_info_def)
  have h: "holds ?m ?w [[107] \<mapsto> [7]]"
    using store_inv_holds [OF ex_single(1)] f(1) by (simp add: idle_def ex_single(2))
  have x: "\<not> e_expire (env_of ?m ?w)" using store_inv_env(1) [OF ex_single(1)] f(2) by simp
  have "e_size (env_of ?m ?w) = 72"
    using store_inv_env(2) [OF ex_single(1)] by (simp add: ex_smap_def ex_inst_def ex_sdata_def ex_single(3))
  then have p: "set_pre [107] [8] (env_of ?m ?w) [[107] \<mapsto> [7]]"
    using x by (simp add: set_pre_def stored_def stored_value_def entry_ok_def small_def packed_size_single pair_ok_def e)
  have v: "[[107] \<mapsto> [7]] [107] = Some [7]" by simp
  show ?thesis using compare_before_set_skips_equal [OF h f(2) x v p] by blast
qed

end
