(* ===== verification/PublicLock.thy ===== *)
theory PublicLock
  imports Limits EdgeCases
begin

text \<open>
  The public lock (\<^verbatim>\<open>Lock\<close>, \<^verbatim>\<open>Unlock\<close>, \<^verbatim>\<open>TryLock\<close> of \<^verbatim>\<open>mmkv_lock.go\<close>): what one process does between
  \<^verbatim>\<open>Lock\<close> and \<^verbatim>\<open>Unlock\<close> is atomic for the others, which wait, and its own calls re-enter the lock.
\<close>

section \<open>Waiting for the holder\<close>

text \<open>\<open>locked_out m w\<close>: some other open file description holds the lock of \<open>m\<close> exclusively.\<close>

definition locked_out :: "mmkv \<Rightarrow> os \<Rightarrow> bool" where
  "locked_out m w \<longleftrightarrow> faults w = [] \<and> m_multiProcess m \<and> lock_mode (m_fl m) = None \<and>
     fl_ofd (m_fl m) \<notin> set (closedOfds w) \<and>
     (\<exists>d. d \<noteq> fl_ofd (m_fl m) \<and> held w (fl_ino (m_fl m)) d = Some ExclusiveLock)"

lemma locked_out_waits:
  assumes "locked_out m w"
  shows "lock t (m_fl m) w = None"
proof -
  let ?l = "m_fl m"
  obtain d where "d \<noteq> fl_ofd ?l" "held w (fl_ino ?l) d = Some ExclusiveLock"
    using assms by (auto simp: locked_out_def)
  then have "(d, ExclusiveLock) \<in> set (others (fl_ofd ?l) (flocks w (fl_ino ?l)))"
    by (auto simp: held_def others_def dest: map_of_SomeD)
  then have "\<not> compatible k (others (fl_ofd ?l) (flocks w (fl_ino ?l)))" for k
    by (cases k) (force simp: compatible_def list_all_iff)+
  then show ?thesis
    using assms by (cases t) (auto simp: locked_out_def lock_def lock_mode_def platformLock_def flock_defs split: if_splits)
qed

lemma locked_out_ops:
  assumes "locked_out m w"
  shows "exec cm m w = None" "readOp x body m w = None" "Lock m w = None"
    "\<exists>w'. TryLock m w = Some (False, m, w')"
proof -
  note l = locked_out_waits [OF assms]
  have multi: "m_multiProcess m" using assms by (simp add: locked_out_def)
  have "lockExclusive m w = None" "lockShared m w = None" using l multi by (simp_all add: lockExclusive_def lockShared_def)
  then show "exec cm m w = None" "readOp x body m w = None"
    by (cases cm; simp add: setValue_def RemoveValueForKey_def RemoveValuesForKeys_def ClearAll_def Trim_def
        ReKey_def EnableAutoKeyExpire_def DisableAutoKeyExpire_def writeOp_def withExclusive_def readOp_def withShared_def)+
  show "Lock m w = None" using l multi by (simp add: Lock_def)
  show "\<exists>w'. TryLock m w = Some (False, m, w')"
    using assms l [of ExclusiveLock]
    by (auto simp: TryLock_def tryLock_def platformTryLock_def platformLock_def lock_def lock_mode_def locked_out_def
        flock_defs split: if_splits option.splits)
qed

lemma free_lock:
  assumes "faults w = []" "lock_mode l = None" "flocks w (fl_ino l) = []" "fl_ofd l \<notin> set (closedOfds w)"
  shows "lock t l w \<noteq> None"
  using assms
  by (cases t)
    (auto simp: lock_def lock_mode_def platformLock_def flock_defs compatible_def others_def split: if_splits option.splits sum.splits)

text \<open>Every command, every read and \<^verbatim>\<open>Lock\<close> sleep, and \<^verbatim>\<open>TryLock\<close> returns false.\<close>

definition waits :: "mmkv \<Rightarrow> os \<Rightarrow> bool" where
  "waits m w \<longleftrightarrow> (\<forall>cm. exec cm m w = None) \<and> (\<forall>k. GetBytesCopy k m w = None) \<and> Lock m w = None \<and>
     (\<exists>w'. TryLock m w = Some (False, m, w'))"

lemma locked_out_waiting: "locked_out m w \<Longrightarrow> waits m w"
  unfolding waits_def GetBytesCopy_def by (intro conjI allI locked_out_ops)

section \<open>The critical section\<close>

text \<open>\<open>owns m w c\<close>: the instance holds the map \<open>c\<close> and, through its public lock, the file.\<close>

definition owns :: "mmkv \<Rightarrow> os \<Rightarrow> (bytes \<rightharpoonup> bytes) \<Rightarrow> bool" where
  "owns m w c \<longleftrightarrow> holds m w c \<and> m_multiProcess m \<and> fl_exclusive (m_fl m) = 1 \<and> fl_shared (m_fl m) = 0"

lemma owns_held:
  assumes "owns m w c"
  shows "held w (fl_ino (m_fl m)) (fl_ofd (m_fl m)) = Some ExclusiveLock" "faults w = []"
  using assms by (auto simp: owns_def holds_def session_def attached_def idle_def fl_inv_def lock_mode_def)

lemma owns_keeps: "owns m w c \<Longrightarrow> holds m' w' c' \<Longrightarrow> keeps m m' \<Longrightarrow> owns m' w' c'"
  by (simp add: owns_def keeps_def)

text \<open>An instance of another process, waiting on the same file.\<close>

definition bystander :: "mmkv \<Rightarrow> mmkv \<Rightarrow> os \<Rightarrow> bool" where
  "bystander m q w \<longleftrightarrow> m_multiProcess q \<and> lock_mode (m_fl q) = None \<and> fl_ofd (m_fl q) \<notin> set (closedOfds w) \<and>
     fl_ino (m_fl q) = fl_ino (m_fl m) \<and> fl_ofd (m_fl q) \<noteq> fl_ofd (m_fl m)"

lemma owns_locked_out: "owns m w c \<Longrightarrow> bystander m q w \<Longrightarrow> locked_out q w"
  using owns_held [of m w c] unfolding locked_out_def bystander_def by metis

lemma bystander_keeps: "bystander m q w \<Longrightarrow> keeps m m' \<Longrightarrow> op_frame m w w' \<Longrightarrow> bystander m' q w'"
  by (simp add: bystander_def keeps_def op_frame_def)

lemma Lock_owns:
  assumes h: "holds m w c" and m: "m_multiProcess m" "fl_exclusive (m_fl m) = 0" "fl_shared (m_fl m) = 0"
  obtains m1 w1 where "Lock m w = Some (m1, w1)" "owns m1 w1 c" "m1 = m\<lparr>m_fl := m_fl m1\<rparr>" "files w1 = files w"
    "closedOfds w1 = closedOfds w" "env_of m1 w1 = env_of m w" "fl_ino (m_fl m1) = fl_ino (m_fl m)"
    "fl_ofd (m_fl m1) = fl_ofd (m_fl m)"
proof -
  obtain mi ps where ses: "session m w mi ps" and s: "log_map ps = c" "idle m w"
    using h by (auto simp: holds_def)
  have f: "faults w = []" "fl_inv (m_fl m) w" "others (fl_ofd (m_fl m)) (flocks w (fl_ino (m_fl m))) = []"
    using ses s(2) m(1) by (simp_all add: session_def attached_def idle_def)
  obtain r l w1 where k: "lock ExclusiveLock (m_fl m) w = Some (r, l, w1)"
    using idle_can_lock [OF f(1) s(2), of ExclusiveLock] m(1) by (auto simp: can_lock_def)
  note a = lock_step_inv [OF f(1,2) k]
  then have l: "l = (m_fl m)\<lparr>fl_exclusive := 1\<rparr>" "fl_inv l w1" "lock_frame (m_fl m) w w1" using m(2) by auto
  note fr = lock_frame_fields [OF l(3)]
  let ?m = "m\<lparr>m_fl := l\<rparr>"
  have "session ?m w1 mi ps" using session_cong [OF fr(1-3), where m = m and l = l] ses by simp
  moreover have "idle ?m w1" using l f(3) lock_frame_others [OF l(3)] by (simp add: idle_def)
  ultimately have "holds ?m w1 c" using s(1) by (auto simp: holds_def)
  then have "owns ?m w1 c" using m l(1) by (simp add: owns_def)
  moreover have "Lock m w = Some (?m, w1)" using k m(1) by (simp add: Lock_def)
  ultimately show thesis using l(1) fr by (intro that [of ?m w1]) (simp_all add: env_of_def)
qed

lemma Unlock_frees:
  assumes "owns m w c"
  obtains m1 w1 where "Unlock m w = Some (m1, w1)" "holds m1 w1 c" "files w1 = files w"
    "flocks w1 (fl_ino (m_fl m)) = []" "faults w1 = []" "closedOfds w1 = closedOfds w"
proof -
  obtain mi ps where ses: "session m w mi ps" and s: "log_map ps = c" "idle m w"
    using assms by (auto simp: owns_def holds_def)
  have m: "m_multiProcess m" "fl_exclusive (m_fl m) = 1" "fl_shared (m_fl m) = 0" using assms by (simp_all add: owns_def)
  have f: "faults w = []" "fl_inv (m_fl m) w" "others (fl_ofd (m_fl m)) (flocks w (fl_ino (m_fl m))) = []"
    using ses s(2) m(1) by (simp_all add: session_def attached_def idle_def)
  let ?l = "(m_fl m)\<lparr>fl_exclusive := 0\<rparr>" and ?w = "set_locks (fl_ino (m_fl m)) [] w"
  have u: "unlock ExclusiveLock (m_fl m) w = Some (Inr (), ?l, ?w)"
    using m f by (simp add: unlock_def platformUnlock_def flock_un_def fl_inv_def)
  let ?m = "m\<lparr>m_fl := ?l\<rparr>"
  have "session ?m ?w mi ps" using session_cong [where w' = ?w and w = w and m = m and l = ?l] ses by simp
  moreover have "idle ?m ?w" using f(2) m(3) by (simp add: idle_def fl_inv_def held_def lock_mode_def locks_ok_def others_def)
  ultimately have "holds ?m ?w c" using s(1) by (auto simp: holds_def)
  moreover have "Unlock m w = Some (?m, ?w)" using u m(1) by (simp add: Unlock_def)
  ultimately show thesis using f(1) by (intro that [of ?m ?w]) simp_all
qed

lemma proc_bystander:
  assumes "reach (proc_init n) (proc_step n) s" "p < n" "q < n"
    and "fl_ofd (m_fl (g_inst s q)) \<noteq> fl_ofd (m_fl (g_inst s p))"
  shows "bystander (g_inst s p) (g_inst s q) (g_os s)"
proof -
  obtain di ji c mi ps s0 r where a: "\<forall>p<n. member di ji c (g_inst s p) (g_os s) \<and> attached (g_inst s p) (g_os s) mi ps \<and>
      (\<exists>q\<le>r. mi_sequence (m_info (g_inst s p)) = s0 + of_nat q)"
    using procs.reach_inv [OF assms(1)] unfolding proc_inv_def by (elim exE conjE)
  then have m: "member di ji c (g_inst s p) (g_os s)" "member di ji c (g_inst s q) (g_os s)" using assms(2,3) by simp_all
  show ?thesis using assms(4) m member_lock [OF m(2)] by (simp add: bystander_def member_def)
qed

section \<open>Properties\<close>

text \<open>
  C8: reading, changing and writing a value between \<^verbatim>\<open>Lock\<close> and \<^verbatim>\<open>Unlock\<close> is atomic across processes, as
  the documentation's counter example needs: the process reads the current value and stores its
  successor, and from \<^verbatim>\<open>Lock\<close> to \<^verbatim>\<open>Unlock\<close> every command, every read and every \<^verbatim>\<open>Lock\<close> of any other process
  waits, and its \<^verbatim>\<open>TryLock\<close> returns false.  After \<^verbatim>\<open>Unlock\<close> nobody waits.
\<close>

theorem locked_increment_is_atomic:
  assumes s: "reach (proc_init n) (proc_step n) s" "p < n"
    and o: "\<forall>q<n. q \<noteq> p \<longrightarrow> fl_ofd (m_fl (g_inst s q)) \<noteq> fl_ofd (m_fl (g_inst s p))"
    and v: "visible_of (env_of (g_inst s p) (g_os s)) (g_map s) k = Some (int32Blob v)"
    and pre: "set_pre k (int32Blob (v + 1)) (env_of (g_inst s p) (g_os s)) (g_map s)"
  shows "\<exists>m1 w1 m2 w2 m3 w3 m4 w4. Lock (g_inst s p) (g_os s) = Some (m1, w1) \<and>
    GetInt32 k m1 w1 = Some (Inr (Some v), m2, w2) \<and> SetInt32 k (v + 1) m2 w2 = Some (Inr (), m3, w3) \<and>
    Unlock m3 w3 = Some (m4, w4) \<and>
    holds m4 w4 ((g_map s)(k \<mapsto> stored (env_of (g_inst s p) (g_os s)) (int32Blob (v + 1)))) \<and>
    (\<forall>q<n. q \<noteq> p \<longrightarrow> waits (g_inst s q) w1 \<and> waits (g_inst s q) w2 \<and> waits (g_inst s q) w3) \<and>
    (\<forall>q<n. \<forall>t. q \<noteq> p \<longrightarrow> lock t (m_fl (g_inst s q)) w4 \<noteq> None)"
proof -
  let ?m = "g_inst s p" and ?w = "g_os s" and ?c = "g_map s"
  let ?e = "env_of ?m ?w"
  let ?c' = "?c(k \<mapsto> stored ?e (int32Blob (v + 1)))"
  obtain di ji cr where mem: "member di ji cr ?m ?w"
    using procs.reach_inv [OF s(1)] s(2) unfolding proc_inv_def by blast
  obtain m1 w1 where l: "Lock ?m ?w = Some (m1, w1)" "owns m1 w1 ?c" "m1 = ?m\<lparr>m_fl := m_fl m1\<rparr>" "files w1 = files ?w"
    "closedOfds w1 = closedOfds ?w" "env_of m1 w1 = ?e" "fl_ino (m_fl m1) = fl_ino (m_fl ?m)"
    "fl_ofd (m_fl m1) = fl_ofd (m_fl ?m)"
    using Lock_owns [OF proc_holds [OF s]] mem unfolding member_def by blast
  have h1: "holds m1 w1 ?c" using l(2) by (simp add: owns_def)
  obtain m2 w2 where g: "GetInt32 k m1 w1 = Some (Inr (Some v), m2, w2)" "holds m2 w2 ?c" "env_of m2 w2 = ?e"
    "keeps m1 m2" "op_frame m1 w1 w2"
    using scalar_get.holds_read [OF h1, of None readInt32 k] v int32_kv.decode_blob [of v] l(6) unfolding GetInt32_def by auto
  obtain m3 w3 where t: "SetInt32 k (v + 1) m2 w2 = Some (Inr (), m3, w3)" "holds m3 w3 ?c'" "keeps m2 m3" "op_frame m2 w2 w3"
    using exec_holds [OF g(2), of "CSet k (int32Blob (v + 1))"] pre g(3) unfolding SetInt32_def by auto
  have o2: "owns m2 w2 ?c" by (rule owns_keeps [OF l(2) g(2,4)])
  have o3: "owns m3 w3 ?c'" by (rule owns_keeps [OF o2 t(2,3)])
  obtain m4 w4 where u: "Unlock m3 w3 = Some (m4, w4)" "holds m4 w4 ?c'" "flocks w4 (fl_ino (m_fl m3)) = []" "faults w4 = []"
    "closedOfds w4 = closedOfds w3"
    by (rule Unlock_frees [OF o3])
  have wit: "bystander m1 (g_inst s q) w1" "bystander m2 (g_inst s q) w2" "bystander m3 (g_inst s q) w3" if "q < n" "q \<noteq> p" for q
  proof -
    have "bystander ?m (g_inst s q) ?w" using proc_bystander [OF s] o that by blast
    then show 1: "bystander m1 (g_inst s q) w1" using l(5,7,8) by (simp add: bystander_def)
    then show 2: "bystander m2 (g_inst s q) w2" by (rule bystander_keeps [OF _ g(4,5)])
    then show "bystander m3 (g_inst s q) w3" by (rule bystander_keeps [OF _ t(3,4)])
  qed
  have wait: "waits (g_inst s q) w1 \<and> waits (g_inst s q) w2 \<and> waits (g_inst s q) w3" if "q < n" "q \<noteq> p" for q
    using wit [OF that] l(2) o2 o3 by (intro conjI locked_out_waiting) (auto intro: owns_locked_out)
  have "lock t (m_fl (g_inst s q)) w4 \<noteq> None" if "q < n" "q \<noteq> p" for q t
    using wit(3) [OF that] u(3-5) by (intro free_lock) (simp_all add: bystander_def)
  then show ?thesis using l(1) g(1) t(1) u(1,2) wait by blast
qed

text \<open>Two processes on a store with a counter.\<close>

definition ex_counter :: psys where
  "ex_counter = \<lparr>g_os = ex_sos ex_one 0,
     g_inst = (\<lambda>p. (ex_smap None 0 [([107], Heap [7])] ex_one 0)\<lparr>m_multiProcess := True,
        m_fl := newFileLock 2 (3 + p)\<rparr>),
     g_map = [[107] \<mapsto> [7]], g_writes = 0\<rparr>"

lemma store_inv_multi [simp]:
  "store_inv (m\<lparr>m_multiProcess := b, m_fl := l\<rparr>) w ps = store_inv m w ps"
  by (simp add: store_inv_def writable_def loaded_def synced_def content_def)

lemma ex_counter_init: "reach (proc_init 2) (proc_step 2) ex_counter"
    "env_of (g_inst ex_counter 0) (g_os ex_counter) =
       \<lparr>e_crypt = None, e_expire = False, e_seconds = 0, e_now = 1000, e_size = 72\<rparr>"
proof -
  let ?M = "g_inst ex_counter" and ?W = "g_os ex_counter"
  have ip: "store_inv (?M p) ?W [([107], [7])]" for p
    using ex_single(1) store_inv_multi by (simp add: ex_counter_def)
  note a = store_inv_attached [OF ip]
  have f: "m_crypt (?M p) = None" "mf_ino (m_data (?M p)) = 1" "mf_ino (m_meta (?M p)) = 2" "closedOfds ?W = []" "flocks ?W 2 = []"
    "m_multiProcess (?M p)" "m_fl (?M p) = newFileLock 2 (3 + p)" "m_expiredSeconds (?M p) = 0"
    "mf_size (m_data (?M p)) = 72" "nowUnix ?W = 1000" "\<not> m_enableExpire (?M p)" for p
    by (simp_all add: ex_counter_def ex_smap_def ex_inst_def ex_files_def ex_disk_def ex_sdata_def ex_single(3) ex_sinfo_def zero_info_def expireEnabled_def)
  have info: "m_info (?M p) = m_info (?M 0)" for p by (simp add: ex_counter_def)
  show "env_of (?M 0) ?W = \<lparr>e_crypt = None, e_expire = False, e_seconds = 0, e_now = 1000, e_size = 72\<rparr>"
    using loaded_env [of "?M 0" ?W "[([107], [7])]"] ip [of 0] by (simp add: store_inv_def f)
  have "member 1 2 None (?M p) ?W" for p using a(2) [of p] by (simp add: member_def newFileLock_def f)
  moreover have "attached (?M p) ?W (m_info (?M 0)) [([107], [7])]" for p using a(1) [of p] unfolding info [of p] .
  moreover have "mi_sequence (m_info (?M p)) = mi_sequence (m_info (?M 0))" for p unfolding info [of p] ..
  moreover have "log_map [([107], [7])] = g_map ex_counter" "g_writes ex_counter = 0" by (simp_all add: ex_single(2) ex_counter_def)
  ultimately have "proc_init 2 ex_counter" unfolding proc_init_def using a(3) [of 0] f(5) by blast
  then show "reach (proc_init 2) (proc_step 2) ex_counter" by (rule reach_init)
qed

theorem locked_increment_is_atomic_witness:
  "\<exists>m1 w1 m2 w2 m3 w3 m4 w4. Lock (g_inst ex_counter 0) (g_os ex_counter) = Some (m1, w1) \<and>
     GetInt32 [107] m1 w1 = Some (Inr (Some 7), m2, w2) \<and> SetInt32 [107] (7 + 1) m2 w2 = Some (Inr (), m3, w3) \<and>
     Unlock m3 w3 = Some (m4, w4) \<and> holds m4 w4 [[107] \<mapsto> [8]] \<and> waits (g_inst ex_counter 1) w2"
proof -
  have b: "int32Blob 7 = [7]" "int32Blob (7 + 1) = [8]" "encode_pair ([107], [8]) = [1, 107, 1, 8]" by code_simp+
  have g: "g_map ex_counter = [[107] \<mapsto> [7]]" by (simp add: ex_counter_def)
  have o: "\<forall>q<2. q \<noteq> 0 \<longrightarrow> fl_ofd (m_fl (g_inst ex_counter q)) \<noteq> fl_ofd (m_fl (g_inst ex_counter 0))"
    by (simp add: ex_counter_def newFileLock_def)
  have v: "visible_of (env_of (g_inst ex_counter 0) (g_os ex_counter)) (g_map ex_counter) [107] = Some (int32Blob 7)"
    by (simp add: ex_counter_init(2) g b visible_of_def live_value_def)
  have p: "set_pre [107] (int32Blob (7 + 1)) (env_of (g_inst ex_counter 0) (g_os ex_counter)) (g_map ex_counter)"
    unfolding ex_counter_init(2) g b(2)
    by (simp add: set_pre_def stored_def stored_value_def entry_ok_def small_def packed_size_single pair_ok_def b)
  have st: "(g_map ex_counter)([107] \<mapsto> stored (env_of (g_inst ex_counter 0) (g_os ex_counter)) (int32Blob (7 + 1))) = [[107] \<mapsto> [8]]"
    unfolding ex_counter_init(2) g b(2) by (simp add: stored_def stored_value_def)
  have z: "0 < (2 :: nat)" by simp
  show ?thesis
    using locked_increment_is_atomic [OF ex_counter_init(1) z o v p] unfolding st
    by (elim exE conjE) (intro exI conjI, assumption+, simp)
qed

end
