(* ===== verification/History.thy ===== *)
theory History
  imports StoreProps
begin

text \<open>
  Whole histories of one instance: any sequence of write commands, queries, flushes, cache drops and
  clock changes, against a specification that knows a map, the configuration and an upper bound on the
  length of the data file.  The specification threads the bound by itself (\<open>size_limit\<close>), so that the
  preconditions of a history speak of the maps only, not of what the implementation did to the file.
\<close>

section \<open>Calls and their specification\<close>

datatype query = QGet bytes | QBuffer bytes bytes | QContains bytes | QSize bytes | QCount | QKeys

datatype call = Do cmd | Ask query | Flush_to_disk bool | Drop | Clock u32

datatype answer = AnsDone | AnsValue "bytes option" | AnsBuffer "(nat \<times> bytes) option" | AnsMember bool | AnsSize "nat option" | AnsCount nat | AnsKeys "bytes list"

text \<open>The answer of an operation, tagged with its type.\<close>

definition tagged :: "('a \<Rightarrow> answer) \<Rightarrow> 'a op \<Rightarrow> answer op" where
  "tagged f op m w = map_option (\<lambda>(r, m', w'). (map_sum id f r, m', w')) (op m w)"

fun ask :: "query \<Rightarrow> answer op" where
  "ask (QGet k) = tagged AnsValue (GetBytesCopy k)"
| "ask (QBuffer k buf) = tagged AnsBuffer (WriteValueToBuffer k buf)"
| "ask (QContains k) = tagged AnsMember (Contains k)"
| "ask (QSize k) = tagged AnsSize (GetValueSize k)"
| "ask QCount = tagged AnsCount Count"
| "ask QKeys = tagged AnsKeys AllKeys"

fun perform :: "call \<Rightarrow> answer op" where
  "perform (Do cm) = tagged (\<lambda>_. AnsDone) (exec cm)"
| "perform (Ask q) = ask q"
| "perform (Flush_to_disk sync) = tagged (\<lambda>_. AnsDone) (syncFlush sync)"
| "perform Drop = (\<lambda>m w. Some (Inr AnsDone, ClearMemoryCache m, w))"
| "perform (Clock t) = (\<lambda>m w. Some (Inr AnsDone, m, w\<lparr>nowUnix := t\<rparr>))"

text \<open>A history goes on after an error; it ends early only in a call that never returns.\<close>

fun perform_all :: "call list \<Rightarrow> mmkv \<Rightarrow> os \<Rightarrow> ((goerr + answer) list \<times> mmkv \<times> os) option" where
  "perform_all [] m w = Some ([], m, w)"
| "perform_all (cl # cls) m w =
    (case perform cl m w of
       None \<Rightarrow> None
     | Some (r, m', w') \<Rightarrow> map_option (\<lambda>(rs, s). (r # rs, s)) (perform_all cls m' w'))"

fun query_spec :: "query \<Rightarrow> (bytes \<rightharpoonup> bytes) \<Rightarrow> answer" where
  "query_spec (QGet k) v = AnsValue (Option.bind (v k) (decode_with readBytes))"
| "query_spec (QBuffer k buf) v = AnsBuffer (into_buffer buf (v k))"
| "query_spec (QContains k) v = AnsMember (k \<in> dom v)"
| "query_spec (QSize k) v = AnsSize (map_option length (v k))"
| "query_spec QCount v = AnsCount (card (dom v))"
| "query_spec QKeys v = AnsKeys (sorted_list_of_set (dom v))"

fun call_answer :: "call \<Rightarrow> env \<Rightarrow> (bytes \<rightharpoonup> bytes) \<Rightarrow> answer" where
  "call_answer (Ask q) e c = query_spec q (visible_of e c)"
| "call_answer _ e c = AnsDone"

fun call_map :: "call \<Rightarrow> env \<Rightarrow> (bytes \<rightharpoonup> bytes) \<Rightarrow> (bytes \<rightharpoonup> bytes)" where
  "call_map (Do cm) e c = cmd_spec cm e c"
| "call_map _ e c = c"

fun call_env :: "nat \<Rightarrow> call \<Rightarrow> env \<Rightarrow> (bytes \<rightharpoonup> bytes) \<Rightarrow> env" where
  "call_env p (Do cm) e c = (cmd_conf cm e)\<lparr>e_size := max (e_size e) (size_limit p (cmd_spec cm e c))\<rparr>"
| "call_env p (Clock t) e c = e\<lparr>e_now := t\<rparr>"
| "call_env p _ e c = e"

fun call_pre :: "call \<Rightarrow> env \<Rightarrow> (bytes \<rightharpoonup> bytes) \<Rightarrow> bool" where
  "call_pre (Do cm) e c \<longleftrightarrow> cmd_pre cm e c"
| "call_pre _ e c \<longleftrightarrow> True"

text \<open>The specification of a history: when it is within the limits, its answers and its final map.\<close>

fun calls_pre :: "nat \<Rightarrow> call list \<Rightarrow> env \<Rightarrow> (bytes \<rightharpoonup> bytes) \<Rightarrow> bool" where
  "calls_pre p [] e c \<longleftrightarrow> True"
| "calls_pre p (cl # cls) e c \<longleftrightarrow> call_pre cl e c \<and> calls_pre p cls (call_env p cl e c) (call_map cl e c)"

fun calls_answers :: "nat \<Rightarrow> call list \<Rightarrow> env \<Rightarrow> (bytes \<rightharpoonup> bytes) \<Rightarrow> answer list" where
  "calls_answers p [] e c = []"
| "calls_answers p (cl # cls) e c = call_answer cl e c # calls_answers p cls (call_env p cl e c) (call_map cl e c)"

fun calls_map :: "nat \<Rightarrow> call list \<Rightarrow> env \<Rightarrow> (bytes \<rightharpoonup> bytes) \<Rightarrow> (bytes \<rightharpoonup> bytes)" where
  "calls_map p [] e c = c"
| "calls_map p (cl # cls) e c = calls_map p cls (call_env p cl e c) (call_map cl e c)"

section \<open>The specification does not depend on the file length\<close>

text \<open>\<open>e\<close> is the real configuration, \<open>e'\<close> the one of the specification: equal but for a longer file.\<close>

definition below :: "env \<Rightarrow> env \<Rightarrow> bool" where
  "below e e' \<longleftrightarrow> same_env e e' \<and> e_size e \<le> e_size e'"

lemma below_fields:
  assumes "below e e'"
  shows "e_crypt e' = e_crypt e" "e_expire e' = e_expire e" "e_seconds e' = e_seconds e" "e_now e' = e_now e"
    "e_size e \<le> e_size e'" "stored e' = stored e" "visible_of e' = visible_of e" "expire_off e' = expire_off e"
proof -
  show f: "e_crypt e' = e_crypt e" "e_expire e' = e_expire e" "e_seconds e' = e_seconds e" "e_now e' = e_now e"
    "e_size e \<le> e_size e'"
    using assms by (cases e; cases e'; simp add: below_def same_env_def)+
  show v: "visible_of e' = visible_of e" using assms same_env_visible by (simp add: below_def)
  show "stored e' = stored e" "expire_off e' = expire_off e" by (simp_all add: fun_eq_iff stored_def expire_off_def f v)
qed

lemma below_small: "below e e' \<Longrightarrow> small e' c \<Longrightarrow> small e c"
  by (auto simp: small_def dest: below_fields(5))

lemma below_cmd:
  assumes "below e e'"
  shows "cmd_spec cm e' c = cmd_spec cm e c" "cmd_pre cm e' c \<Longrightarrow> cmd_pre cm e c"
    "same_env (cmd_conf cm e) (cmd_conf cm e')"
proof -
  note f = below_fields [OF assms] and sm = below_small [OF assms]
  show s: "cmd_spec cm e' c = cmd_spec cm e c" by (cases cm) (simp_all add: f)
  show "cmd_pre cm e' c \<Longrightarrow> cmd_pre cm e c" by (cases cm) (auto simp: f set_pre_def intro: sm)
  show "same_env (cmd_conf cm e) (cmd_conf cm e')"
    using assms f by (cases cm; cases e; cases e') (auto simp: below_def same_env_def)
qed

lemma below_query: "below e e' \<Longrightarrow> call_answer cl e' c = call_answer cl e c"
  by (cases cl) (simp_all add: below_fields(7))

lemma cmd_conf_size [simp]: "e_size (cmd_conf cm e) = e_size e"
  by (cases cm) simp_all

lemma same_env_size: "same_env e e' \<Longrightarrow> same_env e' e'' \<Longrightarrow> same_env e (e''\<lparr>e_size := n\<rparr>)"
  by (cases e; cases e'; cases e'') (simp add: same_env_def)

lemma same_env_sym: "same_env e e' \<Longrightarrow> same_env e' e"
  by (cases e; cases e') (simp add: same_env_def)

section \<open>One call\<close>

lemma tagged_run: "op m w = Some (Inr a, m', w') \<Longrightarrow> tagged f op m w = Some (Inr (f a), m', w')"
  by (simp add: tagged_def)

lemma ask_holds:
  assumes "holds m w c"
  shows "\<exists>m' w'. ask q m w = Some (Inr (query_spec q (visible_of (env_of m w) c)), m', w') \<and> holds m' w' c \<and>
    env_of m' w' = env_of m w \<and> pagesize w' = pagesize w"
proof (cases q)
  case (QGet k)
  then show ?thesis using bytes_get.holds_read [OF assms, where x = None and k = k]
    by (fastforce simp: GetBytesCopy_def op_frame_def intro: tagged_run)
next
  case (QBuffer k buf)
  then show ?thesis using buffer_get.holds_read [OF assms, where x = None and k = k and buf = buf]
    by (fastforce simp: WriteValueToBuffer_def op_frame_def intro: tagged_run)
next
  case (QContains k)
  then show ?thesis using contains_get.holds_read [OF assms, where x = False and k = k]
    by (fastforce simp: Contains_def op_frame_def intro: tagged_run)
next
  case (QSize k)
  then show ?thesis using size_get.holds_read [OF assms, where x = None and k = k]
    by (fastforce simp: GetValueSize_def op_frame_def intro: tagged_run)
next
  case QCount
  then show ?thesis using count_get.holds_read [OF assms, where x = 0]
    by (fastforce simp: Count_def op_frame_def intro: tagged_run)
next
  case QKeys
  then show ?thesis using keys_get.holds_read [OF assms, where x = "[]"]
    by (fastforce simp: AllKeys_def op_frame_def intro: tagged_run)
qed

lemma perform_holds:
  assumes h: "holds m w c" and b: "below (env_of m w) e" and p: "call_pre cl e c"
  shows "\<exists>m' w'. perform cl m w = Some (Inr (call_answer cl e c), m', w') \<and> holds m' w' (call_map cl e c) \<and>
    below (env_of m' w') (call_env (pagesize w) cl e c) \<and> pagesize w' = pagesize w"
proof (cases cl)
  case (Do cm)
  have pre: "cmd_pre cm (env_of m w) c" using below_cmd(2) [OF b] p Do by simp
  note sp = below_cmd(1) [OF b, of cm c]
  obtain m' w' where r: "exec cm m w = Some (Inr (), m', w')" "holds m' w' (cmd_spec cm e c)"
    "same_env (cmd_conf cm (env_of m w)) (env_of m' w')" "op_frame m w w'"
    "e_size (env_of m' w') \<le> max (e_size (env_of m w)) (size_limit (pagesize w) (cmd_spec cm e c))"
    using exec_holds [OF h pre] unfolding sp by blast
  let ?n = "max (e_size e) (size_limit (pagesize w) (cmd_spec cm e c))"
  have n: "e_size (env_of m' w') \<le> ?n" using r(5) below_fields(5) [OF b] by linarith
  have "below (env_of m' w') ((cmd_conf cm e)\<lparr>e_size := ?n\<rparr>)"
    using same_env_size [OF same_env_sym [OF r(3)] below_cmd(3) [OF b]] n by (simp add: below_def)
  then show ?thesis using Do r(1,2,4) by (simp add: tagged_def op_frame_def)
next
  case (Ask q)
  then show ?thesis using ask_holds [OF h, of q] b below_fields(7) [OF b] by fastforce
next
  case (Flush_to_disk sync)
  obtain w' where r: "syncFlush sync m w = Some (Inr (), m, w')" "files w' = files w" "holds m w' c" "nowUnix w' = nowUnix w"
    "pagesize w' = pagesize w"
    using syncFlush_holds [OF h] by blast
  then have "env_of m w' = env_of m w" by (simp add: env_of_def)
  then show ?thesis using Flush_to_disk r(1,3,5) b by (simp add: tagged_def)
next
  case Drop
  have "env_of (ClearMemoryCache m) w = env_of m w" by (simp add: env_of_def ClearMemoryCache_def)
  then show ?thesis using Drop ClearMemoryCache_keeps_content [OF h] b by simp
next
  case (Clock t)
  have "below ((env_of m w)\<lparr>e_now := t\<rparr>) (e\<lparr>e_now := t\<rparr>)"
    using b by (cases e) (simp add: below_def same_env_def env_of_def)
  then show ?thesis using Clock h by (simp add: holds_tick env_tick)
qed

lemma perform_all_holds:
  "holds m w c \<Longrightarrow> below (env_of m w) e \<Longrightarrow> calls_pre (pagesize w) cls e c \<Longrightarrow>
    \<exists>m' w'. perform_all cls m w = Some (map Inr (calls_answers (pagesize w) cls e c), m', w') \<and>
      holds m' w' (calls_map (pagesize w) cls e c)"
proof (induction cls arbitrary: m w e c)
  case (Cons cl cls)
  obtain m1 w1 where s: "perform cl m w = Some (Inr (call_answer cl e c), m1, w1)" "holds m1 w1 (call_map cl e c)"
    "below (env_of m1 w1) (call_env (pagesize w) cl e c)" "pagesize w1 = pagesize w"
    using perform_holds [OF Cons.prems(1,2), of cl] Cons.prems(3) by auto
  have "calls_pre (pagesize w1) cls (call_env (pagesize w) cl e c) (call_map cl e c)" using Cons.prems(3) s(4) by simp
  from Cons.IH [OF s(2,3) this] show ?case using s(1,4) by auto
qed auto

section \<open>Properties\<close>



end
