(* ===== verification/ImportProps.thy ===== *)
theory ImportProps
  imports History "HOL-Library.Multiset"
begin

text \<open>
  Several stores side by side, and \<^verbatim>\<open>ImportFrom\<close> of \<^verbatim>\<open>mmkv_io.go\<close>, which takes a snapshot of one store
  under its lock and then writes it into another under the other's lock.
\<close>

section \<open>Stores that do not share a file\<close>

definition separate :: "mmkv \<Rightarrow> mmkv \<Rightarrow> bool" where
  "separate a b \<longleftrightarrow>
     {mf_ino (m_data a), mf_ino (m_meta a), fl_ino (m_fl a)} \<inter> {mf_ino (m_data b), mf_ino (m_meta b), fl_ino (m_fl b)} = {}"

lemma separate_sym: "separate a b \<Longrightarrow> separate b a"
  by (auto simp: separate_def)

lemma separate_keeps: "separate a b \<Longrightarrow> keeps a a' \<Longrightarrow> separate a' b"
  by (simp add: separate_def keeps_def)

lemma loaded_files:
  assumes "files w' (mf_ino (m_data m)) = files w (mf_ino (m_data m))" "files w' (mf_ino (m_meta m)) = files w (mf_ino (m_meta m))"
  shows "loaded m w' ps = loaded m w ps"
proof -
  have "content m w' = content m w" unfolding content_def dict_map_def deref_file_cong [OF assms(1)] ..
  then show ?thesis using assms by (simp add: loaded_def synced_def mf_mapped_def)
qed

lemma holds_files:
  assumes "files w' (mf_ino (m_data m)) = files w (mf_ino (m_data m))" "files w' (mf_ino (m_meta m)) = files w (mf_ino (m_meta m))"
    "flocks w' (fl_ino (m_fl m)) = flocks w (fl_ino (m_fl m))" "closedOfds w' = closedOfds w"
    "faults w' = faults w" "pagesize w' = pagesize w"
  shows "holds m w' c = holds m w c"
  using assms loaded_files [OF assms(1,2)]
  by (simp add: holds_def session_def attached_def fresh_def can_write_def mf_mapped_def idle_def fl_inv_def held_def)

text \<open>An operation on one store does not disturb another.\<close>

lemma holds_separate:
  assumes "separate a b" "op_frame a w w'" "holds b w c"
  shows "holds b w' c" "env_of b w' = env_of b w"
proof -
  have f: "files w' (mf_ino (m_data b)) = files w (mf_ino (m_data b))" "files w' (mf_ino (m_meta b)) = files w (mf_ino (m_meta b))"
    "flocks w' (fl_ino (m_fl b)) = flocks w (fl_ino (m_fl b))" "closedOfds w' = closedOfds w"
    "faults w' = faults w" "pagesize w' = pagesize w" "nowUnix w' = nowUnix w"
    using assms(1,2) by (auto simp: separate_def op_frame_def)
  show "holds b w' c" using holds_files [OF f(1-6)] assms(3) by simp
  show "env_of b w' = env_of b w" using f by (simp add: env_of_def)
qed

section \<open>The packed size of a map\<close>

lemma packed_size_sum:
  assumes "finite (dom c)"
  shows "packed_size c = 4 + (\<Sum>k\<in>dom c. length (encode_pair (k, the (c k))))"
proof -
  have "length (encode_log ps) = (\<Sum>p\<leftarrow>ps. length (encode_pair p))" for ps
    by (simp add: encode_log_def length_concat comp_def)
  then have "packed_size c = 4 + (\<Sum>k\<leftarrow>sorted_list_of_set (dom c). length (encode_pair (k, the (c k))))"
    by (simp add: packed_size_def log_region_def packed_log_def itemSizeHolderBytes_eq comp_def)
  then show ?thesis using assms by (simp add: sum.distinct_set_conv_list [symmetric])
qed

lemma packed_size_put:
  assumes "finite (dom c)"
  shows "packed_size (c(k \<mapsto> v)) \<le> packed_size c + length (encode_pair (k, v))"
proof -
  let ?f = "\<lambda>c k. length (encode_pair (k, the (c k)))"
  have "sum (?f (c(k \<mapsto> v))) (insert k (dom c)) = ?f (c(k \<mapsto> v)) k + sum (?f (c(k \<mapsto> v))) (dom c - {k})"
    using assms by (simp add: sum.insert_remove)
  also have "sum (?f (c(k \<mapsto> v))) (dom c - {k}) = sum (?f c) (dom c - {k})" by (rule sum.cong) auto
  also have "\<dots> \<le> sum (?f c) (dom c)" using assms by (intro sum_mono2) auto
  finally show ?thesis using assms by (simp add: packed_size_sum)
qed

section \<open>The snapshot\<close>

lemma snapshotValues_ok:
  assumes "readable m w"
  shows "snapshotValues ks m w = Inr (map (\<lambda>k. (k, the (visible m w k))) (filter (\<lambda>k. visible m w k \<noteq> None) ks))"
proof (induction ks)
  case (Cons k ks)
  then show ?case using mmkv_value_ok [OF assms, of k] by (auto split: option.splits)
qed simp

lemma importSource_readOp:
  "\<not> m_closed src \<Longrightarrow> importSource order src w = readOp [] (\<lambda>m w. snapshotValues (order (m_dict m)) m w) src w"
  by (auto simp: importSource_def readOp_def withShared_def lockShared_def split: option.splits)

lemma importSource_ok:
  assumes h: "holds src w cs" and perm: "\<And>d. mset (order d) = mset (gm_keys d)"
  shows "\<exists>kvs src' w'. importSource order src w = Some (Inr kvs, src', w') \<and> distinct (map fst kvs) \<and>
    map_of kvs = visible_of (env_of src w) cs \<and> holds src' w' cs \<and> env_of src' w' = env_of src w \<and>
    keeps src src' \<and> op_frame src w w'"
proof -
  obtain mi ps where s: "attached src w mi ps" "can_write src w" "meta_consistent mi" "log_map ps = cs" "idle src w"
    using h by (auto simp: holds_def session_def)
  have lk: "can_lock SharedLock src w" and cl: "\<not> m_closed src"
    using s(1,5) by (auto simp: attached_def intro: idle_can_lock)
  let ?body = "\<lambda>m w. snapshotValues (order (m_dict m)) m w"
  obtain m1 w1 w' where r: "readOp [] ?body src w = Some (?body m1 w1, m1\<lparr>m_fl := m_fl src\<rparr>, w')"
    "loaded m1 w1 ps" "env_of m1 w1 = env_of src w" "m_info m1 = mi" "\<not> m_needLoad m1" "files w1 = files w"
    "files w' = files w" "same_instance src (m1\<lparr>m_fl := m_fl src\<rparr>)" "op_frame src w w'"
    by (rule read_run [OF s(1) lk])
  let ?v = "visible m1 w1"
  let ?ks = "filter (\<lambda>k. ?v k \<noteq> None) (order (m_dict m1))"
  have run: "?body m1 w1 = Inr (map (\<lambda>k. (k, the (?v k))) ?ks)" by (rule snapshotValues_ok [OF loaded_readable [OF r(2)]])
  have ks: "mset ?ks = mset (filter (\<lambda>k. ?v k \<noteq> None) (gm_keys (m_dict m1)))" using perm by (simp add: mset_filter)
  have d: "distinct ?ks" "set ?ks = dom ?v"
    using live_keys_dom [OF r(2)] mset_eq_imp_distinct_iff [OF ks] mset_eq_setD [OF ks] by simp_all
  have "map_of (map (\<lambda>k. (k, the (?v k))) ?ks) = ?v"
    using d(2) by (auto simp: fun_eq_iff map_of_map_keys map_of_map_restrict restrict_map_def domIff)
  moreover have "?v = visible_of (env_of src w) cs" using visible_loaded [OF r(2)] r(3) s(4) by simp
  ultimately show ?thesis
    using r(1,9) run d(1) read_holds [OF s(1-3,5) r(2,4-9)] s(4) importSource_readOp [OF cl, of order w]
    by (auto simp: comp_def)
qed

section \<open>The import loop\<close>

definition import_cost :: "env \<Rightarrow> (bytes \<times> bytes) list \<Rightarrow> nat" where
  "import_cost e kvs = (\<Sum>(k, v)\<leftarrow>kvs. length (encode_pair (k, stored e v)))"

definition import_map :: "env \<Rightarrow> (bytes \<times> bytes) list \<Rightarrow> (bytes \<rightharpoonup> bytes) \<Rightarrow> (bytes \<rightharpoonup> bytes)" where
  "import_map e kvs c = fold (\<lambda>(k, v) c. c(k \<mapsto> stored e v)) kvs c"

definition import_pre :: "nat \<Rightarrow> env \<Rightarrow> (bytes \<times> bytes) list \<Rightarrow> (bytes \<rightharpoonup> bytes) \<Rightarrow> bool" where
  "import_pre p e kvs c \<longleftrightarrow> (\<forall>(k, v)\<in>set kvs. entry_ok k (stored e v)) \<and> e_size e < 2 ^ 32 \<and>
     64 * (packed_size c + import_cost e kvs) + p < 2 ^ 32"

lemma same_env_stored: "same_env e e' \<Longrightarrow> stored e' = stored e"
  by (cases e; cases e') (simp add: same_env_def stored_def fun_eq_iff)

lemma import_pre_step:
  assumes p: "import_pre p e ((k, v) # kvs) c" and fin: "finite (dom c)" and e: "same_env e e'"
    and sz: "e_size e' \<le> max (e_size e) (size_limit p (c(k \<mapsto> stored e v)))"
  shows "set_pre k v e c" "import_pre p e' kvs (c(k \<mapsto> stored e v))"
proof -
  have le: "packed_size (c(k \<mapsto> stored e v)) + import_cost e kvs \<le> packed_size c + import_cost e ((k, v) # kvs)"
    using packed_size_put [OF fin, of k "stored e v"] by (simp add: import_cost_def)
  have ok: "entry_ok k (stored e v)" "\<forall>(k, v)\<in>set kvs. entry_ok k (stored e v)" "e_size e < 2 ^ 32"
    "64 * (packed_size c + import_cost e ((k, v) # kvs)) + p < 2 ^ 32"
    using p by (simp_all add: import_pre_def)
  have lim: "64 * (packed_size (c(k \<mapsto> stored e v)) + import_cost e kvs) + p < 2 ^ 32"
    using mult_le_mono2 [OF le, of 64] ok(4) by (rule order_le_less_trans [OF add_right_mono])
  have "4 \<le> packed_size (c(k \<mapsto> stored e v))" using packed_size_card [of "c(k \<mapsto> stored e v)"] by linarith
  then show "set_pre k v e c" using ok lim by (simp add: set_pre_def small_def)
  have "e_size e' < 2 ^ 32" using sz ok(3) lim by (simp add: size_limit_def max_def split: if_splits)
  then show "import_pre p e' kvs (c(k \<mapsto> stored e v))"
    using ok(2) lim same_env_stored [OF e] by (simp add: import_pre_def import_cost_def)
qed

lemma keeps_trans: "keeps m m1 \<Longrightarrow> keeps m1 m2 \<Longrightarrow> keeps m m2"
  by (simp add: keeps_def)

lemma same_env_trans: "same_env e e' \<Longrightarrow> same_env e' e'' \<Longrightarrow> same_env e e''"
  by (cases e; cases e'; cases e'') (simp add: same_env_def)

lemma importLoop_ok:
  "store_inv m w ps \<Longrightarrow> import_pre (pagesize w) (env_of m w) kvs (log_map ps) \<Longrightarrow>
    \<exists>m' w' ps'. importLoop kvs n m w = ((n + length kvs, None), m', w') \<and> store_inv m' w' ps' \<and>
      log_map ps' = import_map (env_of m w) kvs (log_map ps) \<and> same_env (env_of m w) (env_of m' w') \<and> keeps m m' \<and>
      os_frame {mf_ino (m_data m), mf_ino (m_meta m)} w w'"
proof (induction kvs arbitrary: m w ps n)
  case Nil
  then show ?case by (auto simp: import_map_def same_env_def)
next
  case (Cons kv kvs)
  obtain k v where kv: "kv = (k, v)" by (cases kv)
  let ?e = "env_of m w" and ?c = "log_map ps"
  let ?c1 = "?c(k \<mapsto> stored ?e v)"
  have fin: "finite (dom ?c)" using log_ok_content [OF store_inv_log_ok [OF Cons.prems(1)]] by (simp add: content_ok_def)
  have "set_pre k v ?e ?c"
    by (rule import_pre_step(1) [OF Cons.prems(2) [unfolded kv] fin, of ?e]) (simp_all add: same_env_def)
  then obtain m1 w1 ps1 where s: "setValueLocked k v m w = (Inr (), m1, w1)" "store_inv m1 w1 ps1" "log_map ps1 = ?c1"
    "same_env ?e (env_of m1 w1)" "keeps m m1" "os_frame {mf_ino (m_data m), mf_ino (m_meta m)} w w1" "progress m w m1 w1"
    using set_op.body_ok [OF Cons.prems(1)] by blast
  have pg: "pagesize w1 = pagesize w" using s(6) by (simp add: os_frame_def)
  have "e_size (env_of m1 w1) \<le> max (e_size ?e) (size_limit (pagesize w) ?c1)"
    using progress_size [OF s(7)] store_inv_env(2) [OF s(2)] store_inv_env(2) [OF Cons.prems(1)] store_inv_facts(4) [OF s(2)] s(3)
    by simp
  then have "import_pre (pagesize w1) (env_of m1 w1) kvs (log_map ps1)"
    unfolding pg s(3) by (rule import_pre_step(2) [OF Cons.prems(2) [unfolded kv] fin s(4)])
  from Cons.IH [OF s(2) this, of "n + 1"] obtain m2 w2 ps2 where t: "importLoop kvs (n + 1) m1 w1 = ((n + 1 + length kvs, None), m2, w2)"
    "store_inv m2 w2 ps2" "log_map ps2 = import_map (env_of m1 w1) kvs ?c1" "same_env (env_of m1 w1) (env_of m2 w2)"
    "keeps m1 m2" "os_frame {mf_ino (m_data m1), mf_ino (m_meta m1)} w1 w2" unfolding s(3) by blast
  have run: "importLoop (kv # kvs) n m w = ((n + length (kv # kvs), None), m2, w2)" using s(1) t(1) by (simp add: kv)
  have lm: "log_map ps2 = import_map ?e (kv # kvs) ?c"
    using t(3) same_env_stored [OF s(4)] by (simp add: import_map_def kv)
  have fr: "os_frame {mf_ino (m_data m), mf_ino (m_meta m)} w w2"
    using s(5,6) t(6) by (auto simp: keeps_def intro: os_frame_trans)
  show ?case
    using run t(2) lm same_env_trans [OF s(4) t(4)] keeps_trans [OF s(5) t(5)] fr by blast
qed

lemma importInto_ok:
  assumes h: "holds m w c" and pre: "import_pre (pagesize w) (env_of m w) kvs c"
  shows "\<exists>m' w'. importInto kvs m w = Some (Inr (length kvs, None), m', w') \<and>
    holds m' w' (import_map (env_of m w) kvs c) \<and> keeps m m' \<and> op_frame m w w'"
proof -
  obtain mi ps where s: "attached m w mi ps" "can_write m w" "meta_consistent mi" "log_map ps = c" "idle m w"
    using h by (auto simp: holds_def session_def)
  have lk: "can_lock ExclusiveLock m w" using s(1,5) by (intro idle_can_lock) (auto simp: attached_def)
  obtain m2 w2 where e: "store_inv m2 w2 ps" "env_of m2 w2 = env_of m w" "m_info m2 = mi" "os_same w w2"
    "same_instance m (m2\<lparr>m_fl := m_fl m\<rparr>)"
    "\<forall>sec r m3 w3. keeps m2 m3 \<longrightarrow> os_frame {mf_ino (m_data m), mf_ino (m_meta m)} w2 w3 \<longrightarrow>
       (\<forall>x y. \<not> m_closed x \<longrightarrow> \<not> m_readOnly x \<longrightarrow> checkLoadData x y = (Inr (), m2, w2) \<longrightarrow> sec x y = (r, m3, w3)) \<longrightarrow>
       (\<exists>w4. withExclusive sec m w = Some (r :: goerr + nat \<times> goerr option, m3\<lparr>m_fl := m_fl m\<rparr>, w4) \<and> os_same w3 w4 \<and>
          keeps m (m3\<lparr>m_fl := m_fl m\<rparr>) \<and> op_frame m w w4)"
    by (rule write_section [OF s(1-3) lk])
  have "import_pre (pagesize w2) (env_of m2 w2) kvs (log_map ps)" using pre e(2,4) s(4) by (simp add: os_same_def)
  from importLoop_ok [OF e(1) this, of 0] obtain m3 w3 ps3 where t: "importLoop kvs 0 m2 w2 = ((length kvs, None), m3, w3)"
    "store_inv m3 w3 ps3" "log_map ps3 = import_map (env_of m w) kvs c" "keeps m2 m3"
    "os_frame {mf_ino (m_data m2), mf_ino (m_meta m2)} w2 w3" unfolding e(2) s(4) by auto
  have fr: "os_frame {mf_ino (m_data m), mf_ino (m_meta m)} w2 w3" using t(5) e(5) by (simp add: same_instance_def)
  obtain w4 where r: "importInto kvs m w = Some (Inr (length kvs, None), m3\<lparr>m_fl := m_fl m\<rparr>, w4)" "os_same w3 w4"
    "keeps m (m3\<lparr>m_fl := m_fl m\<rparr>)" "op_frame m w w4"
    using e(6) [rule_format, OF t(4) fr, of "\<lambda>m w. if m_closed m then (Inr (0, Some ErrClosed), m, w)
       else if m_readOnly m then (Inr (0, Some ErrReadOnly), m, w)
       else (case checkLoadData m w of
               (Inl e, m1, w1) \<Rightarrow> (Inl e, m1, w1)
             | (Inr _, m1, w1) \<Rightarrow> (case importLoop kvs 0 m1 w1 of (r, m2, w2) \<Rightarrow> (Inr r, m2, w2)))"
      "Inr (length kvs, None)"] t(1)
    unfolding importInto_def by simp blast
  have "store_inv (m3\<lparr>m_fl := m_fl m\<rparr>) w4 ps3"
    using t(2) store_inv_cong [of w4 w3] r(2) by (simp add: os_same_def)
  then show ?thesis using store_inv_holds [OF _ idle_frame [OF s(5) r(4,3)]] t(3) r by fastforce
qed

lemma import_map_distinct:
  "distinct (map fst kvs) \<Longrightarrow> import_map e kvs c = c ++ (\<lambda>k. map_option (stored e) (map_of kvs k))"
proof (induction kvs arbitrary: c)
  case (Cons kv kvs)
  obtain k v where kv: "kv = (k, v)" by (cases kv)
  then have "map_of kvs k = None" using Cons.prems by (simp add: map_of_eq_None_iff)
  moreover have "import_map e (kv # kvs) c = import_map e kvs (c(k \<mapsto> stored e v))" by (simp add: kv import_map_def)
  ultimately show ?case using Cons by (auto simp: kv map_add_def fun_eq_iff split: option.splits)
qed (simp add: import_map_def map_add_def)

lemma import_dom: "dom (\<lambda>k. map_option f (map_of kvs k)) = set (map fst kvs)"
proof -
  have "dom (\<lambda>k. map_option f (map_of kvs k)) = dom (map_of kvs)" by (auto simp: domIff)
  then show ?thesis by (simp add: dom_map_of_conv_image_fst)
qed

lemma import_cost_packed:
  assumes "distinct (map fst kvs)" "s = (\<lambda>k. map_option (stored e) (map_of kvs k))"
  shows "packed_size s = 4 + import_cost e kvs"
proof -
  have d: "dom s = set (map fst kvs)" unfolding assms(2) by (rule import_dom)
  have "import_cost e kvs = (\<Sum>kv\<leftarrow>kvs. length (encode_pair (fst kv, the (s (fst kv)))))"
    unfolding import_cost_def using assms by (intro arg_cong [where f = sum_list] map_cong) auto
  also have "\<dots> = (\<Sum>k\<leftarrow>map fst kvs. length (encode_pair (k, the (s k))))" by (simp add: comp_def)
  also have "\<dots> = (\<Sum>k\<in>dom s. length (encode_pair (k, the (s k))))"
    unfolding d by (rule sum.distinct_set_conv_list [OF assms(1), symmetric])
  finally show ?thesis using packed_size_sum [of s] d by simp
qed

section \<open>Properties\<close>

text \<open>
  C12: importing merges one store into another.  Every value that is visible in the source when the
  import starts is written to the destination with the destination's own key and expiration policy,
  replacing what was there under its key; every other key of the destination stays, the source is
  unchanged, and the count returned is the number of keys imported.  The order in which the source
  dictionary is walked does not matter.
\<close>

theorem import_merges_stores:
  assumes "holds src w cs" "holds m w c" "separate src m" and "\<And>d. mset (order d) = mset (gm_keys d)"
    and "s = (\<lambda>k. map_option (stored (env_of m w)) (visible_of (env_of src w) cs k))" and "content_ok s"
    and "e_size (env_of m w) < 2 ^ 32" "64 * (packed_size c + packed_size s) + pagesize w < 2 ^ 32"
  shows "\<exists>src' m' w'. ImportFrom order src m w = Some (Inr (card (dom s), None), src', m', w') \<and>
    holds m' w' (c ++ s) \<and> holds src' w' cs"
proof -
  obtain kvs src' w1 where i: "importSource order src w = Some (Inr kvs, src', w1)" "distinct (map fst kvs)"
    "map_of kvs = visible_of (env_of src w) cs" "holds src' w1 cs" "keeps src src'" "op_frame src w w1"
    using importSource_ok [OF assms(1), of order] assms(4) by blast
  note m1 = holds_separate [OF assms(3) i(6) assms(2)]
  have pg: "pagesize w1 = pagesize w" using i(6) by (simp add: op_frame_def)
  have s: "s = (\<lambda>k. map_option (stored (env_of m w)) (map_of kvs k))" using assms(5) i(3) by simp
  have d: "dom s = set (map fst kvs)" unfolding s by (rule import_dom)
  have "entry_ok k (stored (env_of m w) v)" if "(k, v) \<in> set kvs" for k v
    using that assms(6) i(2) s by (auto simp: content_ok_def entry_ok_def)
  then have "import_pre (pagesize w1) (env_of m w1) kvs c"
    using assms(7,8) import_cost_packed [OF i(2) s] by (auto simp: import_pre_def m1(2) pg)
  from importInto_ok [OF m1(1) this] obtain m' w' where t: "importInto kvs m w1 = Some (Inr (length kvs, None), m', w')"
    "holds m' w' (c ++ s)" "op_frame m w1 w'"
    unfolding m1(2) import_map_distinct [OF i(2)] s [symmetric] by blast
  have "holds src' w' cs" by (rule holds_separate(1) [OF separate_keeps [OF _ i(5), THEN separate_sym] t(3) i(4)]) (rule assms(3))
  moreover have "card (dom s) = length kvs" using distinct_card [OF i(2)] d by simp
  ultimately show ?thesis using i(1) t(1,2) by (simp add: ImportFrom_def)
qed

text \<open>Opening a second, new store leaves the first one alone.\<close>

lemma open_beside:
  assumes h: "holds m w c" and wf: "os_wf w" and own: "lookup w dp0 = Some (mf_ino (m_data m))"
      "lookup w (dp0 @ crcSuffix) = Some (mf_ino (m_meta m))" "fl_ino (m_fl m) = mf_ino (m_meta m)"
    and new: "lookup w dp = None" "lookup w (dp @ crcSuffix) = None" "dp = dataPathFor root mid"
      "filepath_Abs (cwd w) (dp @ crcSuffix) \<noteq> filepath_Abs (cwd w) dp" "\<not> c_readOnly cfg" "\<not> c_multiProcess cfg"
  obtains m' w' where "mmkv_open (newMMKV root mid key cfg) w = Some (Inr (), m', w')" "holds m' w' Map.empty"
    "holds m w' c" "separate m m'" "env_of m w' = env_of m w" "pagesize w' = pagesize w"
    "env_of m' w' = \<lparr>e_crypt = cfg_crypt cfg, e_expire = False, e_seconds = 0, e_now = nowUnix w, e_size = pagesize w\<rparr>"
proof -
  have w: "faults w = []" "4 \<le> pagesize w"
    using h by (auto simp: holds_def session_def attached_def can_write_def)
  note fr = opened_fresh [OF new(1,2) w(2)]
  obtain m' w' where o: "mmkv_open (newMMKV root mid key cfg) w = Some (Inr (), m', w')" "store_inv m' w' []"
    "m_info m' = zero_info" "data_file m' w' = opened_data w dp" "meta_file m' w' = opened_meta w dp"
    "lookup w' dp = Some (mf_ino (m_data m'))" "lookup w' (dp @ crcSuffix) = Some (mf_ino (m_meta m'))"
    "m_fl m' = newFileLock (mf_ino (m_meta m')) (nextOfd w + 1)" "fl_inv (m_fl m') w'" "flocks w' = flocks w"
    "nowUnix w' = nowUnix w" "pagesize w' = pagesize w" "cwd w' = cwd w"
    "m_multiProcess m' = c_multiProcess cfg" "m_crypt m' = cfg_crypt cfg" "m_key m' = key" "m_expiredSeconds m' = 0"
    "\<not> m_compareBeforeSet m'" "os_wf w'" "closedOfds w' = closedOfds w"
    "\<forall>i. i \<noteq> mf_ino (m_data m') \<longrightarrow> i \<noteq> mf_ino (m_meta m') \<longrightarrow> files w' i = files w i"
    "\<forall>p. p \<noteq> filepath_Abs (cwd w) dp \<longrightarrow> p \<noteq> filepath_Abs (cwd w) (dp @ crcSuffix) \<longrightarrow> dirent w' p = dirent w p"
    by (rule mmkv_open_ok [OF w wf new(3-5) fr(3) zero_info_consistent])
  have inj: "dirent w' p = Some i \<Longrightarrow> dirent w' q = Some i \<Longrightarrow> p = q" for p q i
    using o(19) unfolding os_wf_def by blast
  have sep: "i \<noteq> mf_ino (m_data m')" "i \<noteq> mf_ino (m_meta m')" if l: "lookup w p = Some i" for p i
  proof -
    have ne: "filepath_Abs (cwd w) p \<noteq> filepath_Abs (cwd w) dp" "filepath_Abs (cwd w) p \<noteq> filepath_Abs (cwd w) (dp @ crcSuffix)"
      using l new(1,2) by (auto simp: lookup_def)
    then have "dirent w' (filepath_Abs (cwd w) p) = Some i" using l o(22) by (simp add: lookup_def)
    then show "i \<noteq> mf_ino (m_data m')" "i \<noteq> mf_ino (m_meta m')"
      using ne o(6,7,13) inj by (auto simp: lookup_def)
  qed
  have ap: "separate m m'" using sep own o(8) by (auto simp: separate_def newFileLock_def)
  have f: "files w' (mf_ino (m_data m)) = files w (mf_ino (m_data m))" "files w' (mf_ino (m_meta m)) = files w (mf_ino (m_meta m))"
    using sep own o(21) by blast+
  have flt: "faults w' = faults w" using o(2) w(1) by (simp add: store_inv_def writable_def)
  have "holds m w' c" using h holds_files [OF f _ o(20) flt o(12)] o(10) by simp
  moreover have "holds m' w' Map.empty" using store_inv_holds [OF o(2)] o(14) new(6) by (simp add: idle_def)
  moreover have "env_of m w' = env_of m w" using f o(11) by (simp add: env_of_def)
  moreover have "env_of m' w' = \<lparr>e_crypt = cfg_crypt cfg, e_expire = False, e_seconds = 0, e_now = nowUnix w, e_size = pagesize w\<rparr>"
    using o(4,5) [unfolded fr(1,2)] o(11,15,17) parseMeta_zeros [of "pageRoundUp (pagesize w) metaSize"] pageRoundUp_ge [of "pagesize w" metaSize] w(2)
    by (simp add: env_of_def disk_expire_def zero_info_def meta_versions)
  ultimately show thesis using o(1,12) ap by (intro that) blast+
qed

lemma ex_path2:
  "dataPathFor ''/tmp'' ''kv2'' = ''/tmp/kv2''"
  "filepath_Abs ''/'' (''/tmp/kv2'' @ crcSuffix) \<noteq> filepath_Abs ''/'' ''/tmp/kv2''"
  by (simp_all add: dataPathFor_def encodeFilePath_def strings_ContainsAny_def specialChars_def
      filepath_Join_def filepath_Abs_def crcSuffix_def filepath_Clean_def is_abs_def)

theorem import_merges_stores_witness:
  "\<exists>m w src' m' w'. mmkv_open (newMMKV ''/tmp'' ''kv2'' ''/tmp/kv2'' (WithCryptKey [1, 2] emptyConfig)) ex_w1 = Some (Inr (), m, w) \<and>
     holds ex_m1 w [[107] \<mapsto> [1, 7]] \<and> ImportFrom gm_keys ex_m1 m w = Some (Inr (1, None), src', m', w') \<and>
     holds m' w' [[107] \<mapsto> [1, 7]]"
proof -
  let ?cfg = "WithCryptKey [1, 2] emptyConfig" and ?c = "[[107 :: byte] \<mapsto> [1 :: byte, 7]]"
  have x: "encode_pair ([107], [1, 7]) = [1, 107, 2, 1, 7]" by code_simp
  have os: "cwd ex_w1 = ''/''" "pagesize ex_w1 = 4096" "dirent ex_w1 = dirent ex_w"
    using ex_kv1(4) ex_kv(11,13) by (simp_all add: op_frame_def)
  have new: "lookup ex_w1 ''/tmp/kv2'' = None" "lookup ex_w1 (''/tmp/kv2'' @ crcSuffix) = None"
    using os ex_kv(14) by (simp_all add: lookup_def filepath_Abs_def filepath_Clean_def is_abs_def crcSuffix_def)
  have own: "fl_ino (m_fl ex_m1) = mf_ino (m_meta ex_m1)" using ex_kv1(3) ex_kv(12) by (simp add: keeps_def)
  have cfg: "\<not> c_readOnly ?cfg" "\<not> c_multiProcess ?cfg" by (simp_all add: WithCryptKey_def emptyConfig_def)
  obtain m w where o: "mmkv_open (newMMKV ''/tmp'' ''kv2'' ''/tmp/kv2'' ?cfg) ex_w1 = Some (Inr (), m, w)" "holds m w Map.empty"
    "holds ex_m1 w ?c" "separate ex_m1 m" "env_of ex_m1 w = env_of ex_m1 ex_w1" "pagesize w = 4096"
    "env_of m w = \<lparr>e_crypt = cfg_crypt ?cfg, e_expire = False, e_seconds = 0, e_now = nowUnix ex_w1, e_size = 4096\<rparr>"
    using open_beside [OF ex_kv1(1) ex_kv1_files(3,1,2) own new ex_path2(1) [symmetric] _ cfg] ex_path2(2) unfolding os(1,2) by blast
  have s: "?c = (\<lambda>k. map_option (stored (env_of m w)) (visible_of (env_of ex_m1 w) ?c k))"
    unfolding o(5,7) ex_kv1_visible by (auto simp: stored_def stored_value_def fun_eq_iff)
  have "content_ok ?c" "e_size (env_of m w) < 2 ^ 32" "64 * (packed_size Map.empty + packed_size ?c) + pagesize w < 2 ^ 32"
    unfolding o(6,7) by (simp_all add: content_ok_def pair_ok_def packed_size_empty packed_size_single x itemSizeHolderBytes_eq)
  from import_merges_stores [OF o(3,2,4) refl s this] show ?thesis using o(1,3) by auto
qed

end
