(* ===== verification/Spec2Isabelle.thy ===== *)
theory Spec2Isabelle
  imports StorageProps Recovery PublicLock ImportProps
begin

text \<open>
  A verified model of a pure-Go implementation of the MMKV key-value store.

  \<^bold>\<open>The program.\<close>  A store is a pair of files.  The data file holds a four-byte legacy size and a region:
  a log of key-value pairs in a protobuf-like wire format, in which a later pair overrides an earlier
  one and an empty value deletes its key.  The meta file, named like the data file with \<^verbatim>\<open>.crc\<close>
  appended, holds a 112-byte record: the CRC and size of the region, the CRC and size of the last
  region that was written as a whole, a sequence number, an initialisation vector and flags.  A region
  may be encrypted with AES-CFB, and its values may carry a time stamp at which they expire.  Four
  clients use such files: the read/write instance \<^verbatim>\<open>MMKV\<close> (memory-mapped, cached in a dictionary, shared
  between processes through \<^verbatim>\<open>flock\<close> on the meta file), the snapshot reader \<^verbatim>\<open>Reader\<close>, the one-shot
  writer \<^verbatim>\<open>Writer\<close>, and the file-level operations (backup, restore, validity check, removal).

  \<^bold>\<open>How the code is translated.\<close>  A Go function becomes a function that passes the state explicitly:
  the type \<open>'a step\<close> takes an instance (record \<open>mmkv\<close>, the struct \<^verbatim>\<open>MMKV\<close>) and the operating system
  (record \<open>os\<close>) and returns a result and both updated; \<open>'a op\<close> is the same for a public operation, with
  \<open>None\<close> for a call that sleeps in \<^verbatim>\<open>flock\<close> for ever.  Errors are values of \<open>goerr\<close> in the left summand;
  \<open>Panic\<close> is a run-time panic or an access to unmapped memory.  Integers keep their Go width as words,
  so size and time-stamp arithmetic wraps as in Go; \<^verbatim>\<open>int\<close> lengths are naturals.  A Go map is an
  association list with distinct keys.  A slice is heap memory or a window of a numbered generation of
  a mapping, so that a view kept across a remap is visible as a fault.  Every system call consumes an
  element of \<open>faults\<close>, which says whether it fails; theorems that speak of success assume \<open>faults = []\<close>,
  the others hold for every outcome.

  \<^bold>\<open>Theories of the model\<close> (file under \<^verbatim>\<open>src/\<close> in parentheses):
  \<^item> \<open>Prelude\<close>: types, errors, slices, little-endian words, CRC-32, the generic invariant system.
  \<^item> \<open>GoMap\<close>: Go maps and \<^verbatim>\<open>sort.Strings\<close>; the contract \<open>go_map\<close>.
  \<^item> \<open>Wire\<close> (\<^verbatim>\<open>wire.go\<close>), \<open>Encode\<close> (\<^verbatim>\<open>encode.go\<close>): reader and writer of the wire format; the contract
    \<open>codec\<close>, interpreted for each field type.
  \<^item> \<open>Dict\<close> (\<^verbatim>\<open>reader.go\<close>: \<^verbatim>\<open>parseDict\<close>, \<^verbatim>\<open>parseDictGreedy\<close>): replay of a region, strict and tolerant.
  \<^item> \<open>Meta\<close> (\<^verbatim>\<open>meta.go\<close>): the meta record.
  \<^item> \<open>Digest\<close>, \<open>Crypt\<close> (\<^verbatim>\<open>crypt.go\<close>): MD5, the AES block function, AES-CFB; the contract \<open>region_cipher\<close>.
  \<^item> \<open>Path\<close> (\<^verbatim>\<open>path.go\<close>): names of the files, with the parts of \<^verbatim>\<open>path/filepath\<close> they use.
  \<^item> \<open>Os\<close>, \<open>MemFile\<close> (\<^verbatim>\<open>memfile.go\<close>), \<open>Flock\<close> (\<^verbatim>\<open>flock.go\<close>, \<^verbatim>\<open>lock_unix.go\<close>): files, directory, lock table;
    mapped files with the contract \<open>mapped_file\<close>; the counting lock with upgrade and downgrade.
  \<^item> \<open>Mmkv\<close> (\<^verbatim>\<open>mmkv.go\<close>): state, locking, loading with roll-back and salvage, the freshness check, reads.
  \<^item> \<open>MmkvIO\<close> (\<^verbatim>\<open>mmkv_io.go\<close>): append, override and full write-back, removal, clearing, trimming, flushing.
  \<^item> \<open>MmkvOps\<close> (\<^verbatim>\<open>mmkv_lock.go\<close>, \<^verbatim>\<open>mmkv_crypt.go\<close>, \<^verbatim>\<open>mmkv_expire.go\<close>, \<^verbatim>\<open>mmkv_compare.go\<close>, \<^verbatim>\<open>ImportFrom\<close>, and opening,
    registering and closing of \<^verbatim>\<open>mmkv.go\<close>).
  \<^item> \<open>Reader\<close> (\<^verbatim>\<open>reader.go\<close>), \<open>Writer\<close> (\<^verbatim>\<open>writer.go\<close>), \<open>Backup\<close> (\<^verbatim>\<open>backup.go\<close>, \<^verbatim>\<open>mmkv_backup.go\<close>, \<^verbatim>\<open>mmkv_ns.go\<close>,
    \<^verbatim>\<open>namespace.go\<close>).

  \<^bold>\<open>Theories of the proofs.\<close>
  \<^item> \<open>StoreInv\<close>, \<open>Store\<close>, \<open>StoreRead\<close>, \<open>StoreCfg\<close>: the invariant of a store (\<open>store_inv m w ps\<close>: the mapping is
    live, the meta record describes the region, the region is the encoding of the log \<open>ps\<close>, and the
    cached dictionary denotes its replay) and that every locked body keeps it and does to the map what
    it should.  Each body also makes \<open>progress\<close>: another process can tell from sequence number or size
    that it happened, and the file stays within \<open>size_limit\<close>.
  \<^item> \<open>Session\<close>: public operations.  \<open>attached\<close> says that the cache is current or that the freshness check
    notices that it is not; \<open>write_section\<close> is the critical section; the contract \<open>write_body\<close> lifts a
    locked body to its public operation.
  \<^item> \<open>Ops\<close>, \<open>TypedStore\<close>, \<open>Open\<close>: the eight write operations (contract \<open>write_body\<close>), the getters and
    listings (\<open>read_body\<close>), the ten typed setter and getter pairs (\<open>typed_store\<close>), and opening.
    \<open>holds m w c\<close> is the abstraction of a client: between two calls instance \<open>m\<close> holds the map \<open>c\<close>.
  \<^item> \<open>StoreProps\<close>, \<open>History\<close>: one instance refines a map.  \<open>History\<close> is the top-level statement: every
    sequence of commands, queries, flushes, cache drops and clock changes answers as the map does.
  \<^item> \<open>Processes\<close>, \<open>Limits\<close>, \<open>PublicLock\<close>: several processes on one store, as a step relation with an
    inductive invariant; that nobody is left waiting; and critical sections under the public lock.
  \<^item> \<open>Recovery\<close>: loading arbitrary bytes, roll-back to the confirmed region, salvage of a torn append.
  \<^item> \<open>Guards\<close>: what holds for every outcome of the system calls.
  \<^item> \<open>ReaderProps\<close>, \<open>WriterProps\<close>, \<open>BackupProps\<close>, \<open>ImportProps\<close>, \<open>StorageProps\<close>, \<open>Registry\<close>: the other
    clients against the instance, two stores side by side, and the registry of a process.
  \<^item> \<open>EdgeCases\<close>: expiration to the second and its wrap-around, compare-before-set, and deletion from an
    encrypted store.

  \<^bold>\<open>What is assumed.\<close>  Nothing outside HOL.  The properties state their conditions: system calls succeed
  (where that is said), keys and values fit their 32-bit length prefixes, and packed sizes stay below
  \<^verbatim>\<open>2^32\<close>.  For a history the second bound is on the specified maps only: the data file never exceeds
  its previous length or \<open>size_limit p c = 64 * packed_size c + p\<close> for page size \<open>p\<close>, because a
  write-back reserves, beyond what it writes, the mean pair size times the larger of eight and half the
  number of pairs, and the file stops doubling once it exceeds that target.
  Deleting a single key is specified for plaintext stores; \<open>EdgeCases\<close> shows what happens otherwise.

  \<^bold>\<open>Fuel and termination.\<close>  No definition has fuel.  The loops of the parsers, of file growth (doubling)
  and of trimming (halving) are total functions with a measure; varint reading stops after the ten
  bytes of the code's own limit.  A blocking \<^verbatim>\<open>flock\<close> that cannot be granted is \<open>None\<close>; that an operation
  returns is part of every theorem about it.

  \<^bold>\<open>Not modelled.\<close>
  \<^item> Goroutines inside one process: the instance mutex makes its operations atomic, so interleavings are
    of whole operations, except for \<^verbatim>\<open>Close\<close>, whose two steps under different mutexes are two steps here.
    The atomic publication of a reader's snapshot pointer is a plain assignment.
  \<^item> The moment at which dirty pages reach the disk: \<^verbatim>\<open>msync\<close> can fail but has no other effect, and the
    files are what a surviving process sees.  A crash in the middle of a write is represented by the
    file contents it may leave, which \<open>Recovery\<close> quantifies over.
  \<^item> Partial copies in a failing backup: a copy that fails does so before its first write.
  \<^item> \<^verbatim>\<open>lock_other.go\<close>, the stubs of platforms without \<^verbatim>\<open>flock\<close> and \<^verbatim>\<open>mmap\<close>: each returns an error, so opening
    a reader and taking a backup always fail there, and the instance and the writer are not built.
    The model is of the unix build.
  \<^item> \<^verbatim>\<open>tools/gen\<close>, which writes fixtures through the C++ library's binding, and tests, benchmarks and
    scripts: they are not part of the library, and the binding is not in the repository.
\<close>

end
